(* ===== verification/H2_Prelude.thy ===== *)
theory H2_Prelude
  imports Main "HOL-Library.Word"
begin

text \<open>
  Shared vocabulary of the development: the machine integer types of the C++ sources, the
  outcomes that a C++ program can have besides returning (undefined behaviour, a failed
  \<open>assert\<close>, a trap), the named collections of simplification rules the component theories
  extend, and the generic facts on words, modular arithmetic and lists that several of
  them use.
\<close>

section \<open>Machine integers, bytes and faults\<close>

type_synonym u8 = "8 word"
type_synonym u16 = "16 word"
type_synonym u32 = "32 word"
type_synonym u64 = "64 word"
type_synonym bytes = "u8 list"

text \<open>
  What a statement of the sources can do instead of completing: an access past the end of a
  container, an integer division by zero, a use of a null or freed pointer, a read of a
  variable that was never initialised, a failed \<open>assert\<close> (the Makefile does not define
  \<open>NDEBUG\<close>), a library function called outside of its domain.
\<close>

datatype fault =
    OutOfBounds
  | DivByZero
  | NullDeref
  | DanglingPointer
  | Uninitialised
  | EmptyFunction
  | Terminated
  | AssertFailed
  | Undefined

type_synonym 'a outcome = "fault + 'a"

text \<open>Sequencing of computations that may fault: the first fault ends the run.\<close>

definition obind :: "'a outcome \<Rightarrow> ('a \<Rightarrow> 'b outcome) \<Rightarrow> 'b outcome" where
  "obind m f = (case m of Inl e \<Rightarrow> Inl e | Inr x \<Rightarrow> f x)"

text \<open>An unchecked subscript \<open>v[i]\<close> of a \<open>std::vector\<close> or array, and the assignment to one.\<close>

definition vec_at :: "'a list \<Rightarrow> nat \<Rightarrow> 'a outcome" where
  "vec_at xs i = (if i < length xs then Inr (xs ! i) else Inl OutOfBounds)"

definition vec_set :: "'a list \<Rightarrow> nat \<Rightarrow> 'a \<Rightarrow> 'a list outcome" where
  "vec_set xs i x = (if i < length xs then Inr (xs[i := x]) else Inl OutOfBounds)"

named_theorems outcome_simps \<open>evaluation of faulting computations\<close>
named_theorems word_nat \<open>machine words read as natural numbers\<close>

lemma obind_simps [simp, outcome_simps]:
  "obind (Inl e) f = Inl e"
  "obind (Inr x) f = f x"
  by (simp_all add: obind_def)

lemma obind_eq_Inr [outcome_simps]: "obind m f = Inr y \<longleftrightarrow> (\<exists>x. m = Inr x \<and> f x = Inr y)"
  by (cases m) auto

lemma vec_at_ok [simp, outcome_simps]: "i < length xs \<Longrightarrow> vec_at xs i = Inr (xs ! i)"
  by (simp add: vec_at_def)

lemma vec_set_ok [simp, outcome_simps]: "i < length xs \<Longrightarrow> vec_set xs i x = Inr (xs[i := x])"
  by (simp add: vec_set_def)

section \<open>Words as natural numbers\<close>

unbundle bit_operations_syntax

lemma unat_ucast_up [word_nat]:
  fixes w :: "'a::len word"
  assumes "LENGTH('a) \<le> LENGTH('b::len)"
  shows "unat (ucast w :: 'b word) = unat w"
proof -
  have "unat w < 2 ^ LENGTH('b)"
    using unsigned_less [of w] assms
    by (metis order_less_le_trans one_le_numeral power_increasing)
  then show ?thesis by (simp add: unsigned_ucast_eq take_bit_nat_eq_self)
qed

lemma unat_ucast_mod [word_nat]:
  fixes w :: "'a::len word"
  shows "unat (ucast w :: 'b::len word) = unat w mod 2 ^ LENGTH('b)"
  by (simp add: unsigned_ucast_eq take_bit_eq_mod)

lemma unat_and_mask [word_nat]:
  fixes w :: "'a::len word"
  shows "unat (w AND mask k) = unat w mod 2 ^ k"
  by (simp only: take_bit_eq_mask [symmetric] unsigned_take_bit_eq)
    (simp add: take_bit_eq_mod)

lemma unat_pow2 [word_nat]:
  assumes "k < LENGTH('a::len)"
  shows "unat (2 ^ k :: 'a word) = 2 ^ k"
  using assms by (simp add: of_nat_inverse)

lemma pow2_if_unat:
  fixes w :: "'a::len word"
  assumes "unat w = 2 ^ k"
  shows "w = 2 ^ k"
  by (metis assms of_nat_numeral of_nat_power of_nat_unat ucast_id)

lemma mod_pow2_Suc:
  assumes "k \<le> n"
  shows "(a mod 2 ^ n) mod 2 ^ k = a mod (2 ^ k :: nat)"
  using assms by (simp add: mod_mod_cancel le_imp_power_dvd)

section \<open>Modular distance and lists\<close>

text \<open>The number of steps from \<open>h\<close> forward to \<open>t\<close> on a ring of \<open>n\<close> slots.\<close>

definition ring_dist :: "nat \<Rightarrow> nat \<Rightarrow> nat \<Rightarrow> nat" where
  "ring_dist n h t = (if h \<le> t then t - h else n + t - h)"

lemma ring_dist_same [simp]: "ring_dist n h h = 0"
  by (simp add: ring_dist_def)

lemma ring_dist_less: "h < n \<Longrightarrow> t < n \<Longrightarrow> ring_dist n h t < n"
  by (auto simp: ring_dist_def)

lemma ring_dist_0_iff: "h < n \<Longrightarrow> t < n \<Longrightarrow> ring_dist n h t = 0 \<longleftrightarrow> h = t"
  by (auto simp: ring_dist_def)

lemma ring_dist_step:
  assumes "h < n" "t < n" "(t + 1) mod n \<noteq> h"
  shows "ring_dist n h ((t + 1) mod n) = Suc (ring_dist n h t)"
  using assms by (cases "t + 1 = n") (auto simp: ring_dist_def)

lemma ring_dist_full:
  assumes "h < n" "t < n"
  shows "(t + 1) mod n = h \<longleftrightarrow> ring_dist n h t = n - 1"
  using assms by (cases "t + 1 = n") (auto simp: ring_dist_def)

lemma ring_dist_drop:
  assumes "h < n" "t < n" "h \<noteq> t"
  shows "ring_dist n h t = Suc (ring_dist n ((h + 1) mod n) t)"
  using assms by (cases "h + 1 = n") (auto simp: ring_dist_def)

lemma ring_dist_end:
  assumes "h < n" "t < n"
  shows "(h + ring_dist n h t) mod n = t"
  using assms by (auto simp: ring_dist_def)

text \<open>The elements from slot \<open>h\<close> on, \<open>m\<close> of them, wrapping at the end of the list.\<close>

definition ring_slice :: "'a list \<Rightarrow> nat \<Rightarrow> nat \<Rightarrow> 'a list" where
  "ring_slice xs h m = map (\<lambda>i. xs ! ((h + i) mod length xs)) [0..<m]"

lemma length_ring_slice [simp]: "length (ring_slice xs h m) = m"
  by (simp add: ring_slice_def)

lemma ring_slice_0 [simp]: "ring_slice xs h 0 = []"
  by (simp add: ring_slice_def)

lemma ring_slice_Suc:
  "ring_slice xs h (Suc m) = ring_slice xs h m @ [xs ! ((h + m) mod length xs)]"
  by (simp add: ring_slice_def)

lemma ring_slice_Cons:
  assumes "h < length xs"
  shows "ring_slice xs h (Suc m) = xs ! h # ring_slice xs ((h + 1) mod length xs) m"
proof -
  have "(h + Suc i) mod length xs = ((h + 1) mod length xs + i) mod length xs" for i
    by (simp add: mod_add_left_eq)
  then show ?thesis
    unfolding ring_slice_def using assms
    by (simp add: map_Suc_upt [symmetric] upt_conv_Cons del: upt_Suc map_Suc_upt
        add: upt_conv_Cons [of 0 "Suc m"])
qed

lemma ring_slice_update_outside:
  assumes "\<And>i. i < m \<Longrightarrow> (h + i) mod length xs \<noteq> j"
  shows "ring_slice (xs[j := x]) h m = ring_slice xs h m"
proof -
  have "xs[j := x] ! ((h + i) mod length xs) = xs ! ((h + i) mod length xs)" if "i < m" for i
    using assms [OF that] by simp
  then show ?thesis by (simp add: ring_slice_def)
qed

lemma ring_index_not_end:
  assumes "h < n" "t < n" "i < ring_dist n h t"
  shows "(h + i) mod n \<noteq> t"
proof (cases "h + i < n")
  case True
  with assms show ?thesis by (auto simp: ring_dist_def split: if_splits)
next
  case False
  with assms have "(h + i) mod n = h + i - n"
    by (auto simp: ring_dist_def le_mod_geq split: if_splits)
  with assms False show ?thesis by (auto simp: ring_dist_def split: if_splits)
qed

end
