(* ===== verification/Cpp_String.thy ===== *)
theory Cpp_String
  imports H2_Prelude
begin

text \<open>
  The operations of \<open>std::string_view\<close> that the sources use, on lists of characters (and, for
  the request body, the same operations on its bytes read as characters). A position is a
  \<open>nat\<close>; the result of a search is an option, with \<open>None\<close> for \<open>npos\<close>. A search that starts
  past the end finds nothing, as the standard says, so a search from \<open>npos\<close> finds nothing.
\<close>

section \<open>Operations\<close>

fun find_sub :: "'a list \<Rightarrow> 'a list \<Rightarrow> nat option" where
  "find_sub p [] = (if p = [] then Some 0 else None)"
| "find_sub p (x # xs) =
     (if take (length p) (x # xs) = p then Some 0 else map_option Suc (find_sub p xs))"

definition sv_find :: "'a list \<Rightarrow> 'a list \<Rightarrow> nat \<Rightarrow> nat option" where
  "sv_find s p pos =
     (if pos \<le> length s then map_option (\<lambda>i. pos + i) (find_sub p (drop pos s)) else None)"

definition sv_find_char :: "'a list \<Rightarrow> 'a \<Rightarrow> nat \<Rightarrow> nat option" where
  "sv_find_char s c pos = sv_find s [c] pos"

text \<open>A search whose start is itself the result of a search.\<close>

definition sv_find_opt :: "'a list \<Rightarrow> 'a list \<Rightarrow> nat option \<Rightarrow> nat option" where
  "sv_find_opt s p pos = (case pos of None \<Rightarrow> None | Some i \<Rightarrow> sv_find s p i)"

fun find_not :: "'a \<Rightarrow> 'a list \<Rightarrow> nat option" where
  "find_not c [] = None"
| "find_not c (x # xs) = (if x \<noteq> c then Some 0 else map_option Suc (find_not c xs))"

definition sv_find_first_not_of :: "'a list \<Rightarrow> 'a \<Rightarrow> nat \<Rightarrow> nat option" where
  "sv_find_first_not_of s c pos =
     (if pos \<le> length s then map_option (\<lambda>i. pos + i) (find_not c (drop pos s)) else None)"

text \<open>\<open>substr(pos, n)\<close> for \<open>pos\<close> within the string.\<close>

definition substr :: "'a list \<Rightarrow> nat \<Rightarrow> nat \<Rightarrow> 'a list" where
  "substr s pos n = take n (drop pos s)"

text \<open>
  What a C function sees of a string passed by \<open>c_str()\<close>: the characters before the first NUL.
  The decimal notation that a stream prints for an integer.
\<close>

definition c_str :: "string \<Rightarrow> string" where
  "c_str s = takeWhile (\<lambda>c. c \<noteq> CHR 0x00) s"

fun dec_nat :: "nat \<Rightarrow> string" where
  "dec_nat n =
     (if n < 10 then [char_of (48 + n)] else dec_nat (n div 10) @ [char_of (48 + n mod 10)])"

declare dec_nat.simps [simp del]

definition dec_int :: "int \<Rightarrow> string" where
  "dec_int i = (if i < 0 then CHR ''-'' # dec_nat (nat (- i)) else dec_nat (nat i))"

section \<open>What a search finds\<close>

definition occurs_at :: "'a list \<Rightarrow> 'a list \<Rightarrow> nat \<Rightarrow> bool" where
  "occurs_at s p i \<longleftrightarrow> i \<le> length s \<and> take (length p) (drop i s) = p"

lemma occurs_at_Cons_Suc [simp]: "occurs_at (x # s) p (Suc i) \<longleftrightarrow> occurs_at s p i"
  by (simp add: occurs_at_def)

lemma occurs_at_0: "occurs_at s p 0 \<longleftrightarrow> take (length p) s = p"
  by (simp add: occurs_at_def)

lemma occurs_at_length: "occurs_at s p i \<Longrightarrow> i + length p \<le> length s"
  unfolding occurs_at_def by (metis add.commute le_diff_conv2 length_drop length_take min.cobounded1
      min_def nat_le_linear take_all)

lemma find_sub_Some:
  "find_sub p s = Some i \<longleftrightarrow> occurs_at s p i \<and> (\<forall>j < i. \<not> occurs_at s p j)"
proof (induction s arbitrary: i)
  case Nil
  then show ?case by (cases i) (auto simp: occurs_at_def)
next
  case (Cons x s)
  show ?case
  proof (cases "occurs_at (x # s) p 0")
    case True
    then show ?thesis by (cases i) (auto simp: occurs_at_0)
  next
    case False
    then have eq: "find_sub p (x # s) = map_option Suc (find_sub p s)" by (simp add: occurs_at_0)
    show ?thesis
    proof (cases i)
      case 0
      with eq False show ?thesis by auto
    next
      case (Suc k)
      with eq False Cons.IH [of k] show ?thesis by (auto simp: less_Suc_eq_0_disj)
    qed
  qed
qed

lemma find_sub_None: "find_sub p s = None \<longleftrightarrow> (\<forall>j. \<not> occurs_at s p j)"
proof
  show "find_sub p s = None \<Longrightarrow> \<forall>j. \<not> occurs_at s p j"
  proof (rule ccontr)
    assume none: "find_sub p s = None" and "\<not> (\<forall>j. \<not> occurs_at s p j)"
    then obtain j where "occurs_at s p j" by blast
    then have "occurs_at s p (LEAST j. occurs_at s p j)" by (rule LeastI)
    with none show False using find_sub_Some not_less_Least by (metis option.distinct(1))
  qed
  show "\<forall>j. \<not> occurs_at s p j \<Longrightarrow> find_sub p s = None"
    using find_sub_Some by (metis option.exhaust)
qed

lemma occurs_at_drop: "pos \<le> length s \<Longrightarrow> occurs_at (drop pos s) p i \<longleftrightarrow> occurs_at s p (pos + i)"
  by (auto simp: occurs_at_def add.commute)

text \<open>A search returns the first occurrence at or after its start.\<close>

lemma sv_find_Some:
  "sv_find s p pos = Some i \<longleftrightarrow>
     pos \<le> i \<and> occurs_at s p i \<and> (\<forall>j. pos \<le> j \<and> j < i \<longrightarrow> \<not> occurs_at s p j)"
proof (cases "pos \<le> length s")
  case True
  show ?thesis
  proof
    assume "sv_find s p pos = Some i"
    with True obtain k where k: "i = pos + k" "find_sub p (drop pos s) = Some k"
      by (auto simp: sv_find_def)
    with True have "occurs_at s p i" "\<forall>j < k. \<not> occurs_at s p (pos + j)"
      by (simp_all add: find_sub_Some occurs_at_drop)
    with k show "pos \<le> i \<and> occurs_at s p i \<and> (\<forall>j. pos \<le> j \<and> j < i \<longrightarrow> \<not> occurs_at s p j)"
      by (metis le_add1 le_add_diff_inverse nat_add_left_cancel_less)
  next
    assume "pos \<le> i \<and> occurs_at s p i \<and> (\<forall>j. pos \<le> j \<and> j < i \<longrightarrow> \<not> occurs_at s p j)"
    with True have "find_sub p (drop pos s) = Some (i - pos)"
      by (simp add: find_sub_Some occurs_at_drop)
    with True \<open>pos \<le> i \<and> _\<close> show "sv_find s p pos = Some i" by (simp add: sv_find_def)
  qed
next
  case False
  then show ?thesis by (auto simp: sv_find_def occurs_at_def)
qed

lemma sv_find_None: "sv_find s p pos = None \<longleftrightarrow> (\<forall>j \<ge> pos. \<not> occurs_at s p j)"
proof (cases "pos \<le> length s")
  case True
  then show ?thesis
    by (auto simp: sv_find_def find_sub_None occurs_at_drop) (metis le_add_diff_inverse)
next
  case False
  then show ?thesis by (auto simp: sv_find_def occurs_at_def)
qed

lemma sv_find_bounds: "sv_find s p pos = Some i \<Longrightarrow> pos \<le> i \<and> i + length p \<le> length s"
  using occurs_at_length by (auto simp: sv_find_Some)

lemma occurs_at_char: "occurs_at s [c] i \<longleftrightarrow> i < length s \<and> s ! i = c"
  by (cases "i < length s") (auto simp: occurs_at_def take_Suc_conv_app_nth hd_drop_conv_nth
      simp flip: Cons_nth_drop_Suc)

text \<open>Splitting a known text at its first occurrence of a pattern.\<close>

lemma sv_find_append:
  assumes "pos = length xs" "\<forall>j < length ys. \<not> occurs_at (ys @ p @ zs) p j"
  shows "sv_find (xs @ ys @ p @ zs) p pos = Some (length xs + length ys)"
proof -
  have "occurs_at (xs @ w) p (length xs + j) \<longleftrightarrow> occurs_at w p j" for w j
    by (simp add: occurs_at_def)
  moreover have "occurs_at (ys @ p @ zs) p (length ys)" by (simp add: occurs_at_def)
  ultimately show ?thesis
    unfolding sv_find_Some assms(1) using assms(2)
    by (metis le_add1 le_add_diff_inverse nat_add_left_cancel_less)
qed

lemma no_char_no_occurrence:
  assumes "c \<in> set p" "c \<notin> set ys" "i + length p \<le> length ys"
  shows "\<not> occurs_at (ys @ zs) p i"
proof
  assume "occurs_at (ys @ zs) p i"
  with assms(3) have "p = take (length p) (drop i ys)" by (simp add: occurs_at_def)
  then have "set p \<subseteq> set ys" by (metis set_drop_subset set_take_subset subset_trans)
  with assms(1,2) show False by blast
qed

text \<open>
  A text without the first character of the pattern contains no occurrence that starts in it.
\<close>

lemma no_head_no_occurrence:
  assumes "p \<noteq> []" "hd p \<notin> set ys" "j < length ys"
  shows "\<not> occurs_at (ys @ zs) p j"
proof
  assume "occurs_at (ys @ zs) p j"
  then have "take (length p) (drop j (ys @ zs)) = p" by (simp add: occurs_at_def)
  then have "hd (drop j (ys @ zs)) = hd p"
    using assms(1) by (metis hd_take length_greater_0_conv)
  moreover have "hd (drop j (ys @ zs)) = ys ! j"
    using assms(3) by (simp add: hd_drop_conv_nth nth_append)
  ultimately show False using assms(2,3) by (metis nth_mem)
qed

text \<open>An occurrence that ends inside the first part is an occurrence of the first part.\<close>

lemma occurs_at_append_left:
  "i + length p \<le> length s \<Longrightarrow> occurs_at (s @ t) p i \<longleftrightarrow> occurs_at s p i"
  by (auto simp: occurs_at_def)

lemma occurs_at_append_right [simp]: "occurs_at (s @ t) p (length s + i) \<longleftrightarrow> occurs_at t p i"
  by (simp add: occurs_at_def)

lemma occurs_at_nth: "occurs_at s p i \<Longrightarrow> k < length p \<Longrightarrow> s ! (i + k) = p ! k"
  by (metis nth_drop nth_take occurs_at_def)

lemma c_str_id: "CHR 0x00 \<notin> set s \<Longrightarrow> c_str s = s"
  by (auto simp: c_str_def takeWhile_eq_all_conv)

lemma dec_nat_chars: "c \<in> set (dec_nat n) \<Longrightarrow> 48 \<le> (of_char c :: nat) \<and> (of_char c :: nat) < 58"
proof (induction n rule: dec_nat.induct)
  case (1 n)
  then show ?case by (cases "n < 10") (auto simp: dec_nat.simps [of n] of_char_of take_bit_nat_eq_self)
qed

lemma dec_nat_nonempty [simp]: "dec_nat n \<noteq> []"
  by (simp add: dec_nat.simps [of n])

lemma dec_int_no_nul: "CHR 0x00 \<notin> set (dec_int i)"
  using dec_nat_chars [of "CHR 0x00"] by (auto simp: dec_int_def)

lemma find_not_Some:
  "find_not c s = Some i \<longleftrightarrow> i < length s \<and> s ! i \<noteq> c \<and> (\<forall>j < i. s ! j = c)"
proof (induction s arbitrary: i)
  case (Cons x s)
  show ?case by (cases i) (auto simp: Cons.IH less_Suc_eq_0_disj)
qed simp

lemma find_not_dropWhile:
  "find_not c s = (if dropWhile (\<lambda>x. x = c) s = [] then None
     else Some (length (takeWhile (\<lambda>x. x = c) s)))"
  by (induction s) auto

lemma find_sub_takeWhile:
  "find_sub [c] s = (if dropWhile (\<lambda>x. x \<noteq> c) s = [] then None
     else Some (length (takeWhile (\<lambda>x. x \<noteq> c) s)))"
  by (induction s) auto

end
