(* ===== verification/Router.thy ===== *)
theory Router
  imports Cpp_String "HOL-Library.AList"
begin

text \<open>
  The request router of \<open>src/router.h\<close> and \<open>src/router.cc\<close>: a trie over the segments of a
  path, whose nodes hold literal children, at most one parameter child, and one handler per
  method. This theory holds the trie and every operation on it, the abstract view of a router
  as a table from route patterns to handlers, and the lemmas that relate the two. The type
  of handlers is a parameter.
\<close>

section \<open>Data\<close>

datatype METHOD = GET | POST | METHOD_MAX

fun method_index :: "METHOD \<Rightarrow> nat" where
  "method_index GET = 0"
| "method_index POST = 1"
| "method_index METHOD_MAX = 2"

text \<open>
  A node: \<open>static_children\<close>, \<open>param_child\<close>, \<open>param_child_name\<close> and \<open>handlers\<close>. The unordered
  map of children is an association list (only \<open>traverse_print\<close> depends on its order); an
  empty \<open>std::function\<close> is \<open>None\<close>.
\<close>

datatype 'h router_node =
  RouterNode "(string \<times> 'h router_node) list" "'h router_node option" string "'h option list"

definition empty_node :: "'h router_node" where
  "empty_node = RouterNode [] None '''' (replicate (method_index METHOD_MAX) None)"

section \<open>Operations\<close>

text \<open>The loop of \<open>split_path_segments\<close> from position \<open>start\<close>.\<close>

function split_loop :: "string \<Rightarrow> nat \<Rightarrow> string list" where
  "split_loop uri start =
     (case sv_find_first_not_of uri (CHR ''/'') start of
        None \<Rightarrow> []
      | Some s \<Rightarrow>
          (case sv_find_char uri (CHR ''/'') s of
             None \<Rightarrow> [drop s uri]
           | Some e \<Rightarrow> substr uri s (e - s) # split_loop uri e))"
  by pat_completeness auto
termination
proof (relation "measure (\<lambda>(uri, start). length uri - start)", goal_cases)
  case 1
  show ?case by simp
next
  case (2 uri start s e)
  then obtain k where k: "s = start + k" "find_not (CHR ''/'') (drop start uri) = Some k"
    by (auto simp: sv_find_first_not_of_def split: if_splits)
  then have "k < length uri - start" "uri ! s \<noteq> CHR ''/''" by (auto simp: find_not_Some)
  moreover from 2(2) have "s \<le> e" "e < length uri" "uri ! e = CHR ''/''"
    by (auto simp: sv_find_char_def sv_find_Some occurs_at_char)
  moreover from calculation have "s \<noteq> e" by auto
  ultimately show ?case using k(1) by simp
qed

declare split_loop.simps [simp del]

definition split_path_segments :: "string \<Rightarrow> string list" where
  "split_path_segments uri = split_loop uri 0"

text \<open>The test for a parameter segment, \<open>size() >= 2 && front() == '{' && back() == '}'\<close>.\<close>

definition is_param_seg :: "string \<Rightarrow> bool" where
  "is_param_seg seg \<longleftrightarrow> 2 \<le> length seg \<and> hd seg = CHR ''{'' \<and> last seg = CHR ''}''"

text \<open>
  \<open>insert_recursive\<close> changes the trie in place, also when it fails further down, so the model
  returns the flag and the new node. In the literal case the key is known to be absent, so
  \<open>insert\<close> succeeds and its other branch is never taken.
\<close>

fun insert_recursive ::
    "METHOD \<Rightarrow> string list \<Rightarrow> 'h router_node \<Rightarrow> 'h \<Rightarrow> (bool \<times> 'h router_node) outcome" where
  "insert_recursive m [] (RouterNode sc pc pn hs) h =
     obind (vec_set hs (method_index m) (Some h)) (\<lambda>hs'. Inr (True, RouterNode sc pc pn hs'))"
| "insert_recursive m (seg # segs) (RouterNode sc pc pn hs) h =
     (case map_of sc seg of
        Some child \<Rightarrow>
          obind (insert_recursive m segs child h)
            (\<lambda>(ok, child'). Inr (ok, RouterNode (AList.update seg child' sc) pc pn hs))
      | None \<Rightarrow>
          (if is_param_seg seg
           then (if length seg < 3 then Inr (False, RouterNode sc pc pn hs)
                 else if pc \<noteq> None then Inr (False, RouterNode sc pc pn hs)
                 else obind (insert_recursive m segs empty_node h)
                        (\<lambda>(ok, child).
                           Inr (ok, RouterNode sc (Some child) (substr seg 1 (length seg - 2)) hs)))
           else obind (insert_recursive m segs empty_node h)
                  (\<lambda>(ok, child). Inr (ok, RouterNode (sc @ [(seg, child)]) pc pn hs))))"

definition router_add ::
    "METHOD \<Rightarrow> string \<Rightarrow> 'h \<Rightarrow> 'h router_node \<Rightarrow> (bool \<times> 'h router_node) outcome" where
  "router_add m uri h root = insert_recursive m (split_path_segments uri) root h"

text \<open>
  \<open>find_handler_recursive\<close> threads \<open>out_param\<close> by reference: a parameter match sets it and a
  failed one puts the previous value back.
\<close>

fun find_handler_recursive ::
    "METHOD \<Rightarrow> string list \<Rightarrow> 'h router_node \<Rightarrow> string \<Rightarrow> ('h option \<times> string) outcome" where
  "find_handler_recursive m [] (RouterNode sc pc pn hs) out_param =
     obind (vec_at hs (method_index m)) (\<lambda>h. Inr (h, out_param))"
| "find_handler_recursive m (seg # segs) (RouterNode sc pc pn hs) out_param =
     obind (case map_of sc seg of
              Some child \<Rightarrow> find_handler_recursive m segs child out_param
            | None \<Rightarrow> Inr (None, out_param))
       (\<lambda>(h, out1).
          if h \<noteq> None then Inr (h, out1)
          else (case pc of
                  Some child \<Rightarrow>
                    obind (find_handler_recursive m segs child seg)
                      (\<lambda>(h, out2). if h \<noteq> None then Inr (h, out2) else Inr (None, out1))
                | None \<Rightarrow> Inr (None, out1)))"

definition router_resolve ::
    "METHOD \<Rightarrow> string \<Rightarrow> 'h router_node \<Rightarrow> ('h option \<times> string) outcome" where
  "router_resolve m uri root = find_handler_recursive m (split_path_segments uri) root ''''"

text \<open>\<open>traverse_print\<close>: the lines it writes, children first.\<close>

definition print_line :: "string list \<Rightarrow> nat \<Rightarrow> string" where
  "print_line segs index =
     (if index = method_index GET then ''GET '' else ''POST'') @ concat (map (\<lambda>seg. ''/'' @ seg) segs)"

fun traverse_print :: "string list \<Rightarrow> 'h router_node \<Rightarrow> string list" where
  "traverse_print segs (RouterNode sc pc pn hs) =
     concat (map (\<lambda>(seg, child). traverse_print (segs @ [seg]) child) sc)
     @ (case pc of None \<Rightarrow> [] | Some child \<Rightarrow> traverse_print (segs @ [''{'' @ pn @ ''}'']) child)
     @ map (print_line segs) (filter (\<lambda>index. hs ! index \<noteq> None) [0..<length hs])"

section \<open>Splitting a path\<close>

text \<open>The reference: cut at every slash, then drop the empty pieces.\<close>

fun pieces :: "string \<Rightarrow> string list" where
  "pieces [] = [[]]"
| "pieces (c # cs) =
     (if c = CHR ''/'' then [] # pieces cs
      else (case pieces cs of [] \<Rightarrow> [[c]] | w # ws \<Rightarrow> (c # w) # ws))"

lemma pieces_nonempty [simp]: "pieces s \<noteq> []"
  by (cases s) (auto split: list.splits)

lemma pieces_word:
  "CHR ''/'' \<notin> set w \<Longrightarrow> pieces (w @ CHR ''/'' # s) = w # pieces s"
  "CHR ''/'' \<notin> set w \<Longrightarrow> pieces w = [w]"
  by (induction w) auto

lemma pieces_no_slash: "w \<in> set (pieces s) \<Longrightarrow> CHR ''/'' \<notin> set w"
proof (induction s arbitrary: w)
  case (Cons c s)
  then show ?case by (cases "pieces s") (auto split: if_splits)
qed simp

text \<open>One round of the loop, on the text that is left.\<close>

lemma find_slash_suffix:
  assumes "uri = pre @ r"
  shows "sv_find_char uri (CHR ''/'') (length pre) =
    (if dropWhile (\<lambda>x. x \<noteq> CHR ''/'') r = [] then None
     else Some (length pre + length (takeWhile (\<lambda>x. x \<noteq> CHR ''/'') r)))"
  using assms by (auto simp: sv_find_char_def sv_find_def find_sub_takeWhile)

lemma find_non_slash_suffix:
  assumes "uri = pre @ d"
  shows "sv_find_first_not_of uri (CHR ''/'') (length pre) =
    (if dropWhile (\<lambda>x. x = CHR ''/'') d = [] then None
     else Some (length pre + length (takeWhile (\<lambda>x. x = CHR ''/'') d)))"
  using assms by (simp add: sv_find_first_not_of_def find_not_dropWhile)

lemma split_loop_round:
  fixes pre sl w t :: string
  assumes uri: "uri = pre @ sl @ w @ t"
    and sl: "set sl \<subseteq> {CHR ''/''}" and w: "w \<noteq> []" "CHR ''/'' \<notin> set w"
    and t: "t = [] \<or> hd t = CHR ''/''"
  shows "split_loop uri (length pre) =
    (if t = [] then [w] else w # split_loop uri (length (pre @ sl @ w)))"
proof -
  have sl': "\<And>x. x \<in> set sl \<Longrightarrow> x = CHR ''/''" using sl by auto
  from w have hdw: "hd w \<noteq> CHR ''/''" by (metis hd_in_set)
  then have "dropWhile (\<lambda>x. x = CHR ''/'') (sl @ w @ t) = w @ t"
    "takeWhile (\<lambda>x. x = CHR ''/'') (sl @ w @ t) = sl"
    using sl' w(1) by (cases w; simp)+
  with find_non_slash_suffix [OF uri] w(1)
  have 1: "sv_find_first_not_of uri (CHR ''/'') (length pre) = Some (length (pre @ sl))" by simp
  have "dropWhile (\<lambda>x. x \<noteq> CHR ''/'') (w @ t) = t" "takeWhile (\<lambda>x. x \<noteq> CHR ''/'') (w @ t) = w"
    using w t by (cases t; auto simp: dropWhile_append takeWhile_append)+
  with find_slash_suffix [of uri "pre @ sl" "w @ t"] uri
  have 2: "sv_find_char uri (CHR ''/'') (length (pre @ sl)) =
      (if t = [] then None else Some (length (pre @ sl @ w)))" by simp
  have "drop (length (pre @ sl)) uri = w @ t" "substr uri (length (pre @ sl)) (length w) = w"
    by (simp_all add: uri substr_def)
  with 1 2 show ?thesis by (subst split_loop.simps) simp
qed

lemma slash_word_cases:
  fixes d :: string
  obtains (slashes) "set d \<subseteq> {CHR ''/''}"
  | (word) sl w t where "d = sl @ w @ t" "set sl \<subseteq> {CHR ''/''}" "w \<noteq> []" "CHR ''/'' \<notin> set w"
      "t = [] \<or> hd t = CHR ''/''"
proof (cases "dropWhile (\<lambda>x. x = CHR ''/'') d = []")
  case True
  then show ?thesis by (intro slashes) (auto simp: dropWhile_eq_Nil_conv)
next
  case False
  let ?r = "dropWhile (\<lambda>x. x = CHR ''/'') d"
  show ?thesis
  proof (rule word)
    show "d = takeWhile (\<lambda>x. x = CHR ''/'') d @ takeWhile (\<lambda>x. x \<noteq> CHR ''/'') ?r
        @ dropWhile (\<lambda>x. x \<noteq> CHR ''/'') ?r" by simp
    show "set (takeWhile (\<lambda>x. x = CHR ''/'') d) \<subseteq> {CHR ''/''}" by (auto dest: set_takeWhileD)
    show "takeWhile (\<lambda>x. x \<noteq> CHR ''/'') ?r \<noteq> []"
      using False hd_dropWhile [OF False] by (cases ?r) auto
    show "CHR ''/'' \<notin> set (takeWhile (\<lambda>x. x \<noteq> CHR ''/'') ?r)" by (auto dest: set_takeWhileD)
    show "dropWhile (\<lambda>x. x \<noteq> CHR ''/'') ?r = [] \<or> hd (dropWhile (\<lambda>x. x \<noteq> CHR ''/'') ?r) = CHR ''/''"
      using hd_dropWhile by blast
  qed
qed

lemma pieces_only_slashes:
  assumes "set sl \<subseteq> {CHR ''/''}"
  shows "filter (\<lambda>s. s \<noteq> []) (pieces (sl @ s)) = filter (\<lambda>s. s \<noteq> []) (pieces s)"
  using assms by (induction sl) auto

lemma split_loop_pieces:
  "uri = pre @ d \<Longrightarrow> split_loop uri (length pre) = filter (\<lambda>s. s \<noteq> []) (pieces d)"
proof (induction "length d" arbitrary: pre d rule: less_induct)
  case less
  show ?case
  proof (cases d rule: slash_word_cases)
    case slashes
    then have "dropWhile (\<lambda>x. x = CHR ''/'') d = []" by auto
    with find_non_slash_suffix [OF less.prems] have "split_loop uri (length pre) = []"
      by (subst split_loop.simps) simp
    with pieces_only_slashes [OF slashes, of "[]"] show ?thesis by simp
  next
    case (word sl w t)
    note round = split_loop_round [of uri pre sl w t, OF _ word(2-5)]
    show ?thesis
    proof (cases t)
      case Nil
      with round less.prems word pieces_only_slashes [OF word(2), of w] pieces_word(2) [of w]
      show ?thesis by simp
    next
      case (Cons c u)
      with word(5) have c: "c = CHR ''/''" by simp
      have "split_loop uri (length (pre @ sl @ w)) = filter (\<lambda>s. s \<noteq> []) (pieces t)"
        using word less.prems by (intro less.hyps) auto
      with round less.prems word Cons c pieces_only_slashes [OF word(2), of "w @ t"]
        pieces_word(1) [of w u] show ?thesis by simp
    qed
  qed
qed

lemma split_path_segments_pieces:
  "split_path_segments uri = filter (\<lambda>s. s \<noteq> []) (pieces uri)"
  using split_loop_pieces [of uri "[]" uri] by (simp add: split_path_segments_def)

lemma split_segments_ok:
  "seg \<in> set (split_path_segments uri) \<Longrightarrow> seg \<noteq> [] \<and> CHR ''/'' \<notin> set seg"
  by (auto simp: split_path_segments_pieces dest: pieces_no_slash)

section \<open>The router as a table of routes\<close>

text \<open>A route pattern, the node it leads to, and the handler registered for it.\<close>

datatype pat = Lit string | Par

definition pat_of :: "string \<Rightarrow> pat" where
  "pat_of seg = (if is_param_seg seg then Par else Lit seg)"

fun node_at :: "pat list \<Rightarrow> 'h router_node \<Rightarrow> 'h router_node option" where
  "node_at [] n = Some n"
| "node_at (Lit s # ps) (RouterNode sc pc pn hs) =
     (case map_of sc s of None \<Rightarrow> None | Some c \<Rightarrow> node_at ps c)"
| "node_at (Par # ps) (RouterNode sc pc pn hs) =
     (case pc of None \<Rightarrow> None | Some c \<Rightarrow> node_at ps c)"

fun node_handlers :: "'h router_node \<Rightarrow> 'h option list" where
  "node_handlers (RouterNode sc pc pn hs) = hs"

definition route_of :: "'h router_node \<Rightarrow> METHOD \<Rightarrow> pat list \<Rightarrow> 'h option" where
  "route_of n m ps =
     (case node_at ps n of None \<Rightarrow> None | Some n' \<Rightarrow> node_handlers n' ! method_index m)"

lemma route_of_simps [simp]:
  "route_of (RouterNode sc pc pn hs) m [] = hs ! method_index m"
  "route_of (RouterNode sc pc pn hs) m (Lit s # ps) =
     (case map_of sc s of None \<Rightarrow> None | Some c \<Rightarrow> route_of c m ps)"
  "route_of (RouterNode sc pc pn hs) m (Par # ps) =
     (case pc of None \<Rightarrow> None | Some c \<Rightarrow> route_of c m ps)"
  by (simp_all add: route_of_def split: option.splits)

text \<open>
  The patterns a request path can match, most specific first: at every segment the literal
  before the parameter, earlier segments weighing more. The captured parameter is the last
  segment that a parameter of the pattern stands for.
\<close>

fun candidates :: "string list \<Rightarrow> pat list list" where
  "candidates [] = [[]]"
| "candidates (s # ss) = map ((#) (Lit s)) (candidates ss) @ map ((#) Par) (candidates ss)"

fun captured :: "string list \<Rightarrow> pat list \<Rightarrow> string \<Rightarrow> string" where
  "captured (s # ss) (Par # ps) out = captured ss ps s"
| "captured (s # ss) (Lit _ # ps) out = captured ss ps out"
| "captured _ _ out = out"

definition best_route :: "'h router_node \<Rightarrow> METHOD \<Rightarrow> string list \<Rightarrow> string \<Rightarrow> 'h option \<times> string" where
  "best_route n m segs out =
     (case List.find (\<lambda>ps. route_of n m ps \<noteq> None) (candidates segs) of
        None \<Rightarrow> (None, out)
      | Some ps \<Rightarrow> (route_of n m ps, captured segs ps out))"

text \<open>
  Well-formed tries: two handler slots in every node, no two children with the same key, and
  no literal child whose key looks like a parameter.
\<close>

fun router_wf :: "'h router_node \<Rightarrow> bool" where
  "router_wf (RouterNode sc pc pn hs) \<longleftrightarrow>
     length hs = method_index METHOD_MAX \<and> distinct (map fst sc)
     \<and> (\<forall>(k, c) \<in> set sc. \<not> is_param_seg k \<and> router_wf c)
     \<and> (case pc of None \<Rightarrow> True | Some c \<Rightarrow> router_wf c)"

lemma method_index_less [simp]: "method_index m < 2 \<longleftrightarrow> m \<noteq> METHOD_MAX"
  by (cases m) auto

lemma method_index_inj [simp]: "method_index m = method_index m' \<longleftrightarrow> m = m'"
  by (cases m; cases m') auto

lemma router_wf_empty [simp]: "router_wf empty_node"
  by (simp add: empty_node_def)

lemma route_of_empty [simp]: "m \<noteq> METHOD_MAX \<Longrightarrow> route_of empty_node m ps = None"
  by (cases ps rule: list.exhaust; cases m; cases "hd ps")
    (auto simp: empty_node_def numeral_2_eq_2)

lemma router_wf_static: "router_wf (RouterNode sc pc pn hs) \<Longrightarrow> map_of sc s = Some c \<Longrightarrow> router_wf c"
  by (auto dest: map_of_SomeD)

lemma router_wf_key: "router_wf (RouterNode sc pc pn hs) \<Longrightarrow> map_of sc s = Some c \<Longrightarrow> \<not> is_param_seg s"
  by (auto dest: map_of_SomeD)

section \<open>Resolving\<close>

lemma find_append:
  "List.find P (xs @ ys) = (case List.find P xs of None \<Rightarrow> List.find P ys | Some x \<Rightarrow> Some x)"
  by (induction xs) auto

lemma find_map: "List.find P (map f xs) = map_option f (List.find (\<lambda>x. P (f x)) xs)"
  by (induction xs) auto

lemma find_const_False: "(\<And>x. \<not> P x) \<Longrightarrow> List.find P xs = None"
  by (induction xs) auto

lemma find_property: "List.find P xs = Some x \<Longrightarrow> P x"
  by (induction xs) (auto split: if_splits)

lemma best_route_None: "best_route n m segs out = (None, param) \<Longrightarrow> param = out"
  by (auto simp: best_route_def dest: find_property split: option.splits)

lemma best_route_Cons:
  "best_route (RouterNode sc pc pn hs) m (s # ss) out =
     (let lit = (case map_of sc s of None \<Rightarrow> (None, out) | Some c \<Rightarrow> best_route c m ss out) in
      if fst lit \<noteq> None then lit
      else let par = (case pc of None \<Rightarrow> (None, s) | Some c \<Rightarrow> best_route c m ss s) in
        if fst par \<noteq> None then par else (None, out))"
  by (cases "map_of sc s"; cases pc)
    (auto simp: best_route_def find_append find_map find_const_False Let_def dest: find_property split: option.splits)

lemma find_handler_best:
  assumes "router_wf n" "m \<noteq> METHOD_MAX"
  shows "find_handler_recursive m segs n out = Inr (best_route n m segs out)"
  using assms(1)
proof (induction segs arbitrary: n out)
  case Nil
  then obtain sc pc pn hs where "n = RouterNode sc pc pn hs" by (cases n)
  with Nil assms(2) show ?case by (auto simp: best_route_def)
next
  case (Cons s ss)
  obtain sc pc pn hs where n: "n = RouterNode sc pc pn hs" by (cases n)
  have lit: "find_handler_recursive m ss c out = Inr (best_route c m ss out)" if "map_of sc s = Some c" for c
    using Cons.IH [of c out] router_wf_static [OF _ that] Cons.prems n by blast
  have par: "find_handler_recursive m ss c s = Inr (best_route c m ss s)" if "pc = Some c" for c
    using Cons.IH [of c s] Cons.prems n that by simp
  show ?case
    by (auto simp: n best_route_Cons lit par Let_def split: option.split prod.split dest: best_route_None)
qed

section \<open>Registering\<close>

text \<open>
  When a registration succeeds: no parameter segment is \<open>{}\<close>, and none of them meets a
  parameter node that is already there.
\<close>

fun insertable :: "string list \<Rightarrow> 'h router_node \<Rightarrow> bool" where
  "insertable [] n \<longleftrightarrow> True"
| "insertable (seg # segs) (RouterNode sc pc pn hs) \<longleftrightarrow>
     (if is_param_seg seg then 3 \<le> length seg \<and> pc = None \<and> insertable segs empty_node
      else insertable segs (case map_of sc seg of None \<Rightarrow> empty_node | Some c \<Rightarrow> c))"

lemma node_at_empty: "ps \<noteq> [] \<Longrightarrow> node_at ps empty_node = None"
  by (cases ps rule: list.exhaust; cases "hd ps") (auto simp: empty_node_def)

lemma all_less_Suc2: "(\<forall>i < Suc k. P i) \<longleftrightarrow> P 0 \<and> (\<forall>i < k. P (Suc i))"
  by (auto simp: less_Suc_eq_0_disj)

lemma insertable_iff:
  fixes n :: "'h router_node"
  assumes "router_wf n"
  shows "insertable segs n \<longleftrightarrow>
    (\<forall>i < length segs. is_param_seg (segs ! i) \<longrightarrow>
       3 \<le> length (segs ! i) \<and> node_at (map pat_of (take (Suc i) segs)) n = None)"
  using assms
proof (induction segs arbitrary: n)
  case Nil
  then show ?case by simp
next
  case (Cons seg segs)
  obtain sc pc pn hs where n: "n = RouterNode sc pc pn hs" by (cases n)
  have empty: "insertable segs (empty_node :: 'h router_node) \<longleftrightarrow>
      (\<forall>i < length segs. is_param_seg (segs ! i) \<longrightarrow> 3 \<le> length (segs ! i))"
  proof -
    have "node_at (map pat_of (take (Suc i) segs)) (empty_node :: 'h router_node) = None"
      if "i < length segs" for i
      using that by (intro node_at_empty) auto
    with Cons.IH [OF router_wf_empty] show ?thesis by simp
  qed
  show ?case
  proof (cases "is_param_seg seg")
    case True
    then show ?thesis
      by (cases pc) (auto simp: n empty pat_of_def all_less_Suc2)
  next
    case False
    show ?thesis
    proof (cases "map_of sc seg")
      case None
      with False empty show ?thesis by (simp add: n pat_of_def all_less_Suc2)
    next
      case (Some c)
      with Cons.prems n have "router_wf c" by (blast intro: router_wf_static)
      from Cons.IH [OF this] False Some show ?thesis by (simp add: n pat_of_def all_less_Suc2)
    qed
  qed
qed

text \<open>What a registration does to the table.\<close>

definition insert_spec ::
    "METHOD \<Rightarrow> string list \<Rightarrow> 'h router_node \<Rightarrow> 'h \<Rightarrow> bool \<Rightarrow> 'h router_node \<Rightarrow> bool" where
  "insert_spec m segs n h ok n' \<longleftrightarrow>
     router_wf n' \<and> (ok \<longleftrightarrow> insertable segs n)
     \<and> (\<forall>m' ps. m' \<noteq> METHOD_MAX \<longrightarrow>
          route_of n' m' ps =
            (if ok \<and> m' = m \<and> ps = map pat_of segs then Some h else route_of n m' ps))"

lemma insert_spec_route:
  "insert_spec m segs n h ok n' \<Longrightarrow> m' \<noteq> METHOD_MAX \<Longrightarrow>
   route_of n' m' ps = (if ok \<and> m' = m \<and> ps = map pat_of segs then Some h else route_of n m' ps)"
  by (simp add: insert_spec_def)

lemma set_alist_update: "x \<in> set (AList.update k v al) \<Longrightarrow> x = (k, v) \<or> x \<in> set al"
  by (induction al) (auto split: if_splits)

lemma insert_spec_existing:
  assumes wf: "router_wf (RouterNode sc pc pn hs)" and c: "map_of sc seg = Some c"
    and spec: "insert_spec m segs c h ok c'"
  shows "insert_spec m (seg # segs) (RouterNode sc pc pn hs) h ok
    (RouterNode (AList.update seg c' sc) pc pn hs)"
proof -
  have np: "\<not> is_param_seg seg" using router_wf_key [OF wf c] .
  have wf': "router_wf (RouterNode (AList.update seg c' sc) pc pn hs)"
    using wf spec np by (auto simp: insert_spec_def distinct_update dest!: set_alist_update)
  show ?thesis
    unfolding insert_spec_def
  proof (intro conjI allI impI)
    show "router_wf (RouterNode (AList.update seg c' sc) pc pn hs)" by (rule wf')
    show "ok \<longleftrightarrow> insertable (seg # segs) (RouterNode sc pc pn hs)"
      using spec np c by (simp add: insert_spec_def)
    fix m' ps
    assume "m' \<noteq> METHOD_MAX"
    with insert_spec_route [OF spec this] np c show "route_of (RouterNode (AList.update seg c' sc) pc pn hs) m' ps =
        (if ok \<and> m' = m \<and> ps = map pat_of (seg # segs) then Some h
         else route_of (RouterNode sc pc pn hs) m' ps)"
      by (cases "(ps, RouterNode sc pc pn hs)" rule: node_at.cases)
        (auto simp: update_conv pat_of_def split: option.splits)
  qed
qed

lemma insert_spec_param:
  assumes wf: "router_wf (RouterNode sc None pn hs)" and p: "is_param_seg seg" "3 \<le> length seg"
    and spec: "insert_spec m segs empty_node h ok c'"
  shows "insert_spec m (seg # segs) (RouterNode sc None pn hs) h ok (RouterNode sc (Some c') pn' hs)"
  unfolding insert_spec_def
proof (intro conjI allI impI)
  show "router_wf (RouterNode sc (Some c') pn' hs)" using wf spec by (simp add: insert_spec_def)
  show "ok \<longleftrightarrow> insertable (seg # segs) (RouterNode sc None pn hs)"
    using spec p by (simp add: insert_spec_def)
  fix m' ps
  assume "m' \<noteq> METHOD_MAX"
  with insert_spec_route [OF spec this] p show "route_of (RouterNode sc (Some c') pn' hs) m' ps =
      (if ok \<and> m' = m \<and> ps = map pat_of (seg # segs) then Some h
       else route_of (RouterNode sc None pn hs) m' ps)"
    by (cases "(ps, RouterNode sc None pn hs)" rule: node_at.cases) (auto simp: pat_of_def)
qed

lemma insert_spec_literal:
  assumes wf: "router_wf (RouterNode sc pc pn hs)" and none: "map_of sc seg = None"
    and np: "\<not> is_param_seg seg" and spec: "insert_spec m segs empty_node h ok c'"
  shows "insert_spec m (seg # segs) (RouterNode sc pc pn hs) h ok (RouterNode (sc @ [(seg, c')]) pc pn hs)"
  unfolding insert_spec_def
proof (intro conjI allI impI)
  show "router_wf (RouterNode (sc @ [(seg, c')]) pc pn hs)"
    using wf spec np none by (auto simp: insert_spec_def map_of_eq_None_iff)
  show "ok \<longleftrightarrow> insertable (seg # segs) (RouterNode sc pc pn hs)"
    using spec np none by (simp add: insert_spec_def)
  fix m' ps
  assume "m' \<noteq> METHOD_MAX"
  with insert_spec_route [OF spec this] np none show "route_of (RouterNode (sc @ [(seg, c')]) pc pn hs) m' ps =
      (if ok \<and> m' = m \<and> ps = map pat_of (seg # segs) then Some h
       else route_of (RouterNode sc pc pn hs) m' ps)"
    by (cases "(ps, RouterNode sc pc pn hs)" rule: node_at.cases)
      (auto simp: pat_of_def map_add_def split: option.splits)
qed

lemma insert_spec_here:
  assumes "router_wf (RouterNode sc pc pn hs)" "m \<noteq> METHOD_MAX"
  shows "insert_spec m [] (RouterNode sc pc pn hs) h True (RouterNode sc pc pn (hs[method_index m := Some h]))"
  unfolding insert_spec_def
proof (intro conjI allI impI)
  show "router_wf (RouterNode sc pc pn (hs[method_index m := Some h]))" using assms(1) by simp
  show "True \<longleftrightarrow> insertable [] (RouterNode sc pc pn hs)" by simp
  fix m' ps
  assume "m' \<noteq> METHOD_MAX"
  with assms show "route_of (RouterNode sc pc pn (hs[method_index m := Some h])) m' ps =
      (if True \<and> m' = m \<and> ps = map pat_of [] then Some h else route_of (RouterNode sc pc pn hs) m' ps)"
    by (cases "(ps, RouterNode sc pc pn hs)" rule: node_at.cases) (auto simp: nth_list_update)
qed

lemma insert_spec_refused:
  assumes "router_wf (RouterNode sc pc pn hs)" "is_param_seg seg" "\<not> (3 \<le> length seg \<and> pc = None)"
  shows "insert_spec m (seg # segs) (RouterNode sc pc pn hs) h False (RouterNode sc pc pn hs)"
  using assms by (auto simp: insert_spec_def)

lemma insert_recursive_spec:
  assumes "router_wf n" "m \<noteq> METHOD_MAX"
  shows "\<exists>ok n'. insert_recursive m segs n h = Inr (ok, n') \<and> insert_spec m segs n h ok n'"
  using assms(1)
proof (induction segs arbitrary: n)
  case Nil
  obtain sc pc pn hs where n: "n = RouterNode sc pc pn hs" by (cases n)
  with Nil assms(2) have "method_index m < length hs" by simp
  then have "insert_recursive m [] n h = Inr (True, RouterNode sc pc pn (hs[method_index m := Some h]))" by (simp add: n)
  with insert_spec_here [OF Nil [unfolded n] assms(2), of h] show ?case unfolding n by (intro exI conjI)
next
  case (Cons seg segs)
  obtain sc pc pn hs where n: "n = RouterNode sc pc pn hs" by (cases n)
  with Cons.prems have wf: "router_wf (RouterNode sc pc pn hs)" by simp
  from Cons.IH [OF router_wf_empty] obtain ok c' where
    new: "insert_recursive m segs empty_node h = Inr (ok, c')" "insert_spec m segs empty_node h ok c'"
    by blast
  consider c where "map_of sc seg = Some c" | "map_of sc seg = None" "\<not> is_param_seg seg"
    | "map_of sc seg = None" "is_param_seg seg" "3 \<le> length seg" "pc = None"
    | "map_of sc seg = None" "is_param_seg seg" "\<not> (3 \<le> length seg \<and> pc = None)"
    by (cases "map_of sc seg"; cases "is_param_seg seg") auto
  then show ?case
  proof cases
    case (1 c)
    with Cons.IH [OF router_wf_static [OF wf]] obtain ok1 c1 where
      "insert_recursive m segs c h = Inr (ok1, c1)" "insert_spec m segs c h ok1 c1" by blast
    with insert_spec_existing [OF wf 1] 1 show ?thesis by (intro exI conjI) (simp_all add: n)
  next
    case 2
    with insert_spec_literal [OF wf 2 new(2)] new(1) show ?thesis by (intro exI conjI) (simp_all add: n)
  next
    case 3
    with insert_spec_param [OF _ 3(2,3) new(2)] wf new(1) show ?thesis by (intro exI conjI) (simp_all add: n)
  next
    case 4
    then have "insert_recursive m (seg # segs) n h = Inr (False, n)" by (auto simp: n)
    with insert_spec_refused [OF wf 4(2,3)] show ?thesis unfolding n by blast
  qed
qed

section \<open>The contract of a route table\<close>

text \<open>
  What the request path relies on: registering changes at most the one route it names, and
  resolving returns the most specific registered route.
\<close>

lemma captured_in: "captured ss ps out \<in> insert out (set ss)"
  by (induction ss ps out rule: captured.induct) auto

lemma captured_literals: "captured ss (map Lit ss) out = out"
  by (induction ss arbitrary: out) auto

lemma literal_candidate: "\<exists>cs. candidates ss = map Lit ss # cs"
  by (induction ss) auto

locale route_table =
  fixes add_route :: "METHOD \<Rightarrow> string \<Rightarrow> 'h \<Rightarrow> 'r \<Rightarrow> (bool \<times> 'r) outcome"
    and resolve_route :: "METHOD \<Rightarrow> string \<Rightarrow> 'r \<Rightarrow> ('h option \<times> string) outcome"
    and routes :: "'r \<Rightarrow> METHOD \<Rightarrow> pat list \<Rightarrow> 'h option"
    and invar :: "'r \<Rightarrow> bool"
  assumes add_spec: "invar r \<Longrightarrow> m \<noteq> METHOD_MAX \<Longrightarrow>
      \<exists>ok r'. add_route m uri h r = Inr (ok, r') \<and> invar r'
        \<and> (\<forall>m' ps. m' \<noteq> METHOD_MAX \<longrightarrow> routes r' m' ps =
             (if ok \<and> m' = m \<and> ps = map pat_of (split_path_segments uri) then Some h
              else routes r m' ps))"
    and resolve_spec: "invar r \<Longrightarrow> m \<noteq> METHOD_MAX \<Longrightarrow>
      resolve_route m uri r = Inr
        (case List.find (\<lambda>ps. routes r m ps \<noteq> None) (candidates (split_path_segments uri)) of
           None \<Rightarrow> (None, [])
         | Some ps \<Rightarrow> (routes r m ps, captured (split_path_segments uri) ps []))"
begin

lemma add_routes:
  assumes "invar r" "m \<noteq> METHOD_MAX" "add_route m uri h r = Inr (ok, r')"
  shows "m' \<noteq> METHOD_MAX \<Longrightarrow> routes r' m' ps =
    (if ok \<and> m' = m \<and> ps = map pat_of (split_path_segments uri) then Some h else routes r m' ps)"
    and "invar r'"
  using add_spec [OF assms(1,2), of uri h] assms(3) by auto

text \<open>A registration that fails, or is for another method, is invisible to \<open>resolve\<close>.\<close>

lemma resolve_unchanged:
  assumes "invar r" "m \<noteq> METHOD_MAX" "add_route m uri h r = Inr (ok, r')" "m' \<noteq> METHOD_MAX"
    and "\<not> ok \<or> m' \<noteq> m"
  shows "resolve_route m' uri' r' = resolve_route m' uri' r"
proof -
  have "routes r' m' = routes r m'"
    using add_routes(1) [OF assms(1-4)] assms(5) by (intro ext) auto
  then show ?thesis
    by (simp only: resolve_spec [OF assms(1,4)] resolve_spec [OF add_routes(2) [OF assms(1-3)] assms(4)])
qed

text \<open>A literal route resolves to its own handler, with no captured parameter.\<close>

lemma literal_route_resolves:
  assumes "invar r" "m \<noteq> METHOD_MAX" "add_route m uri h r = Inr (True, r')"
    and "\<forall>seg \<in> set (split_path_segments uri). \<not> is_param_seg seg"
  shows "resolve_route m uri r' = Inr (Some h, [])"
proof -
  let ?segs = "split_path_segments uri"
  have "map pat_of ?segs = map Lit ?segs" using assms(4) by (simp add: pat_of_def)
  then have "routes r' m (map Lit ?segs) = Some h"
    using add_routes(1) [OF assms(1-3,2)] by simp
  moreover obtain cs where "candidates ?segs = map Lit ?segs # cs" using literal_candidate by blast
  ultimately show ?thesis
    using resolve_spec [OF add_routes(2) [OF assms(1-3)] assms(2)] by (simp add: captured_literals)
qed

text \<open>The captured parameter is one segment of the path: it never contains a slash.\<close>

lemma resolved_param_segment:
  assumes "invar r" "m \<noteq> METHOD_MAX" "resolve_route m uri r = Inr (h, param)"
  shows "param = [] \<or> param \<in> set (split_path_segments uri)"
proof -
  from resolve_spec [OF assms(1,2), of uri] assms(3)
  have "param = [] \<or> (\<exists>ps. param = captured (split_path_segments uri) ps [])"
    by (auto split: option.splits)
  with captured_in [of "split_path_segments uri"] show ?thesis by blast
qed

end

lemma router_resolve_best:
  assumes "router_wf n" "m \<noteq> METHOD_MAX"
  shows "router_resolve m uri n = Inr (best_route n m (split_path_segments uri) [])"
  by (simp add: router_resolve_def find_handler_best [OF assms])

interpretation rt: route_table router_add router_resolve route_of router_wf
proof unfold_locales
  fix r :: "'a router_node" and m :: METHOD and uri :: string and h :: 'a
  assume wf: "router_wf r" and m: "m \<noteq> METHOD_MAX"
  from insert_recursive_spec [OF wf m, of "split_path_segments uri" h]
  show "\<exists>ok r'. router_add m uri h r = Inr (ok, r') \<and> router_wf r'
      \<and> (\<forall>m' ps. m' \<noteq> METHOD_MAX \<longrightarrow> route_of r' m' ps =
           (if ok \<and> m' = m \<and> ps = map pat_of (split_path_segments uri) then Some h
            else route_of r m' ps))"
    by (auto simp: router_add_def insert_spec_def)
  show "router_resolve m uri r = Inr
      (case List.find (\<lambda>ps. route_of r m ps \<noteq> None) (candidates (split_path_segments uri)) of
         None \<Rightarrow> (None, [])
       | Some ps \<Rightarrow> (route_of r m ps, captured (split_path_segments uri) ps []))"
    by (simp add: router_resolve_best [OF wf m] best_route_def)
qed

section \<open>Properties\<close>

definition sample_router :: "nat router_node" where
  "sample_router =
     RouterNode [(''files'', RouterNode [] (Some (RouterNode [] None [] [Some 1, None]))
        ''file_name'' [None, Some 2])] None [] [None, None]"

lemma sample_router_wf: "router_wf sample_router"
  by (simp add: sample_router_def is_param_seg_def)

text \<open>
  C14: on every well-formed trie, for GET and POST, \<open>resolve\<close> returns the handler of the most
  specific registered route that the path matches (literal segments before parameters, earlier
  segments first) together with the last segment that a parameter of that route stands for,
  and no handler and an empty parameter when no route matches.
\<close>

theorem resolve_most_specific:
  assumes "router_wf root" "m \<noteq> METHOD_MAX"
  shows "router_resolve m uri root =
    Inr (case List.find (\<lambda>ps. route_of root m ps \<noteq> None) (candidates (split_path_segments uri)) of
           None \<Rightarrow> (None, [])
         | Some ps \<Rightarrow> (route_of root m ps, captured (split_path_segments uri) ps []))"
  by (rule rt.resolve_spec [OF assms])

theorem resolve_most_specific_witness:
  "router_wf sample_router \<and> router_resolve GET ''/files/a.txt'' sample_router =
    Inr (case List.find (\<lambda>ps. route_of sample_router GET ps \<noteq> None)
                (candidates (split_path_segments ''/files/a.txt'')) of
           None \<Rightarrow> (None, [])
         | Some ps \<Rightarrow> (route_of sample_router GET ps,
                       captured (split_path_segments ''/files/a.txt'') ps []))"
  using resolve_most_specific [OF sample_router_wf, of GET "''/files/a.txt''"] sample_router_wf by simp

text \<open>
  C15: \<open>add\<close> keeps the trie well-formed and changes at most one route: when it returns true, the
  named pattern and method lead to the new handler and every other pattern and method to what
  they led to before; when it returns false, nothing that \<open>resolve\<close> can see has changed, even
  though nodes for a prefix of the path may have been created.
\<close>

theorem add_changes_one_route:
  assumes "router_wf root" "m \<noteq> METHOD_MAX"
  shows "\<exists>ok root'. router_add m uri h root = Inr (ok, root') \<and> router_wf root'
    \<and> (\<forall>m' ps. m' \<noteq> METHOD_MAX \<longrightarrow> route_of root' m' ps =
         (if ok \<and> m' = m \<and> ps = map pat_of (split_path_segments uri) then Some h
          else route_of root m' ps))
    \<and> (\<not> ok \<longrightarrow> (\<forall>m' uri'. m' \<noteq> METHOD_MAX \<longrightarrow>
         router_resolve m' uri' root' = router_resolve m' uri' root))"
proof -
  from rt.add_spec [OF assms, of uri h] obtain ok root' where r: "router_add m uri h root = Inr (ok, root')"
    "router_wf root'" "\<forall>m' ps. m' \<noteq> METHOD_MAX \<longrightarrow> route_of root' m' ps =
         (if ok \<and> m' = m \<and> ps = map pat_of (split_path_segments uri) then Some h
          else route_of root m' ps)" by blast
  moreover have "router_resolve m' uri' root' = router_resolve m' uri' root"
    if "\<not> ok" "m' \<noteq> METHOD_MAX" for m' uri'
    using rt.resolve_unchanged [OF assms r(1) that(2)] that(1) by blast
  ultimately show ?thesis by blast
qed

theorem add_changes_one_route_witness:
  "router_wf sample_router \<and> (\<exists>ok root'. router_add GET ''/a/{}'' 9 sample_router = Inr (ok, root')
    \<and> router_wf root')"
  using add_changes_one_route [OF sample_router_wf, of GET "''/a/{}''" 9] sample_router_wf by blast

text \<open>
  \<open>add\<close> succeeds exactly when every parameter segment of the path has a name and none of
  them meets a parameter node that already exists at its place.
\<close>

theorem add_succeeds_iff:
  fixes uri :: string
  assumes "router_wf root" "m \<noteq> METHOD_MAX"
  defines "segs \<equiv> split_path_segments uri"
  shows "(\<exists>root'. router_add m uri h root = Inr (True, root')) \<longleftrightarrow>
    (\<forall>i < length segs. is_param_seg (segs ! i) \<longrightarrow>
       3 \<le> length (segs ! i) \<and> node_at (map pat_of (take (Suc i) segs)) root = None)"
  using insert_recursive_spec [OF assms(1,2), of segs h] insertable_iff [OF assms(1), of segs]
  by (auto simp: router_add_def segs_def insert_spec_def)

theorem add_succeeds_iff_witness:
  "router_wf sample_router \<and> (\<exists>root'. router_add POST ''/users'' 5 sample_router = Inr (True, root'))"
proof -
  have "split_path_segments ''/users'' = [''users'']" by (simp add: split_path_segments_pieces)
  with add_succeeds_iff [OF sample_router_wf, of POST "''/users''" 5] sample_router_wf show ?thesis
    by (simp add: is_param_seg_def)
qed

lemma pieces_join:
  assumes "\<forall>seg \<in> set segs. CHR ''/'' \<notin> set seg"
  shows "pieces (concat (map (\<lambda>seg. CHR ''/'' # seg) segs)) = [] # segs"
  using assms
proof (induction segs)
  case (Cons seg segs)
  show ?case
  proof (cases segs)
    case Nil
    with Cons.prems show ?thesis by (simp add: pieces_word(2))
  next
    case (Cons t ts)
    with Cons.IH Cons.prems have "pieces (CHR ''/'' # t @ concat (map (\<lambda>seg. CHR ''/'' # seg) ts)) =
        [] # segs" by simp
    then have "pieces (t @ concat (map (\<lambda>seg. CHR ''/'' # seg) ts)) = segs" by simp
    with Cons Cons.prems show ?thesis by (simp add: pieces_word(1))
  qed
qed simp

text \<open>
  \<open>split_path_segments\<close> cuts the path at every slash and keeps exactly the non-empty pieces,
  in order, whatever runs of slashes the path has; so joining slash-free non-empty segments
  with slashes and splitting gives the segments back.
\<close>

theorem split_path_segments_roundtrip:
  "split_path_segments uri = filter (\<lambda>s. s \<noteq> []) (pieces uri)
   \<and> ((\<forall>seg \<in> set segs. seg \<noteq> [] \<and> CHR ''/'' \<notin> set seg) \<longrightarrow>
        split_path_segments (concat (map (\<lambda>seg. CHR ''/'' # seg) segs)) = segs)"
  by (auto simp: split_path_segments_pieces pieces_join filter_id_conv)

theorem split_path_segments_roundtrip_witness:
  "split_path_segments ''//files/a.txt/'' = [''files'', ''a.txt'']
   \<and> split_path_segments ''/files/a.txt'' = [''files'', ''a.txt'']"
  using split_path_segments_roundtrip [of "''//files/a.txt/''" "[''files'', ''a.txt'']"] by simp

text \<open>
  The parameter that \<open>resolve\<close> hands to a handler is empty or one whole segment of the
  request path, so it never contains a slash.
\<close>

theorem resolved_parameter_is_segment:
  assumes "router_wf root" "m \<noteq> METHOD_MAX" "router_resolve m uri root = Inr (h, param)"
  shows "CHR ''/'' \<notin> set param \<and> (param = [] \<or> param \<in> set (split_path_segments uri))"
  using rt.resolved_param_segment [OF assms] split_segments_ok by auto

theorem resolved_parameter_is_segment_witness:
  "router_wf sample_router \<and> router_resolve GET ''/files/..'' sample_router = Inr (Some 1, ''..'')
   \<and> CHR ''/'' \<notin> set ''..''"
proof -
  have "router_resolve GET ''/files/..'' sample_router = Inr (Some 1, ''..'')"
    by (simp add: router_resolve_def split_path_segments_pieces sample_router_def vec_at_def)
  with resolved_parameter_is_segment [OF sample_router_wf _ this] sample_router_wf show ?thesis
    by blast
qed

lemma node_at_append:
  "node_at (ps @ qs) n = (case node_at ps n of None \<Rightarrow> None | Some c \<Rightarrow> node_at qs c)"
  by (induction ps n rule: node_at.induct) (auto split: option.splits)

lemma node_at_prefix:
  "node_at ps n \<noteq> None \<Longrightarrow> node_at (take k ps) n \<noteq> None"
  using node_at_append [of "take k ps" "drop k ps" n] by (auto split: option.splits)

lemma route_of_node: "route_of n m ps \<noteq> None \<Longrightarrow> node_at ps n \<noteq> None"
  by (auto simp: route_of_def split: option.splits)

text \<open>
  Once a path with a parameter segment is registered for one method, every later
  registration of that path is refused, for the other method too: a parameter route can carry
  a GET handler or a POST handler, never both.
\<close>

theorem parameter_route_single_method:
  assumes "router_wf root" "m \<noteq> METHOD_MAX" "m' \<noteq> METHOD_MAX"
    and "router_add m uri h root = Inr (True, root')"
    and "\<exists>seg \<in> set (split_path_segments uri). is_param_seg seg"
  shows "\<exists>root''. router_add m' uri h' root' = Inr (False, root'')"
proof -
  let ?segs = "split_path_segments uri"
  from rt.add_routes(1) [OF assms(1,2,4), of m "map pat_of ?segs"] rt.add_routes(2) [OF assms(1,2,4)]
    assms(2)
  have "route_of root' m (map pat_of ?segs) \<noteq> None" and wf: "router_wf root'" by auto
  then have node: "node_at (map pat_of ?segs) root' \<noteq> None" using route_of_node by metis
  from assms(5) obtain i where i: "i < length ?segs" "is_param_seg (?segs ! i)"
    by (auto simp: in_set_conv_nth)
  with node_at_prefix [OF node, of "Suc i"] have "\<not> insertable ?segs root'"
    by (auto simp: insertable_iff [OF wf] take_map)
  with insert_recursive_spec [OF wf assms(3), of ?segs h'] show ?thesis
    by (auto simp: router_add_def insert_spec_def)
qed

theorem parameter_route_single_method_witness:
  "\<exists>root' root''. router_add GET ''/u/{id}'' (7::nat) empty_node = Inr (True, root')
     \<and> router_add POST ''/u/{id}'' 8 root' = Inr (False, root'')"
proof -
  have segs: "split_path_segments ''/u/{id}'' = [''u'', ''{id}'']"
    by (simp add: split_path_segments_pieces)
  obtain root' where ok: "router_add GET ''/u/{id}'' (7::nat) empty_node = Inr (True, root')"
    by (simp add: router_add_def segs empty_node_def is_param_seg_def vec_set_def)
  have "\<exists>seg \<in> set (split_path_segments ''/u/{id}''). is_param_seg seg"
    by (simp add: segs is_param_seg_def)
  with parameter_route_single_method [OF router_wf_empty _ _ ok, of POST 8] ok show ?thesis by blast
qed

end
