(* ===== verification/Multipart_Parser.thy ===== *)
theory Multipart_Parser
  imports Cpp_String "HOL-Library.AList"
begin

text \<open>
  The multipart form parser (\<open>multipart_parser.h\<close>, \<open>multipart_parser.cc\<close>) together with the
  part of the file system it works on: files are contents by path, an append creates or extends
  a file, \<open>rename\<close> moves one over another. Whether the operating system lets an append or a
  rename through is the parameter \<open>os_files\<close>. The bytes of a request body are characters.
  The lemmas show what an upload leaves on disk, on the complete, the incomplete and the
  malformed branches.
\<close>

section \<open>Files\<close>

type_synonym file_system = "string \<rightharpoonup> string"

record os_files =
  append_ok :: "string \<Rightarrow> bool"
  rename_ok :: "string \<Rightarrow> string \<Rightarrow> bool"

text \<open>\<open>std::ofstream out(path, binary | app)\<close>, then \<open>write\<close> and \<open>close\<close> if it is open.\<close>

definition append_file :: "os_files \<Rightarrow> string \<Rightarrow> string \<Rightarrow> file_system \<Rightarrow> file_system" where
  "append_file os path content fs =
     (if append_ok os (c_str path)
      then fs(c_str path \<mapsto> (case fs (c_str path) of None \<Rightarrow> content | Some old \<Rightarrow> old @ content))
      else fs)"

text \<open>\<open>rename(from.c_str(), to.c_str())\<close>; its result is not looked at.\<close>

definition rename_file :: "os_files \<Rightarrow> string \<Rightarrow> string \<Rightarrow> file_system \<Rightarrow> file_system" where
  "rename_file os from to fs =
     (let f = c_str from; t = c_str to in
      case fs f of
        None \<Rightarrow> fs
      | Some content \<Rightarrow>
          if t \<noteq> [] \<and> f \<noteq> t \<and> rename_ok os f t then fs(f := None, t \<mapsto> content) else fs)"

section \<open>The parser\<close>

record form_parser =
  current_filename :: string
  current_tmp_filename :: string
  count :: "32 word"
  boundary :: string
  file_map :: "(string \<times> string) list"

definition new_parser :: form_parser where
  "new_parser = \<lparr>current_filename = [], current_tmp_filename = [], count = 0, boundary = [],
     file_map = []\<rparr>"

definition crlf :: string where
  "crlf = [CHR 0x0D, CHR 0x0A]"

definition quoted_filename :: string where
  "quoted_filename = ''filename=\"''"

text \<open>
  The name of a temporary file: the address of the parser and the id of the thread as a stream
  prints them (\<open>self\<close>, \<open>tid\<close>), and the running number, an \<open>int\<close>.
\<close>

definition generate_temporary_filename ::
    "string \<Rightarrow> string \<Rightarrow> form_parser \<Rightarrow> string \<times> form_parser" where
  "generate_temporary_filename self tid p =
     (''h2_tmp_'' @ self @ ''_'' @ tid @ ''_'' @ dec_int (sint (count p)), p\<lparr>count := count p + 1\<rparr>)"

text \<open>
  The destructor: every entry that is left is renamed, in the order in which the hash map
  yields the entries (here the order of the list).
\<close>

definition rename_temporary_filenames ::
    "os_files \<Rightarrow> form_parser \<Rightarrow> file_system \<Rightarrow> file_system" where
  "rename_temporary_filenames os p fs =
     fold (\<lambda>(filename, tmp) fs. rename_file os tmp filename fs) (file_map p) fs"

definition get_filename :: "form_parser \<Rightarrow> string" where
  "get_filename p = current_filename p"

definition extract_boundary :: "string \<Rightarrow> form_parser \<Rightarrow> bool \<times> form_parser" where
  "extract_boundary content_type p =
     (if boundary p = [] \<and> content_type \<noteq> [] then
        case sv_find content_type ''boundary='' 0 of
          None \<Rightarrow> (False, p)
        | Some s \<Rightarrow>
            let start = s + 9 in
            case sv_find content_type crlf start of
              Some e \<Rightarrow> (True, p\<lparr>boundary := substr content_type start (e - start)\<rparr>)
            | None \<Rightarrow>
                (case sv_find content_type '';'' start of
                   Some e \<Rightarrow> (True, p\<lparr>boundary := substr content_type start (e - start)\<rparr>)
                 | None \<Rightarrow>
                     (True, p\<lparr>boundary :=
                        substr content_type start (length content_type - start)\<rparr>))
      else (False, p))"

text \<open>
  The three searches. A result is a start and a length, with \<open>None\<close> for a start of \<open>npos\<close>;
  \<open>pos\<close> is the reference argument, itself possibly \<open>npos\<close>.
\<close>

type_synonym span = "nat option \<times> nat"

definition find_filename :: "string \<Rightarrow> string \<Rightarrow> span \<times> nat option" where
  "find_filename b buffer =
     (case sv_find buffer (b @ crlf) 0 of
        None \<Rightarrow> ((None, 0), None)
      | Some pos \<Rightarrow>
          (case sv_find buffer quoted_filename pos of
             None \<Rightarrow> ((None, 0), Some pos)
           | Some s \<Rightarrow>
               let start = s + 10 in
               (case sv_find_char buffer (CHR 0x22) start of
                  None \<Rightarrow> ((None, 0), Some pos)
                | Some e \<Rightarrow> ((Some start, e - start), Some e))))"

definition find_file_content :: "string \<Rightarrow> nat option \<Rightarrow> span \<times> nat option" where
  "find_file_content buffer pos =
     (case sv_find_opt buffer (crlf @ crlf) pos of
        None \<Rightarrow> ((None, 0), pos)
      | Some s \<Rightarrow>
          let start = s + 4 in
          (case sv_find buffer crlf start of
             None \<Rightarrow> ((None, 0), pos)
           | Some e \<Rightarrow> ((Some start, e - start), Some e)))"

definition find_end_boundary :: "string \<Rightarrow> string \<Rightarrow> nat option \<Rightarrow> span" where
  "find_end_boundary b buffer pos =
     (case sv_find_opt buffer (b @ ''--'') pos of
        None \<Rightarrow> (None, 0)
      | Some start \<Rightarrow> (Some start, length buffer - start))"

text \<open>
  The first step of \<open>write\<close>: a file name that is new gets a temporary file. A result of \<open>False\<close>
  is the early \<open>return false\<close> on a failed \<open>emplace\<close>.
\<close>

definition register_filename ::
    "string \<Rightarrow> string \<Rightarrow> string \<Rightarrow> span \<Rightarrow> form_parser \<Rightarrow> bool \<times> form_parser" where
  "register_filename self tid buffer r p =
     (case fst r of
        None \<Rightarrow> (True, p)
      | Some start \<Rightarrow>
          let filename = substr buffer start (snd r) in
          (case map_of (file_map p) filename of
             Some _ \<Rightarrow> (True, p)
           | None \<Rightarrow>
               let (tmp, p1) = generate_temporary_filename self tid p in
               if map_of (file_map p1) filename \<noteq> None then (False, p1)
               else (True, p1\<lparr>file_map := file_map p1 @ [(filename, tmp)],
                             current_filename := filename, current_tmp_filename := tmp\<rparr>)))"

definition store_content ::
    "os_files \<Rightarrow> string \<Rightarrow> span \<Rightarrow> form_parser \<Rightarrow> file_system \<Rightarrow> file_system" where
  "store_content os buffer r p fs =
     (case fst r of
        None \<Rightarrow> fs
      | Some start \<Rightarrow>
          if current_tmp_filename p \<noteq> []
          then append_file os (current_tmp_filename p) (substr buffer start (snd r)) fs
          else fs)"

definition finish_upload ::
    "os_files \<Rightarrow> span \<Rightarrow> form_parser \<Rightarrow> file_system \<Rightarrow> bool \<times> form_parser \<times> file_system" where
  "finish_upload os r p fs =
     (case fst r of
        None \<Rightarrow> (False, p, fs)
      | Some _ \<Rightarrow>
          (True, p\<lparr>file_map := AList.delete (current_filename p) (file_map p)\<rparr>,
           rename_file os (current_tmp_filename p) (current_filename p) fs))"

definition parser_write ::
    "os_files \<Rightarrow> string \<Rightarrow> string \<Rightarrow> string \<Rightarrow> form_parser \<Rightarrow> file_system
      \<Rightarrow> bool \<times> form_parser \<times> file_system" where
  "parser_write os self tid buffer p fs =
     (if boundary p \<noteq> [] then
        let (r1, pos1) = find_filename (boundary p) buffer in
        case register_filename self tid buffer r1 p of
          (False, p1) \<Rightarrow> (False, p1, fs)
        | (True, p1) \<Rightarrow>
            let (r2, pos2) = find_file_content buffer pos1;
                fs1 = store_content os buffer r2 p1 fs;
                r3 = find_end_boundary (boundary p1) buffer pos2
            in finish_upload os r3 p1 fs1
      else (False, p, fs))"

section \<open>The searches on a form part\<close>

text \<open>\<open>p\<close> does not begin inside \<open>ys\<close> when \<open>ys\<close> is followed by \<open>p\<close>.\<close>

definition free_before :: "'a list \<Rightarrow> 'a list \<Rightarrow> bool" where
  "free_before p ys \<longleftrightarrow> sv_find (ys @ p) p 0 = Some (length ys)"

lemma find_free:
  assumes "free_before p ys"
  shows "sv_find (xs @ ys @ p @ zs) p (length xs) = Some (length xs + length ys)"
proof (rule sv_find_append)
  from assms have "\<forall>j < length ys. \<not> occurs_at (ys @ p) p j"
    by (simp add: free_before_def sv_find_Some)
  then show "\<forall>j < length ys. \<not> occurs_at (ys @ p @ zs) p j"
    using occurs_at_append_left [of _ p "ys @ p" zs] by simp
qed simp

lemma free_before_char: "c \<notin> set ys \<Longrightarrow> free_before [c] ys"
  using sv_find_append [of 0 "[]" ys "[c]" "[]"] no_head_no_occurrence [of "[c]" ys _ "[c]"]
  by (simp add: free_before_def)

lemma free_before_Cons: "free_before p ys \<Longrightarrow> p \<noteq> [] \<Longrightarrow> hd p \<noteq> c \<Longrightarrow> free_before p (c # ys)"
  unfolding free_before_def sv_find_Some
proof (intro conjI allI impI; elim conjE)
  assume "p \<noteq> []" "hd p \<noteq> c"
  then have start: "\<not> occurs_at ((c # ys) @ p) p 0"
    by (cases p) (auto simp: occurs_at_def)
  assume "occurs_at (ys @ p) p (length ys)"
  then show "occurs_at ((c # ys) @ p) p (length (c # ys))" by simp
  fix j
  assume "\<forall>j. 0 \<le> j \<and> j < length ys \<longrightarrow> \<not> occurs_at (ys @ p) p j" "j < length (c # ys)"
  with start show "\<not> occurs_at ((c # ys) @ p) p j" by (cases j) auto
qed simp

lemma length_delimiters [simp]: "length crlf = 2" "length quoted_filename = 10"
  by (simp_all add: crlf_def quoted_filename_def)

text \<open>
  A form with one file part: \<open>pre\<close> is what precedes the boundary (the two dashes), \<open>disp\<close> the
  disposition header up to the file name, \<open>hdr\<close> the rest of the headers.
\<close>

definition part_body ::
    "string \<Rightarrow> string \<Rightarrow> string \<Rightarrow> string \<Rightarrow> string \<Rightarrow> string \<Rightarrow> string \<Rightarrow> string" where
  "part_body pre b disp fname hdr content rest =
     pre @ b @ crlf @ disp @ quoted_filename @ fname @ [CHR 0x22] @ hdr @ crlf @ crlf
       @ content @ crlf @ rest"

text \<open>
  The delimiters are where they should be, and nowhere before. The content is a separate matter: the
  parser takes it to end at its first line break.
\<close>

definition part_ok :: "string \<Rightarrow> string \<Rightarrow> string \<Rightarrow> string \<Rightarrow> string \<Rightarrow> bool" where
  "part_ok pre b disp fname hdr \<longleftrightarrow>
     free_before (b @ crlf) pre \<and> free_before quoted_filename (b @ crlf @ disp)
     \<and> CHR 0x22 \<notin> set fname \<and> free_before (crlf @ crlf) hdr"

definition no_line_break :: "string \<Rightarrow> bool" where
  "no_line_break content \<longleftrightarrow> (\<forall>i. \<not> occurs_at content crlf i)"

definition part_fits :: "string \<Rightarrow> string \<Rightarrow> string \<Rightarrow> string \<Rightarrow> string \<Rightarrow> string \<Rightarrow> bool" where
  "part_fits pre b disp fname hdr content \<longleftrightarrow> part_ok pre b disp fname hdr \<and> free_before crlf content"

lemma no_line_break_Nil: "no_line_break []"
  by (simp add: no_line_break_def occurs_at_def crlf_def)

lemma no_line_break_Cons: "no_line_break (c # cs) \<longleftrightarrow> no_line_break cs \<and> \<not> occurs_at (c # cs) crlf 0"
  unfolding no_line_break_def by (metis not0_implies_Suc occurs_at_Cons_Suc)

lemma no_line_break_free: "no_line_break content \<Longrightarrow> free_before crlf content"
proof (induction content)
  case Nil
  show ?case by (simp add: free_before_def sv_find_def crlf_def)
next
  case (Cons c cs)
  then have cs: "free_before crlf cs" "\<not> occurs_at (c # cs) crlf 0" by (simp_all add: no_line_break_Cons)
  have start: "\<not> occurs_at ((c # cs) @ crlf) crlf 0"
    using cs(2) by (cases cs) (auto simp: occurs_at_def crlf_def)
  show ?case
    unfolding free_before_def sv_find_Some
  proof (intro conjI allI impI)
    show "occurs_at ((c # cs) @ crlf) crlf (length (c # cs))" by (simp add: occurs_at_def)
    fix j assume "0 \<le> j \<and> j < length (c # cs)"
    then show "\<not> occurs_at ((c # cs) @ crlf) crlf j"
      using start cs(1) by (cases j) (auto simp: free_before_def sv_find_Some)
  qed simp
qed

lemma part_fitsI: "part_ok pre b disp fname hdr \<Longrightarrow> no_line_break content \<Longrightarrow> part_fits pre b disp fname hdr content"
  by (simp add: part_fits_def no_line_break_free)

lemma find_filename_part:
  assumes "part_fits pre b disp fname hdr content"
  shows "find_filename b (part_body pre b disp fname hdr content rest) =
    ((Some (length (pre @ b @ crlf @ disp @ quoted_filename)), length fname),
     Some (length (pre @ b @ crlf @ disp @ quoted_filename @ fname)))"
proof -
  let ?B = "part_body pre b disp fname hdr content rest"
  note ok = assms [unfolded part_fits_def part_ok_def]
  have "sv_find ?B (b @ crlf) 0 = Some (length pre)"
    using find_free [of "b @ crlf" pre "[]"] ok by (simp add: part_body_def)
  moreover have "sv_find ?B quoted_filename (length pre) = Some (length (pre @ b @ crlf @ disp))"
    using find_free [of quoted_filename "b @ crlf @ disp" pre] ok by (simp add: part_body_def)
  moreover have "sv_find_char ?B (CHR 0x22) (length (pre @ b @ crlf @ disp) + 10) =
      Some (length (pre @ b @ crlf @ disp @ quoted_filename @ fname))"
    using find_free [OF free_before_char, of "CHR 0x22" fname "pre @ b @ crlf @ disp @ quoted_filename"] ok
    by (simp add: part_body_def sv_find_char_def ac_simps)
  ultimately show ?thesis
    by (simp add: find_filename_def)
qed

lemma find_file_content_part:
  assumes "part_fits pre b disp fname hdr content"
  shows "find_file_content (part_body pre b disp fname hdr content rest)
      (Some (length (pre @ b @ crlf @ disp @ quoted_filename @ fname))) =
    ((Some (length (pre @ b @ crlf @ disp @ quoted_filename @ fname @ [CHR 0x22] @ hdr @ crlf @ crlf)),
      length content),
     Some (length (pre @ b @ crlf @ disp @ quoted_filename @ fname @ [CHR 0x22] @ hdr @ crlf @ crlf @ content)))"
proof -
  let ?B = "part_body pre b disp fname hdr content rest"
  let ?H = "pre @ b @ crlf @ disp @ quoted_filename @ fname"
  note ok = assms [unfolded part_fits_def part_ok_def]
  have "free_before (crlf @ crlf) (CHR 0x22 # hdr)"
    using ok by (intro free_before_Cons) (auto simp: crlf_def)
  from find_free [OF this, of ?H "content @ crlf @ rest"]
  have "sv_find ?B (crlf @ crlf) (length ?H) = Some (length (?H @ [CHR 0x22] @ hdr))"
    by (simp add: part_body_def)
  moreover have "sv_find ?B crlf (length (?H @ [CHR 0x22] @ hdr @ crlf @ crlf)) =
      Some (length (?H @ [CHR 0x22] @ hdr @ crlf @ crlf @ content))"
    using find_free [of crlf content "?H @ [CHR 0x22] @ hdr @ crlf @ crlf" rest] ok
    by (simp add: part_body_def)
  ultimately show ?thesis
    by (simp add: find_file_content_def sv_find_opt_def Let_def eval_nat_numeral)
qed

section \<open>What a write does\<close>

lemma substr_middle: "substr (xs @ ys @ zs) (length xs) (length ys) = ys"
  by (simp add: substr_def)

definition tmp_name :: "string \<Rightarrow> string \<Rightarrow> form_parser \<Rightarrow> string" where
  "tmp_name self tid p = fst (generate_temporary_filename self tid p)"

definition with_upload :: "string \<Rightarrow> string \<Rightarrow> form_parser \<Rightarrow> form_parser" where
  "with_upload fname tmp p = p\<lparr>count := count p + 1, file_map := file_map p @ [(fname, tmp)],
     current_filename := fname, current_tmp_filename := tmp\<rparr>"

lemma tmp_name_nonempty [simp]: "tmp_name self tid p \<noteq> []"
  by (simp add: tmp_name_def generate_temporary_filename_def)

lemma tmp_name_c_str:
  "CHR 0x00 \<notin> set self \<Longrightarrow> CHR 0x00 \<notin> set tid \<Longrightarrow> c_str (tmp_name self tid p) = tmp_name self tid p"
  using dec_int_no_nul [of "sint (count p)"]
  by (intro c_str_id) (auto simp: tmp_name_def generate_temporary_filename_def)

lemma register_filename_part:
  assumes "part_fits pre b disp fname hdr content" "map_of (file_map p) fname = None"
  shows "register_filename self tid (part_body pre b disp fname hdr content rest)
      (Some (length (pre @ b @ crlf @ disp @ quoted_filename)), length fname) p =
    (True, with_upload fname (tmp_name self tid p) p)"
proof -
  have "substr (part_body pre b disp fname hdr content rest)
      (length (pre @ b @ crlf @ disp @ quoted_filename)) (length fname) = fname"
    using substr_middle [of "pre @ b @ crlf @ disp @ quoted_filename" fname] by (simp add: part_body_def)
  with assms(2) show ?thesis
    by (simp add: register_filename_def Let_def generate_temporary_filename_def tmp_name_def
        with_upload_def del: length_append)
qed

lemma store_content_part:
  "store_content os (part_body pre b disp fname hdr content rest)
     (Some (length (pre @ b @ crlf @ disp @ quoted_filename @ fname @ [CHR 0x22] @ hdr @ crlf @ crlf)),
      length content) (with_upload fname (tmp_name self tid p) p) fs =
   append_file os (tmp_name self tid p) content fs"
proof -
  have "substr (part_body pre b disp fname hdr content rest)
      (length (pre @ b @ crlf @ disp @ quoted_filename @ fname @ [CHR 0x22] @ hdr @ crlf @ crlf))
      (length content) = content"
    using substr_middle [of "pre @ b @ crlf @ disp @ quoted_filename @ fname @ [CHR 0x22] @ hdr @ crlf @ crlf"
        content] by (simp add: part_body_def)
  then show ?thesis by (simp add: store_content_def with_upload_def del: length_append)
qed

lemma parser_write_part:
  assumes "part_fits pre b disp fname hdr content" "boundary p = b" "b \<noteq> []"
    "map_of (file_map p) fname = None"
  shows "parser_write os self tid (part_body pre b disp fname hdr content rest) p fs =
    finish_upload os
      (find_end_boundary b (part_body pre b disp fname hdr content rest)
        (Some (length (pre @ b @ crlf @ disp @ quoted_filename @ fname @ [CHR 0x22] @ hdr
                        @ crlf @ crlf @ content))))
      (with_upload fname (tmp_name self tid p) p)
      (append_file os (tmp_name self tid p) content fs)"
  unfolding parser_write_def assms(2) find_filename_part [OF assms(1)] prod.case Let_def
    register_filename_part [OF assms(1,4)] find_file_content_part [OF assms(1)] store_content_part
  using assms(2,3) by (simp add: with_upload_def)

lemma find_end_part:
  assumes "body = front @ tail"
  shows "fst (find_end_boundary b body (Some (length front))) \<noteq> None \<longleftrightarrow>
    (\<exists>i. occurs_at tail (b @ ''--'') i)"
proof -
  have "sv_find body (b @ ''--'') (length front) = None \<longleftrightarrow> (\<forall>i. \<not> occurs_at tail (b @ ''--'') i)"
    unfolding sv_find_None assms by (metis le_add1 le_add_diff_inverse occurs_at_append_right)
  then show ?thesis
    by (auto simp: find_end_boundary_def sv_find_opt_def split: option.splits)
qed

text \<open>The file system calls of a complete upload, and of an upload that the destructor ends.\<close>

lemma publish_upload:
  assumes "c_str tmp = tmp" "c_str fname = fname" "fname \<noteq> []" "fname \<noteq> tmp"
    "append_ok os tmp" "rename_ok os tmp fname" "fs tmp = None"
  shows "rename_file os tmp fname (append_file os tmp content fs) = fs(fname \<mapsto> content)"
proof -
  have "append_file os tmp content fs = fs(tmp \<mapsto> content)" using assms by (simp add: append_file_def)
  moreover have "(fs(tmp := None)) = fs" using assms(7) by (metis fun_upd_idem)
  ultimately show ?thesis using assms by (auto simp: rename_file_def Let_def)
qed

text \<open>What an upload relies on: the calls go through, the names are proper C strings and new.\<close>

definition upload_env_ok ::
    "os_files \<Rightarrow> string \<Rightarrow> string \<Rightarrow> form_parser \<Rightarrow> string \<Rightarrow> file_system \<Rightarrow> bool" where
  "upload_env_ok os self tid p fname fs \<longleftrightarrow>
     CHR 0x00 \<notin> set self \<and> CHR 0x00 \<notin> set tid \<and> CHR 0x00 \<notin> set fname \<and> fname \<noteq> []
     \<and> fname \<noteq> tmp_name self tid p
     \<and> append_ok os (tmp_name self tid p) \<and> rename_ok os (tmp_name self tid p) fname
     \<and> fs (tmp_name self tid p) = None \<and> map_of (file_map p) fname = None"

lemma publish_upload_env:
  "upload_env_ok os self tid p fname fs \<Longrightarrow>
   rename_file os (tmp_name self tid p) fname (append_file os (tmp_name self tid p) content fs) =
   fs(fname \<mapsto> content)"
  by (rule publish_upload) (auto simp: upload_env_ok_def tmp_name_c_str c_str_id)

lemma parser_write_complete:
  assumes "part_fits pre b disp fname hdr content" "boundary p = b" "b \<noteq> []"
    "upload_env_ok os self tid p fname fs" "occurs_at rest (b @ ''--'') i"
  shows "parser_write os self tid (part_body pre b disp fname hdr content rest) p fs =
    (True, p\<lparr>count := count p + 1, current_filename := fname,
             current_tmp_filename := tmp_name self tid p\<rparr>, fs(fname \<mapsto> content))"
proof -
  let ?body = "part_body pre b disp fname hdr content rest"
  let ?front = "pre @ b @ crlf @ disp @ quoted_filename @ fname @ [CHR 0x22] @ hdr @ crlf @ crlf @ content"
  have new: "map_of (file_map p) fname = None" using assms(4) by (simp add: upload_env_ok_def)
  have "?body = ?front @ crlf @ rest" by (simp add: part_body_def)
  moreover have "occurs_at (crlf @ rest) (b @ ''--'') (length crlf + i)"
    using assms(5) by (simp only: occurs_at_append_right)
  ultimately have "fst (find_end_boundary b ?body (Some (length ?front))) \<noteq> None"
    using find_end_part by blast
  moreover have "AList.delete fname (file_map p @ [(fname, tmp_name self tid p)]) = file_map p"
    using new by (simp add: AList.delete_eq map_of_eq_None_iff filter_id_conv) force
  ultimately show ?thesis
    unfolding parser_write_part [OF assms(1-3) new] finish_upload_def
    using publish_upload_env [OF assms(4)]
    by (auto simp: with_upload_def)
qed

section \<open>Properties\<close>

definition demo_os :: os_files where
  "demo_os = \<lparr>append_ok = (\<lambda>_. True), rename_ok = (\<lambda>_ _. True)\<rparr>"

definition demo_parser :: form_parser where
  "demo_parser = new_parser\<lparr>boundary := ''XX''\<rparr>"

text \<open>
  C25: a complete form part (boundary line, file name, headers, content without a line break of its
  own, a line break, closing boundary somewhere after it) is stored exactly: \<open>write\<close> returns true, the only change
  to the file system is that the named file has the content, no temporary file is left, and the
  parser remembers the name and no pending file. The name is taken as it stands in the request,
  slashes and dots included.
\<close>

theorem upload_stores_content:
  assumes "part_ok pre b disp fname hdr" "no_line_break content" "boundary p = b" "b \<noteq> []"
    and "upload_env_ok os self tid p fname fs" "\<exists>i. occurs_at rest (b @ ''--'') i"
  shows "\<exists>p'. parser_write os self tid (part_body pre b disp fname hdr content rest) p fs =
      (True, p', fs(fname \<mapsto> content))
    \<and> get_filename p' = fname \<and> file_map p' = file_map p \<and> boundary p' = boundary p"
  using parser_write_complete [OF part_fitsI [OF assms(1,2)] assms(3-5)] assms(6) by (auto simp: get_filename_def)

lemma demo_env: "upload_env_ok demo_os ''0x1'' ''7'' demo_parser ''../up.txt'' Map.empty"
  by (simp add: upload_env_ok_def demo_os_def demo_parser_def new_parser_def tmp_name_def
      generate_temporary_filename_def)

lemma demo_part: "part_ok ''--'' ''XX'' ''Content-Disposition: form-data; '' ''../up.txt'' []"
  by (simp add: part_ok_def free_before_def sv_find_def crlf_def quoted_filename_def)

lemma demo_content: "no_line_break ''hello''"
  by (simp add: no_line_break_Cons no_line_break_Nil occurs_at_def crlf_def)

lemma demo_close: "occurs_at ''--XX--'' (''XX'' @ ''--'') 2"
  by (simp add: occurs_at_def)

theorem upload_stores_content_witness:
  "\<exists>p'. parser_write demo_os ''0x1'' ''7''
      (part_body ''--'' ''XX'' ''Content-Disposition: form-data; '' ''../up.txt'' [] ''hello'' ''--XX--'')
      demo_parser Map.empty = (True, p', [''../up.txt'' \<mapsto> ''hello''])"
  using upload_stores_content [OF demo_part demo_content _ _ demo_env, of "''--XX--''"] demo_close
  by (auto simp: demo_parser_def)

text \<open>
  C39: when the uploaded content itself contains a line break (carriage return, line feed), only
  the text before the first one is stored, and \<open>write\<close> still reports a completed upload.
\<close>

theorem upload_truncates_at_line_break:
  assumes "part_ok pre b disp fname hdr" "no_line_break c1" "boundary p = b" "b \<noteq> []"
    and "upload_env_ok os self tid p fname fs" "\<exists>i. occurs_at rest (b @ ''--'') i"
  shows "\<exists>p'. parser_write os self tid (part_body pre b disp fname hdr (c1 @ crlf @ c2) rest) p fs =
      (True, p', fs(fname \<mapsto> c1))"
proof -
  have "part_body pre b disp fname hdr (c1 @ crlf @ c2) rest =
      part_body pre b disp fname hdr c1 ((c2 @ crlf) @ rest)" by (simp add: part_body_def)
  moreover from assms(6) obtain i where "occurs_at ((c2 @ crlf) @ rest) (b @ ''--'') (length (c2 @ crlf) + i)"
    using occurs_at_append_right by blast
  ultimately show ?thesis using parser_write_complete [OF part_fitsI [OF assms(1,2)] assms(3-5)] by auto
qed

theorem upload_truncates_at_line_break_witness:
  "\<exists>p'. parser_write demo_os ''0x1'' ''7''
      (part_body ''--'' ''XX'' ''Content-Disposition: form-data; '' ''../up.txt'' []
         (''hello'' @ crlf @ ''world'') ''--XX--'')
      demo_parser Map.empty = (True, p', [''../up.txt'' \<mapsto> ''hello''])"
  using upload_truncates_at_line_break [OF demo_part demo_content _ _ demo_env, of "''--XX--''" "''world''"] demo_close
  by (auto simp: demo_parser_def)

text \<open>
  A form part whose closing boundary never comes makes \<open>write\<close> return false, but what arrived
  is published all the same when the parser is destroyed: the destructor renames the temporary
  file to the requested name.
\<close>

theorem incomplete_upload_published:
  assumes "part_fits pre b disp fname hdr content" "boundary p = b" "b \<noteq> []" "file_map p = []"
    and "upload_env_ok os self tid p fname fs" "\<nexists>i. occurs_at (crlf @ rest) (b @ ''--'') i"
    and "parser_write os self tid (part_body pre b disp fname hdr content rest) p fs = (done, p', fs')"
  shows "\<not> done \<and> rename_temporary_filenames os p' fs' = fs(fname \<mapsto> content)"
proof -
  let ?body = "part_body pre b disp fname hdr content rest"
  let ?front = "pre @ b @ crlf @ disp @ quoted_filename @ fname @ [CHR 0x22] @ hdr @ crlf @ crlf @ content"
  have "?body = ?front @ crlf @ rest" by (simp add: part_body_def)
  with assms(6) have "fst (find_end_boundary b ?body (Some (length ?front))) = None"
    using find_end_part by blast
  moreover have new: "map_of (file_map p) fname = None" using assms(4) by simp
  ultimately show ?thesis
    using assms(7) unfolding parser_write_part [OF assms(1-3) new] finish_upload_def
    by (auto simp: with_upload_def rename_temporary_filenames_def assms(4)
        publish_upload_env [OF assms(5)])
qed

lemma no_short_occurrence: "length s < length p \<Longrightarrow> \<not> occurs_at s p i"
  using occurs_at_length by fastforce

theorem incomplete_upload_published_witness:
  "\<exists>p' fs'. parser_write demo_os ''0x1'' ''7''
      (part_body ''--'' ''XX'' ''Content-Disposition: form-data; '' ''../up.txt'' [] ''hello'' [])
      demo_parser Map.empty = (False, p', fs')
    \<and> rename_temporary_filenames demo_os p' fs' = [''../up.txt'' \<mapsto> ''hello'']"
proof -
  obtain d p' fs' where w: "parser_write demo_os ''0x1'' ''7''
      (part_body ''--'' ''XX'' ''Content-Disposition: form-data; '' ''../up.txt'' [] ''hello'' [])
      demo_parser Map.empty = (d, p', fs')" by (metis surj_pair)
  have "\<nexists>i. occurs_at (crlf @ []) (''XX'' @ ''--'') i" by (simp add: no_short_occurrence)
  with incomplete_upload_published [OF part_fitsI [OF demo_part demo_content] _ _ _ demo_env _ w] w show ?thesis
    by (auto simp: demo_parser_def new_parser_def)
qed

lemma no_char_no_find: "c \<in> set p \<Longrightarrow> c \<notin> set s \<Longrightarrow> sv_find s p pos = None"
  unfolding sv_find_None using no_char_no_occurrence [of c p s _ "[]"] occurs_at_length by fastforce

lemma sv_find_suffix_None:
  "c \<in> set p \<Longrightarrow> c \<notin> set t \<Longrightarrow> sv_find (s @ t) p (length s) = None"
  unfolding sv_find_None
  by (metis append_Nil2 le_iff_add no_char_no_occurrence occurs_at_append_right occurs_at_length)

lemma extract_boundary_found:
  assumes "boundary p = []" "free_before ''boundary='' pre"
    and "CHR '';'' \<notin> set b" "CHR 0x0D \<notin> set (b @ rest)" "rest = [] \<or> hd rest = CHR '';''"
  shows "extract_boundary (pre @ ''boundary='' @ b @ rest) p = (True, p\<lparr>boundary := b\<rparr>)"
proof -
  let ?front = "pre @ ''boundary=''"
  let ?ct = "?front @ b @ rest"
  have len: "length pre + 9 = length ?front" by simp
  have start: "sv_find ?ct ''boundary='' 0 = Some (length pre)"
    using find_free [OF assms(2), of "[]"] by simp
  have nl: "sv_find ?ct crlf (length ?front) = None"
    using assms(4) by (intro sv_find_suffix_None [of "CHR 0x0D"]) (auto simp: crlf_def)
  have semi: "sv_find ?ct '';'' (length ?front) = (if rest = [] then None else Some (length ?front + length b))"
  proof (cases "rest = []")
    case True
    with sv_find_suffix_None [of "CHR '';''" "'';''" b ?front] assms(3) show ?thesis by simp
  next
    case False
    with assms(5) have "rest = '';'' @ tl rest" by (cases rest) auto
    with find_free [OF free_before_char [OF assms(3)], of ?front "tl rest"] False show ?thesis by simp
  qed
  have "extract_boundary ?ct p = (True, p\<lparr>boundary := b\<rparr>)"
    unfolding extract_boundary_def start option.case Let_def len nl semi
    using assms(1) by (auto simp: substr_def)
  then show ?thesis by simp
qed

text \<open>
  \<open>extract_boundary\<close> takes the text after the first \<open>boundary=\<close> of a content type up to the
  next semicolon or the end, once: it leaves a parser that has a boundary, and one whose content
  type names none, as it is and reports false.
\<close>

theorem extract_boundary_correct:
  assumes "boundary p = []" "free_before ''boundary='' pre"
    and "CHR '';'' \<notin> set b" "CHR 0x0D \<notin> set (b @ rest)" "rest = [] \<or> hd rest = CHR '';''"
  shows "extract_boundary (pre @ ''boundary='' @ b @ rest) p = (True, p\<lparr>boundary := b\<rparr>)
    \<and> (b \<noteq> [] \<longrightarrow> extract_boundary ct (p\<lparr>boundary := b\<rparr>) = (False, p\<lparr>boundary := b\<rparr>))
    \<and> (sv_find ct ''boundary='' 0 = None \<longrightarrow> extract_boundary ct p = (False, p))"
  using extract_boundary_found [OF assms] assms(1) by (auto simp: extract_boundary_def)

theorem extract_boundary_correct_witness:
  "extract_boundary ''multipart/form-data; boundary=XX; x'' new_parser =
     (True, new_parser\<lparr>boundary := ''XX''\<rparr>)"
  using extract_boundary_correct [of new_parser "''multipart/form-data; ''" "''XX''" "''; x''" "[]"]
  by (simp add: new_parser_def free_before_def sv_find_def)

lemma append_file_frame: "x \<noteq> c_str path \<Longrightarrow> append_file os path content fs x = fs x"
  by (simp add: append_file_def)

lemma rename_file_frame: "x \<noteq> c_str from \<Longrightarrow> x \<noteq> c_str to \<Longrightarrow> rename_file os from to fs x = fs x"
  by (simp add: rename_file_def Let_def split: option.splits)

lemma store_content_frame:
  "x \<noteq> c_str (current_tmp_filename p) \<Longrightarrow> store_content os buffer r p fs x = fs x"
  by (simp add: store_content_def append_file_frame split: option.splits)

lemma finish_upload_frame:
  assumes "finish_upload os r p fs = (done, p', fs')"
    "x \<noteq> c_str (current_tmp_filename p')" "x \<noteq> c_str (current_filename p')"
  shows "fs' x = fs x"
  using assms by (auto simp: finish_upload_def rename_file_frame split: option.splits)

lemma finish_upload_names:
  assumes "finish_upload os r p fs = (done, p', fs')"
  shows "current_tmp_filename p' = current_tmp_filename p" "current_filename p' = current_filename p"
  using assms by (auto simp: finish_upload_def split: option.splits)

text \<open>
  C35: whatever the bytes of the body, \<open>write\<close> changes no file but the parser's current temporary
  file and the file of the current name, and a body in which the boundary line does not occur
  changes nothing at all and is reported as not completed.
\<close>

theorem write_frame:
  assumes "parser_write os self tid buffer p fs = (done, p', fs')"
  shows "(\<forall>x. x \<noteq> c_str (current_tmp_filename p') \<longrightarrow> x \<noteq> c_str (current_filename p') \<longrightarrow> fs' x = fs x)
    \<and> (sv_find buffer (boundary p @ crlf) 0 = None \<longrightarrow> (done, p', fs') = (False, p, fs))"
proof (cases "boundary p = []")
  case True
  with assms show ?thesis by (auto simp: parser_write_def)
next
  case False
  obtain r1 pos1 where r1: "find_filename (boundary p) buffer = (r1, pos1)" by fastforce
  obtain ok p1 where p1: "register_filename self tid buffer r1 p = (ok, p1)" by fastforce
  obtain r2 pos2 where r2: "find_file_content buffer pos1 = (r2, pos2)" by fastforce
  let ?fs1 = "store_content os buffer r2 p1 fs"
  have w: "(done, p', fs') = (if ok then finish_upload os (find_end_boundary (boundary p1) buffer pos2) p1 ?fs1
      else (False, p1, fs))"
    using assms False by (simp add: parser_write_def r1 p1 r2 split: bool.splits)
  have "fs' x = fs x" if "x \<noteq> c_str (current_tmp_filename p')" "x \<noteq> c_str (current_filename p')" for x
  proof (cases ok)
    case True
    with w have f: "finish_upload os (find_end_boundary (boundary p1) buffer pos2) p1 ?fs1 = (done, p', fs')"
      by simp
    then have "fs' x = ?fs1 x" using that by (rule finish_upload_frame)
    with that finish_upload_names [OF f] store_content_frame show ?thesis by simp
  qed (use w in simp)
  moreover have "(done, p', fs') = (False, p, fs)" if "sv_find buffer (boundary p @ crlf) 0 = None"
  proof -
    from that r1 have "r1 = (None, 0)" "pos1 = None" by (auto simp: find_filename_def)
    with p1 r2 have "ok" "p1 = p" "r2 = (None, 0)" "pos2 = None"
      by (auto simp: register_filename_def find_file_content_def sv_find_opt_def)
    with w show ?thesis
      by (simp add: store_content_def finish_upload_def find_end_boundary_def sv_find_opt_def)
  qed
  ultimately show ?thesis by blast
qed

theorem write_frame_witness:
  "parser_write demo_os ''0x1'' ''7'' ''garbage'' demo_parser [''keep'' \<mapsto> ''k''] =
     (False, demo_parser, [''keep'' \<mapsto> ''k''])"
proof -
  obtain d p' fs' where w: "parser_write demo_os ''0x1'' ''7'' ''garbage'' demo_parser [''keep'' \<mapsto> ''k''] =
      (d, p', fs')" by (metis surj_pair)
  moreover have "sv_find ''garbage'' (boundary demo_parser @ crlf) 0 = None"
    by (rule no_char_no_find [of "CHR 0x0D"]) (simp_all add: crlf_def)
  ultimately show ?thesis using write_frame [OF w] by simp
qed

end
