(* ===== verification/File_Cache.thy ===== *)
theory File_Cache
  imports Multipart_Parser
begin

text \<open>
  The file cache (\<open>file_cache.h\<close>, \<open>file_cache.cc\<close>) and the loader that the request handlers
  share (\<open>load_file_from_filecache\<close> in \<open>handler.cc\<close>). A mapping is a null pointer, the value
  \<open>MAP_FAILED\<close>, or the bytes that the file had when \<open>mmap\<close> mapped it. The server itself publishes
  uploads by \<open>rename\<close>, which leaves the mapped file as it was; a program that changes a mapped
  file in place is not modelled (the mapping is \<open>MAP_PRIVATE\<close>: whether the change shows is not
  specified, and a read beyond the end of a truncated file is a fault). The results of
  \<open>open\<close>, \<open>fstat\<close> and \<open>mmap\<close> on the current file system are the parameter \<open>os_maps\<close>. The cache
  is thread-local, one per worker.
\<close>

section \<open>Mapped files\<close>

datatype mapping = NullPtr | MapFailed | Mapped string

record file_context =
  ctx_size :: u64
  ctx_offset :: "32 word"
  ctx_data :: mapping

definition new_file_context :: file_context where
  "new_file_context = \<lparr>ctx_size = 0, ctx_offset = 0, ctx_data = NullPtr\<rparr>"

record mapped_file =
  mf_data :: mapping
  mf_data_len :: u64

record os_maps =
  open_ret :: "file_system \<Rightarrow> string \<Rightarrow> bool"
  fstat_ret :: "file_system \<Rightarrow> string \<Rightarrow> u64 option"
  mmap_ret :: "file_system \<Rightarrow> string \<Rightarrow> u64 \<Rightarrow> mapping"

text \<open>\<open>MappedFile::map\<close>; a path of \<open>None\<close> is the null pointer.\<close>

definition map_file :: "os_maps \<Rightarrow> file_system \<Rightarrow> string option \<Rightarrow> mapped_file \<Rightarrow> bool \<times> mapped_file" where
  "map_file os fs path f =
     (case path of
        None \<Rightarrow> (False, f)
      | Some name \<Rightarrow>
          let p = c_str name in
          if \<not> open_ret os fs p then (False, f)
          else case fstat_ret os fs p of
                 None \<Rightarrow> (False, f)
               | Some n \<Rightarrow>
                   let d = mmap_ret os fs p n;
                       f1 = f\<lparr>mf_data_len := n, mf_data := d\<rparr>
                   in if d = MapFailed then (False, f1) else (True, f1))"

definition new_mapped_file :: "os_maps \<Rightarrow> file_system \<Rightarrow> string option \<Rightarrow> mapped_file" where
  "new_mapped_file os fs path = snd (map_file os fs path \<lparr>mf_data = NullPtr, mf_data_len = 0\<rparr>)"

text \<open>The \<open>munmap\<close> call that the destructor makes, if any.\<close>

definition unmap_file :: "mapped_file \<Rightarrow> (mapping \<times> u64) list" where
  "unmap_file f = (if mf_data f \<noteq> NullPtr then [(mf_data f, mf_data_len f)] else [])"

definition get_data :: "mapped_file \<Rightarrow> mapping" where
  "get_data f = mf_data f"

definition get_data_len :: "mapped_file \<Rightarrow> u64" where
  "get_data_len f = mf_data_len f"

definition is_mapped :: "mapped_file \<Rightarrow> bool" where
  "is_mapped f \<longleftrightarrow> get_data f \<noteq> NullPtr"

text \<open>The bytes that \<open>memcpy\<close> or a stream reads through a data pointer at an offset.\<close>

definition read_mapping :: "mapping \<Rightarrow> int \<Rightarrow> nat \<Rightarrow> string outcome" where
  "read_mapping d off n =
     (if n = 0 then Inr []
      else case d of
             NullPtr \<Rightarrow> Inl NullDeref
           | MapFailed \<Rightarrow> Inl OutOfBounds
           | Mapped c \<Rightarrow>
               if 0 \<le> off \<and> off + int n \<le> int (length c) then Inr (take n (drop (nat off) c))
               else Inl OutOfBounds)"

text \<open>\<open>operator<<\<close> of a mapped file: the bytes it writes.\<close>

definition print_mapped_file :: "mapped_file \<Rightarrow> string outcome" where
  "print_mapped_file f = read_mapping (mf_data f) 0 (unat (mf_data_len f))"

section \<open>The cache\<close>

text \<open>
  The entries are shared pointers that nothing else keeps beyond a request, so a mapped file is
  identified by its key, and mapping an entry again updates the entry.
\<close>

type_synonym file_cache = "string \<rightharpoonup> mapped_file"

definition find_file_from_filecache :: "string \<Rightarrow> file_cache \<Rightarrow> mapped_file option" where
  "find_file_from_filecache path cache = cache path"

definition insert_file_into_filecache ::
    "os_maps \<Rightarrow> file_system \<Rightarrow> string \<Rightarrow> file_cache \<Rightarrow> mapped_file option \<times> file_cache" where
  "insert_file_into_filecache os fs path cache =
     (let f = new_mapped_file os fs (Some path) in
      case cache path of
        Some _ \<Rightarrow> (None, cache)
      | None \<Rightarrow> (Some f, cache(path \<mapsto> f)))"

definition load_file_from_filecache ::
    "os_maps \<Rightarrow> file_system \<Rightarrow> string \<Rightarrow> file_cache \<Rightarrow> mapped_file option \<times> file_cache" where
  "load_file_from_filecache os fs path cache =
     (case find_file_from_filecache path cache of
        None \<Rightarrow>
          (case insert_file_into_filecache os fs path cache of
             (None, cache1) \<Rightarrow> (None, cache1)
           | (Some f, cache1) \<Rightarrow> if \<not> is_mapped f then (None, cache1) else (Some f, cache1))
      | Some f \<Rightarrow>
          if \<not> is_mapped f then
            (let (ok, f1) = map_file os fs (Some path) f; cache1 = cache(path \<mapsto> f1) in
             if \<not> ok then (None, cache1) else (Some f1, cache1))
          else (Some f, cache))"

section \<open>What the cache promises\<close>

text \<open>
  What is documented of the system calls: a regular, readable, non-empty file can be opened,
  its size is the number of its bytes, and the mapping shows its bytes; an object that cannot be
  mapped (a directory, an empty file) makes \<open>mmap\<close> fail; a path that does not exist cannot be
  opened.
\<close>

definition maps_regular :: "os_maps \<Rightarrow> file_system \<Rightarrow> bool" where
  "maps_regular os fs \<longleftrightarrow>
     (\<forall>path content. fs path = Some content \<longrightarrow> content \<noteq> [] \<longrightarrow> length content < 2 ^ 64 \<longrightarrow>
        open_ret os fs path \<and> fstat_ret os fs path = Some (of_nat (length content))
        \<and> mmap_ret os fs path (of_nat (length content)) = Mapped content)"

definition mmap_refused :: "os_maps \<Rightarrow> file_system \<Rightarrow> string \<Rightarrow> u64 \<Rightarrow> bool" where
  "mmap_refused os fs path n \<longleftrightarrow>
     open_ret os fs path \<and> fstat_ret os fs path = Some n \<and> mmap_ret os fs path n = MapFailed"

text \<open>A loaded file whose length is the number of its mapped bytes.\<close>

definition file_shows :: "mapped_file \<Rightarrow> string \<Rightarrow> bool" where
  "file_shows f content \<longleftrightarrow> mf_data f = Mapped content \<and> mf_data_len f = of_nat (length content)"

lemma print_file_shows:
  assumes "file_shows f content" "length content < 2 ^ 64"
  shows "print_mapped_file f = Inr content"
  using assms by (simp add: print_mapped_file_def read_mapping_def file_shows_def unsigned_of_nat take_bit_nat_eq_self)

lemma map_file_regular:
  assumes "maps_regular os fs" "fs (c_str path) = Some content" "content \<noteq> []" "length content < 2 ^ 64"
  shows "map_file os fs (Some path) f =
    (True, f\<lparr>mf_data_len := of_nat (length content), mf_data := Mapped content\<rparr>)"
  using assms by (simp add: maps_regular_def map_file_def Let_def)

lemma map_file_closed: "\<not> open_ret os fs (c_str path) \<Longrightarrow> map_file os fs (Some path) f = (False, f)"
  by (simp add: map_file_def Let_def)

lemma load_hit:
  "cache path = Some f \<Longrightarrow> is_mapped f \<Longrightarrow> load_file_from_filecache os fs path cache = (Some f, cache)"
  by (simp add: load_file_from_filecache_def find_file_from_filecache_def)

lemma load_regular:
  assumes "maps_regular os fs" "fs (c_str path) = Some content" "content \<noteq> []" "length content < 2 ^ 64"
    and "case cache path of None \<Rightarrow> True | Some f \<Rightarrow> \<not> is_mapped f"
  shows "\<exists>f. load_file_from_filecache os fs path cache = (Some f, cache(path \<mapsto> f)) \<and> file_shows f content"
  using assms(5)
  by (auto simp: load_file_from_filecache_def find_file_from_filecache_def Let_def file_shows_def
      insert_file_into_filecache_def new_mapped_file_def map_file_regular [OF assms(1-4)]
      is_mapped_def get_data_def split: option.splits)

lemma load_refused:
  assumes "mmap_refused os fs (c_str path) n" "cache path = None"
  shows "load_file_from_filecache os fs path cache =
    (Some \<lparr>mf_data = MapFailed, mf_data_len = n\<rparr>, cache(path \<mapsto> \<lparr>mf_data = MapFailed, mf_data_len = n\<rparr>))"
  using assms
  by (simp add: load_file_from_filecache_def find_file_from_filecache_def mmap_refused_def map_file_def
      insert_file_into_filecache_def new_mapped_file_def is_mapped_def get_data_def Let_def)

lemma load_result_mapped:
  "load_file_from_filecache os fs path cache = (Some f, cache') \<Longrightarrow>
   (\<And>p n. mmap_ret os fs p n \<noteq> NullPtr) \<Longrightarrow> is_mapped f \<and> cache' path = Some f"
  by (auto simp: load_file_from_filecache_def find_file_from_filecache_def Let_def map_file_def
      insert_file_into_filecache_def is_mapped_def get_data_def split: option.splits if_splits)

lemma load_frame:
  "load_file_from_filecache os fs path cache = (r, cache') \<Longrightarrow> q \<noteq> path \<Longrightarrow> cache' q = cache q"
  by (auto simp: load_file_from_filecache_def find_file_from_filecache_def Let_def
      insert_file_into_filecache_def split: option.splits if_splits prod.splits)

section \<open>The contract of a file loader\<close>

text \<open>
  What the handlers rely on: a cached file is returned as it is, a servable file that is not
  cached is loaded and cached, and loading one path does not disturb the others.
\<close>

locale file_loader =
  fixes load :: "file_system \<Rightarrow> string \<Rightarrow> 'c \<Rightarrow> 'f option \<times> 'c"
    and shows_content :: "'f \<Rightarrow> string \<Rightarrow> bool"
    and cached :: "'c \<Rightarrow> string \<Rightarrow> 'f option"
    and servable :: "file_system \<Rightarrow> string \<Rightarrow> string \<Rightarrow> bool"
  assumes load_cached: "cached c path = Some f \<Longrightarrow> load fs path c = (Some f, c)"
    and load_fresh: "cached c path = None \<Longrightarrow> servable fs path content \<Longrightarrow>
      \<exists>f c'. load fs path c = (Some f, c') \<and> shows_content f content \<and> cached c' path = Some f"
    and load_other: "load fs path c = (r, c') \<Longrightarrow> q \<noteq> path \<Longrightarrow> cached c' q = cached c q"
begin

text \<open>The cache after a sequence of loads, each in the file system of its moment.\<close>

definition after_loads :: "(file_system \<times> string) list \<Rightarrow> 'c \<Rightarrow> 'c" where
  "after_loads reqs c = fold (\<lambda>(fs, path) c. snd (load fs path c)) reqs c"

lemma cached_stays:
  assumes "cached c path = Some f"
  shows "cached (after_loads reqs c) path = Some f"
  using assms
proof (induction reqs arbitrary: c)
  case Nil
  then show ?case by (simp add: after_loads_def)
next
  case (Cons req reqs)
  obtain fs q where req: "req = (fs, q)" by fastforce
  have "cached (snd (load fs q c)) path = Some f"
    using Cons.prems load_cached [OF Cons.prems] load_other [of fs q c "fst (load fs q c)"]
    by (cases "q = path") auto
  from Cons.IH [OF this] show ?case by (simp add: after_loads_def req)
qed

end

definition cached_file :: "file_cache \<Rightarrow> string \<Rightarrow> mapped_file option" where
  "cached_file cache path =
     (case cache path of None \<Rightarrow> None | Some f \<Rightarrow> if is_mapped f then Some f else None)"

definition servable :: "os_maps \<Rightarrow> file_system \<Rightarrow> string \<Rightarrow> string \<Rightarrow> bool" where
  "servable os fs path content \<longleftrightarrow>
     maps_regular os fs \<and> fs (c_str path) = Some content \<and> length content < 2 ^ 64"

interpretation fc: file_loader "load_file_from_filecache os" file_shows cached_file
  "\<lambda>fs path content. servable os fs path content \<and> content \<noteq> []" for os
proof unfold_locales
  fix c :: file_cache and path f fs
  assume "cached_file c path = Some f"
  then show "load_file_from_filecache os fs path c = (Some f, c)"
    by (auto simp: cached_file_def intro: load_hit split: option.splits if_splits)
next
  fix c :: file_cache and path fs content
  assume "cached_file c path = None" "servable os fs path content \<and> content \<noteq> []"
  with load_regular [of os fs path content c] show "\<exists>f c'. load_file_from_filecache os fs path c = (Some f, c')
      \<and> file_shows f content \<and> cached_file c' path = Some f"
    by (fastforce simp: cached_file_def servable_def file_shows_def is_mapped_def get_data_def
        split: option.splits if_splits)
next
  fix fs path r q and c c' :: file_cache
  assume "load_file_from_filecache os fs path c = (r, c')" "q \<noteq> path"
  then show "cached_file c' q = cached_file c q" by (simp add: cached_file_def load_frame)
qed

text \<open>A servable file is always loaded: mapped now, or found mapped.\<close>

lemma load_some:
  assumes "servable os fs path content" "content \<noteq> []"
  shows "\<exists>f cache'. load_file_from_filecache os fs path cache = (Some f, cache')
    \<and> (cache path = None \<longrightarrow> cache' path = Some f \<and> file_shows f content)"
proof (cases "case cache path of None \<Rightarrow> True | Some f \<Rightarrow> \<not> is_mapped f")
  case True
  with load_regular [of os fs path content cache] assms show ?thesis by (auto simp: servable_def)
next
  case False
  then obtain f where "cache path = Some f" "is_mapped f" by (auto split: option.splits)
  with load_hit [of cache path f os fs] show ?thesis by auto
qed

section \<open>Properties\<close>

definition demo_maps :: os_maps where
  "demo_maps = \<lparr>open_ret = (\<lambda>fs path. fs path \<noteq> None \<or> path = ''..''),
     fstat_ret = (\<lambda>fs path. case fs path of None \<Rightarrow> Some 4096 | Some c \<Rightarrow> Some (of_nat (length c))),
     mmap_ret = (\<lambda>fs path n. case fs path of None \<Rightarrow> MapFailed
        | Some c \<Rightarrow> if c = [] then MapFailed else Mapped c)\<rparr>"

lemma demo_maps_regular: "maps_regular demo_maps fs"
  by (simp add: maps_regular_def demo_maps_def)

definition run_loads ::
    "os_maps \<Rightarrow> (file_system \<times> string) list \<Rightarrow> file_cache \<Rightarrow> file_cache" where
  "run_loads os reqs cache =
     fold (\<lambda>(fs, path) c. snd (load_file_from_filecache os fs path c)) reqs cache"

text \<open>
  C26: the first load of a regular, non-empty file that the cache does not hold mapped yields a
  mapping that shows its bytes of that moment, and from then on every load of that path by the same
  worker yields that same mapping and changes nothing, whatever was loaded in between: the answer
  does not depend on the file system or on any call to it, so a file that was replaced under its
  name, by a new upload for example, is never opened again.
\<close>

theorem cache_keeps_first_mapping:
  assumes "maps_regular os fs" "fs (c_str path) = Some content" "content \<noteq> []"
    and "length content < 2 ^ 64" "case cache path of None \<Rightarrow> True | Some f \<Rightarrow> \<not> is_mapped f"
  shows "\<exists>f cache'. load_file_from_filecache os fs path cache = (Some f, cache')
    \<and> file_shows f content
    \<and> (\<forall>reqs os' fs'. load_file_from_filecache os' fs' path (run_loads os reqs cache') = (Some f, run_loads os reqs cache'))"
proof -
  from load_regular [of os fs path content cache] assms obtain f where
    f: "load_file_from_filecache os fs path cache = (Some f, cache(path \<mapsto> f))" "file_shows f content" by blast
  have "cached_file (cache(path \<mapsto> f)) path = Some f"
    using f(2) by (simp add: cached_file_def file_shows_def is_mapped_def get_data_def)
  from fc.cached_stays [OF this, of os] have "cached_file (run_loads os reqs (cache(path \<mapsto> f))) path = Some f" for reqs
    by (simp add: run_loads_def fc.after_loads_def)
  with f fc.load_cached show ?thesis by blast
qed

theorem cache_keeps_first_mapping_witness:
  "\<exists>f cache'. load_file_from_filecache demo_maps [''a'' \<mapsto> ''old''] ''a'' Map.empty = (Some f, cache')
    \<and> file_shows f ''old''
    \<and> fst (load_file_from_filecache demo_maps [''a'' \<mapsto> ''new''] ''a''
        (run_loads demo_maps [([''b'' \<mapsto> ''c''], ''b'')] cache')) = Some f"
  using cache_keeps_first_mapping [OF demo_maps_regular, of "[''a'' \<mapsto> ''old'']" "''a''" "''old''" Map.empty]
  by (force simp: c_str_def)

lemma load_missing:
  assumes "cache path = None" "\<not> open_ret os fs (c_str path)"
  shows "load_file_from_filecache os fs path cache = (None, cache(path \<mapsto> \<lparr>mf_data = NullPtr, mf_data_len = 0\<rparr>))"
  using assms(1) by (simp add: load_file_from_filecache_def find_file_from_filecache_def
      insert_file_into_filecache_def new_mapped_file_def map_file_closed [OF assms(2)]
      is_mapped_def get_data_def Let_def)

text \<open>
  A path that cannot be opened is answered with no file, and remembered only as an unmapped
  entry: once the file exists, the next load maps it.
\<close>

theorem missing_file_is_retried:
  assumes "cache path = None" "\<not> open_ret os fs (c_str path)"
    and "maps_regular os fs'" "fs' (c_str path) = Some content" "content \<noteq> []" "length content < 2 ^ 64"
  shows "\<exists>cache' f cache''. load_file_from_filecache os fs path cache = (None, cache')
    \<and> load_file_from_filecache os fs' path cache' = (Some f, cache'') \<and> file_shows f content"
proof -
  let ?f0 = "\<lparr>mf_data = NullPtr, mf_data_len = 0\<rparr> :: mapped_file"
  have "load_file_from_filecache os fs path cache = (None, cache(path \<mapsto> ?f0))"
    using assms(1,2) by (rule load_missing)
  moreover have "case (cache(path \<mapsto> ?f0)) path of None \<Rightarrow> True | Some f \<Rightarrow> \<not> is_mapped f"
    by (simp add: is_mapped_def get_data_def)
  ultimately show ?thesis using load_regular [OF assms(3-6)] by blast
qed

theorem missing_file_is_retried_witness:
  "\<exists>cache' f cache''. load_file_from_filecache demo_maps Map.empty ''a'' Map.empty = (None, cache')
    \<and> load_file_from_filecache demo_maps [''a'' \<mapsto> ''x''] ''a'' cache' = (Some f, cache'')
    \<and> file_shows f ''x''"
  using missing_file_is_retried [OF _ _ demo_maps_regular, of Map.empty "''a''" Map.empty
      "[''a'' \<mapsto> ''x'']" "''x''"]
  by (simp add: c_str_def demo_maps_def)

text \<open>
  When \<open>mmap\<close> refuses a path (a directory such as \<open>..\<close>, an empty file), the loader does not
  report a failure: it returns a file whose data pointer is \<open>MAP_FAILED\<close>, with the size that
  \<open>fstat\<close> gave, and keeps doing so.
\<close>

theorem mmap_failure_passes_as_mapped:
  assumes "cache path = None" "mmap_refused os fs (c_str path) n"
  shows "\<exists>f cache'. load_file_from_filecache os fs path cache = (Some f, cache')
    \<and> mf_data f = MapFailed \<and> mf_data_len f = n \<and> is_mapped f
    \<and> (\<forall>os' fs'. load_file_from_filecache os' fs' path cache' = (Some f, cache'))"
proof -
  let ?f = "\<lparr>mf_data = MapFailed, mf_data_len = n\<rparr> :: mapped_file"
  have m: "is_mapped ?f" by (simp add: is_mapped_def get_data_def)
  have "load_file_from_filecache os fs path cache = (Some ?f, cache(path \<mapsto> ?f))"
    using assms(2,1) by (rule load_refused)
  moreover have "load_file_from_filecache os' fs' path (cache(path \<mapsto> ?f)) = (Some ?f, cache(path \<mapsto> ?f))"
    for os' fs' using m by (intro load_hit) simp_all
  ultimately show ?thesis using m by fastforce
qed

theorem mmap_failure_passes_as_mapped_witness:
  "\<exists>f cache'. load_file_from_filecache demo_maps Map.empty ''..'' Map.empty = (Some f, cache')
    \<and> mf_data f = MapFailed \<and> mf_data_len f = 4096"
  using mmap_failure_passes_as_mapped [of Map.empty "''..''" demo_maps Map.empty 4096]
  by (auto simp: mmap_refused_def demo_maps_def c_str_def)

end
