(* ===== verification/Session.thy ===== *)
theory Session
  imports Router File_Cache
begin

text \<open>
  The HTTP/2 session layer (\<open>session.h\<close>, \<open>session.cc\<close>): the per-stream and per-connection data,
  the callbacks that nghttp2 invokes, the replies. The nghttp2 library is the parameter \<open>ng\<close>, a
  record of the functions that the sources call on an opaque session state \<open>'n\<close>; what is used of
  its documentation is the predicate \<open>ng_laws\<close>. A library call that runs callbacks is a value of
  \<open>lib_call\<close>: it asks for a callback, gets the callback's result and the session state that the
  callback left behind, and goes on, until it returns. A \<open>StreamData*\<close> is an address; the owning
  list of a session maps the addresses of its live streams to their contents, and using an address
  outside of it is the fault \<open>DanglingPointer\<close>.
\<close>

section \<open>The nghttp2 interface\<close>

type_synonym addr = nat

datatype frame_type = DATA_FRAME | HEADERS_FRAME | GOAWAY_FRAME | OTHER_FRAME

datatype headers_category = HCAT_REQUEST | HCAT_OTHER

record ng_frame =
  hd_type :: frame_type
  hd_flags :: u8
  hd_stream_id :: u32
  hd_cat :: headers_category

text \<open>The callbacks that \<open>init_session_data\<close> registers, with the arguments they use.\<close>

datatype ng_callback =
    OnFrameRecv ng_frame
  | OnStreamClose u32
  | OnHeader ng_frame string string
  | OnBeginHeaders ng_frame
  | OnDataChunkRecv u32 string

text \<open>
  A data provider: the file context of a stream, or the error page. A read asks for at most a
  number of bytes and answers the returned length, the bytes and the \<open>EOF\<close> flag.
\<close>

datatype data_provider = FileProvider addr | ErrorProvider

datatype data_read = DataRead data_provider u64

type_synonym data_answer = "int \<times> string \<times> bool"

text \<open>
  Sending runs callbacks as well: it reads data providers, and a stream whose last frame has been
  sent is closed.
\<close>

datatype send_callback = OnDataRead data_read | OnSentStreamClose u32

type_synonym send_answer = "data_answer + int"

datatype ('q, 'r, 'n, 'a) lib_call =
    LibReturn 'a 'n
  | LibCallback 'q 'n "'r \<Rightarrow> 'n \<Rightarrow> ('q, 'r, 'n, 'a) lib_call"

type_synonym header_list = "(string \<times> string) list"

record 'n nghttp2 =
  ng_get_stream_user_data :: "'n \<Rightarrow> u32 \<Rightarrow> addr option"
  ng_set_stream_user_data :: "'n \<Rightarrow> u32 \<Rightarrow> addr \<Rightarrow> 'n"
  ng_submit_response :: "'n \<Rightarrow> u32 \<Rightarrow> header_list \<Rightarrow> data_provider option \<Rightarrow> int \<times> 'n"
  ng_last_proc_stream_id :: "'n \<Rightarrow> u32"
  ng_submit_goaway :: "'n \<Rightarrow> u32 \<Rightarrow> 'n"
  ng_submit_settings :: "'n \<Rightarrow> (nat \<times> nat) list \<Rightarrow> int \<times> 'n"
  ng_want_read :: "'n \<Rightarrow> bool"
  ng_want_write :: "'n \<Rightarrow> bool"
  ng_callbacks_new :: int
  ng_server_new :: "int \<times> 'n"
  ng_mem_recv :: "'n \<Rightarrow> string \<Rightarrow> (ng_callback, int, 'n, int) lib_call"
  ng_mem_send :: "'n \<Rightarrow> (send_callback, send_answer, 'n, int \<times> string) lib_call"

definition NGHTTP2_FLAG_END_STREAM :: u8 where "NGHTTP2_FLAG_END_STREAM = 1"
definition NGHTTP2_ERR_TEMPORAL_CALLBACK_FAILURE :: int where "NGHTTP2_ERR_TEMPORAL_CALLBACK_FAILURE = - 521"
definition NGHTTP2_ERR_CALLBACK_FAILURE :: int where "NGHTTP2_ERR_CALLBACK_FAILURE = - 902"
definition NGHTTP2_SETTINGS_MAX_CONCURRENT_STREAMS :: nat where
  "NGHTTP2_SETTINGS_MAX_CONCURRENT_STREAMS = 3"

section \<open>Streams and sessions\<close>

datatype session_state = CONNECTING | DISCONNECTING | TLS_HANDSHAKING | ESTABLISHING | ESTABLISHED

text \<open>
  The constructor of \<open>StreamData\<close> does not initialise \<open>method\<close>: \<open>None\<close> is the indeterminate
  value.
\<close>

record stream_data =
  st_stream_id :: u32
  st_method :: "METHOD option"
  st_request_path :: string
  st_file_ctx :: file_context
  st_mime_parser :: "form_parser option"
  st_upload_file_buffer :: string

record ('n, 'h, 'l) session_data =
  sd_router :: "'h router_node option"
  sd_streams :: "(addr \<times> stream_data) list"
  sd_session :: "'n option"
  sd_output_buffer :: string
  sd_input_buffer :: string
  sd_events :: u32
  sd_state :: session_state
  sd_ssl :: "'l option"
  sd_is_closed :: bool

text \<open>
  What a callback can change: the session, the cache of the worker thread and the file system;
  and what the host system decides: the calls on files, the address and thread id as printed.
\<close>

record ('n, 'h, 'l) req_context =
  cx_session :: "('n, 'h, 'l) session_data"
  cx_cache :: file_cache
  cx_fs :: file_system

record host =
  ho_files :: os_files
  ho_maps :: os_maps
  ho_addr :: "addr \<Rightarrow> string"
  ho_tid :: string

definition new_stream_data :: "u32 \<Rightarrow> stream_data" where
  "new_stream_data i = \<lparr>st_stream_id = i, st_method = None, st_request_path = [],
     st_file_ctx = new_file_context, st_mime_parser = None, st_upload_file_buffer = []\<rparr>"

definition new_session_data :: "('n, 'h, 'l) session_data" where
  "new_session_data = \<lparr>sd_router = None, sd_streams = [], sd_session = None,
     sd_output_buffer = [], sd_input_buffer = [], sd_events = 0, sd_state = CONNECTING,
     sd_ssl = None, sd_is_closed = False\<rparr>"

text \<open>\<open>close_session\<close>; the flag says whether \<open>SSL_shutdown\<close> was called.\<close>

definition close_session :: "('n, 'h, 'l) session_data \<Rightarrow> bool \<times> ('n, 'h, 'l) session_data" where
  "close_session sd =
     (if sd_is_closed sd then (False, sd)
      else (sd_ssl sd \<noteq> None, sd\<lparr>sd_is_closed := True\<rparr>))"

definition append_to_output_buffer ::
    "string \<Rightarrow> ('n, 'h, 'l) session_data \<Rightarrow> ('n, 'h, 'l) session_data" where
  "append_to_output_buffer data sd = sd\<lparr>sd_output_buffer := sd_output_buffer sd @ data\<rparr>"

definition append_to_input_buffer ::
    "string \<Rightarrow> ('n, 'h, 'l) session_data \<Rightarrow> ('n, 'h, 'l) session_data" where
  "append_to_input_buffer data sd = sd\<lparr>sd_input_buffer := sd_input_buffer sd @ data\<rparr>"

text \<open>Erasing past the end of a vector is undefined.\<close>

definition consume_output_buffer ::
    "nat \<Rightarrow> ('n, 'h, 'l) session_data \<Rightarrow> ('n, 'h, 'l) session_data outcome" where
  "consume_output_buffer n sd =
     (if n \<le> length (sd_output_buffer sd)
      then Inr (sd\<lparr>sd_output_buffer := drop n (sd_output_buffer sd)\<rparr>) else Inl OutOfBounds)"

definition consume_input_buffer ::
    "nat \<Rightarrow> ('n, 'h, 'l) session_data \<Rightarrow> ('n, 'h, 'l) session_data outcome" where
  "consume_input_buffer n sd =
     (if n \<le> length (sd_input_buffer sd)
      then Inr (sd\<lparr>sd_input_buffer := drop n (sd_input_buffer sd)\<rparr>) else Inl OutOfBounds)"

text \<open>Reading and writing through a \<open>StreamData*\<close>, and using the nghttp2 session.\<close>

definition deref_stream :: "addr \<Rightarrow> ('n, 'h, 'l) session_data \<Rightarrow> stream_data outcome" where
  "deref_stream p sd =
     (case map_of (sd_streams sd) p of None \<Rightarrow> Inl DanglingPointer | Some st \<Rightarrow> Inr st)"

definition store_stream ::
    "addr \<Rightarrow> stream_data \<Rightarrow> ('n, 'h, 'l) session_data \<Rightarrow> ('n, 'h, 'l) session_data" where
  "store_stream p st sd = sd\<lparr>sd_streams := AList.update p st (sd_streams sd)\<rparr>"

definition deref_session :: "('n, 'h, 'l) session_data \<Rightarrow> 'n outcome" where
  "deref_session sd = (case sd_session sd of None \<Rightarrow> Inl NullDeref | Some n \<Rightarrow> Inr n)"

definition stream_user_data ::
    "'n nghttp2 \<Rightarrow> u32 \<Rightarrow> ('n, 'h, 'l) session_data \<Rightarrow> addr option outcome" where
  "stream_user_data ng i sd = obind (deref_session sd) (\<lambda>n. Inr (ng_get_stream_user_data ng n i))"

text \<open>The allocator returns an address that no live stream of the session has.\<close>

definition fresh_addr :: "('n, 'h, 'l) session_data \<Rightarrow> addr" where
  "fresh_addr sd = Suc (fold max (map fst (sd_streams sd)) 0)"

text \<open>Destroying a parser, and a stream, publishes the temporary files that are pending.\<close>

definition destroy_parser :: "host \<Rightarrow> form_parser option \<Rightarrow> file_system \<Rightarrow> file_system" where
  "destroy_parser ho p fs =
     (case p of None \<Rightarrow> fs | Some mp \<Rightarrow> rename_temporary_filenames (ho_files ho) mp fs)"

definition delete_stream_data ::
    "host \<Rightarrow> addr \<Rightarrow> ('n, 'h, 'l) req_context \<Rightarrow> ('n, 'h, 'l) req_context" where
  "delete_stream_data ho p cx =
     (case map_of (sd_streams (cx_session cx)) p of
        None \<Rightarrow> cx
      | Some st \<Rightarrow>
          cx\<lparr>cx_session := (cx_session cx)\<lparr>sd_streams := AList.delete p (sd_streams (cx_session cx))\<rparr>,
             cx_fs := destroy_parser ho (st_mime_parser st) (cx_fs cx)\<rparr>)"

definition create_stream_data :: "u32 \<Rightarrow> stream_data" where
  "create_stream_data i = new_stream_data i"

definition add_stream_data_to_session ::
    "'n nghttp2 \<Rightarrow> stream_data \<Rightarrow> ('n, 'h, 'l) session_data \<Rightarrow> ('n, 'h, 'l) session_data outcome" where
  "add_stream_data_to_session ng st sd =
     obind (deref_session sd) (\<lambda>n.
       let p = fresh_addr sd in
       Inr (sd\<lparr>sd_session := Some (ng_set_stream_user_data ng n (st_stream_id st) p),
               sd_streams := sd_streams sd @ [(p, st)]\<rparr>))"

section \<open>Replies\<close>

definition ERROR_HTML :: string where
  "ERROR_HTML = ''<html><head><title>404</title></head><body><h1>404 Not Found</h1></body></html>''"

text \<open>
  \<open>file_read_callback\<close>, on the file context that the source points to (\<open>None\<close> is the null pointer): the
  remaining length is computed in \<open>size_t\<close> from an \<open>int\<close> offset, which is sign-extended, and the new
  offset is converted back to \<open>int\<close>.
\<close>

definition file_read_callback ::
    "u64 \<Rightarrow> file_context option \<Rightarrow> (data_answer \<times> file_context option) outcome" where
  "file_read_callback len source =
     (case source of
        None \<Rightarrow> Inr ((NGHTTP2_ERR_TEMPORAL_CALLBACK_FAILURE, [], False), None)
      | Some ctx \<Rightarrow>
          let remain_len = ctx_size ctx - (scast (ctx_offset ctx) :: u64);
              copy_len = min len remain_len
          in obind (read_mapping (ctx_data ctx) (sint (ctx_offset ctx)) (unat copy_len)) (\<lambda>bytes.
               let offset' = ucast ((scast (ctx_offset ctx) :: u64) + copy_len) :: 32 word
               in Inr ((int (unat copy_len), bytes, (scast offset' :: u64) = ctx_size ctx),
                       Some (ctx\<lparr>ctx_offset := offset'\<rparr>))))"

definition error_read_callback :: "u64 \<Rightarrow> data_answer" where
  "error_read_callback len =
     (let copy_len = min (unat len) (length ERROR_HTML)
      in (int copy_len, take (min (unat len) copy_len) ERROR_HTML, True))"

text \<open>
  The reads of a queued response when nghttp2 serialises its DATA frames; the source of a file is the
  address of the context inside its stream.
\<close>

definition data_read_callback ::
    "data_read \<Rightarrow> ('n, 'h, 'l) session_data \<Rightarrow> (data_answer \<times> ('n, 'h, 'l) session_data) outcome" where
  "data_read_callback r sd =
     (case r of
        DataRead (FileProvider p) len \<Rightarrow>
          obind (deref_stream p sd) (\<lambda>st.
            obind (file_read_callback len (Some (st_file_ctx st))) (\<lambda>(ans, source).
              Inr (ans, case source of None \<Rightarrow> sd | Some ctx \<Rightarrow> store_stream p (st\<lparr>st_file_ctx := ctx\<rparr>) sd)))
      | DataRead ErrorProvider len \<Rightarrow> Inr (error_read_callback len, sd))"

definition submit ::
    "'n nghttp2 \<Rightarrow> addr \<Rightarrow> header_list \<Rightarrow> data_provider option \<Rightarrow> ('n, 'h, 'l) session_data
      \<Rightarrow> (int \<times> ('n, 'h, 'l) session_data) outcome" where
  "submit ng p hdrs prd sd =
     obind (deref_session sd) (\<lambda>n. obind (deref_stream p sd) (\<lambda>st.
       let (rv, n') = ng_submit_response ng n (st_stream_id st) hdrs prd
       in Inr (rv, sd\<lparr>sd_session := Some n'\<rparr>)))"

definition send_response ::
    "'n nghttp2 \<Rightarrow> addr \<Rightarrow> header_list \<Rightarrow> ('n, 'h, 'l) session_data
      \<Rightarrow> (int \<times> ('n, 'h, 'l) session_data) outcome" where
  "send_response ng p hdrs sd =
     obind (submit ng p hdrs (Some (FileProvider p)) sd) (\<lambda>(rv, sd').
       Inr (if rv \<noteq> 0 then - 1 else 0, sd'))"

definition error_reply ::
    "'n nghttp2 \<Rightarrow> addr \<Rightarrow> ('n, 'h, 'l) session_data \<Rightarrow> (int \<times> ('n, 'h, 'l) session_data) outcome" where
  "error_reply ng p sd =
     obind (submit ng p [('':status'', ''404'')] (Some ErrorProvider) sd) (\<lambda>(rv, sd').
       Inr (if rv \<noteq> 0 then - 1 else 0, sd'))"

definition reply_ok ::
    "'n nghttp2 \<Rightarrow> addr \<Rightarrow> ('n, 'h, 'l) session_data \<Rightarrow> (int \<times> ('n, 'h, 'l) session_data) outcome" where
  "reply_ok ng p sd =
     obind (submit ng p [('':status'', ''200'')] None sd) (\<lambda>(rv, sd').
       Inr (if rv \<noteq> 0 then NGHTTP2_ERR_CALLBACK_FAILURE else 0, sd'))"

definition reply_ok_with_file ::
    "'n nghttp2 \<Rightarrow> addr \<Rightarrow> ('n, 'h, 'l) session_data \<Rightarrow> (int \<times> ('n, 'h, 'l) session_data) outcome" where
  "reply_ok_with_file ng p sd =
     obind (send_response ng p [('':status'', ''200'')] sd) (\<lambda>(rv, sd').
       Inr (if rv < 0 then NGHTTP2_ERR_CALLBACK_FAILURE else 0, sd'))"

definition reply_404 ::
    "'n nghttp2 \<Rightarrow> addr \<Rightarrow> ('n, 'h, 'l) session_data \<Rightarrow> (int \<times> ('n, 'h, 'l) session_data) outcome" where
  "reply_404 ng p sd =
     obind (error_reply ng p sd) (\<lambda>(rv, sd').
       Inr (if rv \<noteq> 0 then NGHTTP2_ERR_CALLBACK_FAILURE else 0, sd'))"

text \<open>The destructor of \<open>Request\<close>, through \<open>clear_upload_file_buffer\<close>.\<close>

definition clear_upload_file_buffer ::
    "addr \<Rightarrow> ('n, 'h, 'l) session_data \<Rightarrow> ('n, 'h, 'l) session_data outcome" where
  "clear_upload_file_buffer p sd =
     obind (deref_stream p sd) (\<lambda>st.
       Inr (if st_upload_file_buffer st \<noteq> [] then store_stream p (st\<lparr>st_upload_file_buffer := []\<rparr>) sd
            else sd))"

section \<open>Callbacks\<close>

text \<open>A handler works on the stream of a request and the parameter that the router captured.\<close>

type_synonym ('n, 'h, 'l) handler_call =
  "'h \<Rightarrow> addr \<Rightarrow> string \<Rightarrow> ('n, 'h, 'l) req_context \<Rightarrow> (int \<times> ('n, 'h, 'l) req_context) outcome"

definition on_request_recv ::
    "'n nghttp2 \<Rightarrow> ('n, 'h, 'l) handler_call \<Rightarrow> addr \<Rightarrow> ('n, 'h, 'l) req_context
      \<Rightarrow> (int \<times> ('n, 'h, 'l) req_context) outcome" where
  "on_request_recv ng call p cx =
     (case sd_router (cx_session cx) of
        None \<Rightarrow> Inr (NGHTTP2_ERR_CALLBACK_FAILURE, cx)
      | Some root \<Rightarrow>
          obind (deref_stream p (cx_session cx)) (\<lambda>st.
            case st_method st of
              None \<Rightarrow> Inl Uninitialised
            | Some m \<Rightarrow>
                obind (router_resolve m (st_request_path st) root) (\<lambda>(handler, param).
                  obind
                    (case handler of
                       Some h \<Rightarrow> call h p param cx
                     | None \<Rightarrow> obind (reply_404 ng p (cx_session cx)) (\<lambda>(rv, sd). Inr (rv, cx\<lparr>cx_session := sd\<rparr>)))
                    (\<lambda>(rv, cx').
                       obind (clear_upload_file_buffer p (cx_session cx')) (\<lambda>sd.
                         Inr (rv, cx'\<lparr>cx_session := sd\<rparr>))))))"

definition on_frame_recv_callback ::
    "'n nghttp2 \<Rightarrow> ('n, 'h, 'l) handler_call \<Rightarrow> ng_frame \<Rightarrow> ('n, 'h, 'l) req_context
      \<Rightarrow> (int \<times> ('n, 'h, 'l) req_context) outcome" where
  "on_frame_recv_callback ng call frame cx =
     (let sd = cx_session cx in
      if hd_type frame = HEADERS_FRAME \<or> hd_type frame = DATA_FRAME then
        if and (hd_flags frame) NGHTTP2_FLAG_END_STREAM \<noteq> 0 then
          obind (stream_user_data ng (hd_stream_id frame) sd) (\<lambda>u.
            case u of None \<Rightarrow> Inr (0, cx) | Some p \<Rightarrow> on_request_recv ng call p cx)
        else Inr (0, cx)
      else if hd_type frame = GOAWAY_FRAME then
        obind (deref_session sd) (\<lambda>n.
          Inr (0, cx\<lparr>cx_session :=
            sd\<lparr>sd_session := Some (ng_submit_goaway ng n (ng_last_proc_stream_id ng n)),
               sd_state := DISCONNECTING\<rparr>\<rparr>))
      else Inr (0, cx))"

definition on_stream_close_callback ::
    "host \<Rightarrow> 'n nghttp2 \<Rightarrow> u32 \<Rightarrow> ('n, 'h, 'l) req_context \<Rightarrow> (int \<times> ('n, 'h, 'l) req_context) outcome" where
  "on_stream_close_callback ho ng i cx =
     obind (stream_user_data ng i (cx_session cx)) (\<lambda>u.
       case u of None \<Rightarrow> Inr (0, cx) | Some p \<Rightarrow> Inr (0, delete_stream_data ho p cx))"

definition set_method ::
    "host \<Rightarrow> string \<Rightarrow> stream_data \<Rightarrow> file_system \<Rightarrow> stream_data \<times> file_system" where
  "set_method ho v st fs =
     (if v = ''GET'' then (st\<lparr>st_method := Some GET\<rparr>, fs)
      else if v = ''POST'' then
        (st\<lparr>st_method := Some POST, st_mime_parser := Some new_parser\<rparr>,
         destroy_parser ho (st_mime_parser st) fs)
      else (st, fs))"

definition set_content_type :: "string \<Rightarrow> stream_data \<Rightarrow> stream_data" where
  "set_content_type v st =
     (case st_mime_parser st of
        None \<Rightarrow> st
      | Some mp \<Rightarrow> st\<lparr>st_mime_parser := Some (snd (extract_boundary v mp))\<rparr>)"

definition update_stream ::
    "'n nghttp2 \<Rightarrow> u32 \<Rightarrow> (stream_data \<Rightarrow> file_system \<Rightarrow> stream_data \<times> file_system)
      \<Rightarrow> ('n, 'h, 'l) req_context \<Rightarrow> (int \<times> ('n, 'h, 'l) req_context) outcome" where
  "update_stream ng i f cx =
     obind (stream_user_data ng i (cx_session cx)) (\<lambda>u.
       case u of
         None \<Rightarrow> Inr (0, cx)
       | Some p \<Rightarrow>
           obind (deref_stream p (cx_session cx)) (\<lambda>st.
             let (st', fs') = f st (cx_fs cx)
             in Inr (0, cx\<lparr>cx_session := store_stream p st' (cx_session cx), cx_fs := fs'\<rparr>)))"

definition on_header_callback ::
    "host \<Rightarrow> 'n nghttp2 \<Rightarrow> ng_frame \<Rightarrow> string \<Rightarrow> string \<Rightarrow> ('n, 'h, 'l) req_context
      \<Rightarrow> (int \<times> ('n, 'h, 'l) req_context) outcome" where
  "on_header_callback ho ng frame name v cx =
     (if hd_type frame = HEADERS_FRAME \<and> hd_cat frame = HCAT_REQUEST then
        if name = '':path'' then
          update_stream ng (hd_stream_id frame) (\<lambda>st fs. (st\<lparr>st_request_path := v\<rparr>, fs)) cx
        else if name = '':method'' then
          update_stream ng (hd_stream_id frame) (set_method ho v) cx
        else if name = ''content-type'' then
          update_stream ng (hd_stream_id frame) (\<lambda>st fs. (set_content_type v st, fs)) cx
        else Inr (0, cx)
      else Inr (0, cx))"

definition on_begin_headers_callback ::
    "'n nghttp2 \<Rightarrow> ng_frame \<Rightarrow> ('n, 'h, 'l) req_context \<Rightarrow> (int \<times> ('n, 'h, 'l) req_context) outcome" where
  "on_begin_headers_callback ng frame cx =
     (if hd_type frame \<noteq> HEADERS_FRAME \<or> hd_cat frame \<noteq> HCAT_REQUEST then Inr (0, cx)
      else obind (add_stream_data_to_session ng (create_stream_data (hd_stream_id frame)) (cx_session cx))
             (\<lambda>sd. Inr (0, cx\<lparr>cx_session := sd\<rparr>)))"

definition on_data_chunk_recv_callback ::
    "'n nghttp2 \<Rightarrow> u32 \<Rightarrow> string \<Rightarrow> ('n, 'h, 'l) req_context \<Rightarrow> (int \<times> ('n, 'h, 'l) req_context) outcome" where
  "on_data_chunk_recv_callback ng i chunk cx =
     update_stream ng i
       (\<lambda>st fs. (if chunk \<noteq> [] then st\<lparr>st_upload_file_buffer := st_upload_file_buffer st @ chunk\<rparr> else st, fs))
       cx"

definition run_callback ::
    "host \<Rightarrow> 'n nghttp2 \<Rightarrow> ('n, 'h, 'l) handler_call \<Rightarrow> ng_callback \<Rightarrow> ('n, 'h, 'l) req_context
      \<Rightarrow> (int \<times> ('n, 'h, 'l) req_context) outcome" where
  "run_callback ho ng call c cx =
     (case c of
        OnFrameRecv frame \<Rightarrow> on_frame_recv_callback ng call frame cx
      | OnStreamClose i \<Rightarrow> on_stream_close_callback ho ng i cx
      | OnHeader frame name v \<Rightarrow> on_header_callback ho ng frame name v cx
      | OnBeginHeaders frame \<Rightarrow> on_begin_headers_callback ng frame cx
      | OnDataChunkRecv i chunk \<Rightarrow> on_data_chunk_recv_callback ng i chunk cx)"

text \<open>The callbacks that \<open>nghttp2_session_mem_send2\<close> runs.\<close>

definition run_send_callback ::
    "host \<Rightarrow> 'n nghttp2 \<Rightarrow> send_callback \<Rightarrow> ('n, 'h, 'l) req_context
      \<Rightarrow> (send_answer \<times> ('n, 'h, 'l) req_context) outcome" where
  "run_send_callback ho ng c cx =
     (case c of
        OnDataRead r \<Rightarrow>
          obind (data_read_callback r (cx_session cx)) (\<lambda>(ans, sd). Inr (Inl ans, cx\<lparr>cx_session := sd\<rparr>))
      | OnSentStreamClose i \<Rightarrow>
          obind (on_stream_close_callback ho ng i cx) (\<lambda>(rv, cx'). Inr (Inr rv, cx')))"

text \<open>Running a library call, its callbacks included.\<close>

primrec run_lib ::
    "('q \<Rightarrow> ('n, 'h, 'l) req_context \<Rightarrow> ('r \<times> ('n, 'h, 'l) req_context) outcome)
      \<Rightarrow> ('q, 'r, 'n, 'a) lib_call \<Rightarrow> ('n, 'h, 'l) req_context
      \<Rightarrow> ('a \<times> ('n, 'h, 'l) req_context) outcome" where
  "run_lib cb (LibReturn a n) cx = Inr (a, cx\<lparr>cx_session := (cx_session cx)\<lparr>sd_session := Some n\<rparr>\<rparr>)"
| "run_lib cb (LibCallback q n k) cx =
     obind (cb q (cx\<lparr>cx_session := (cx_session cx)\<lparr>sd_session := Some n\<rparr>\<rparr>)) (\<lambda>(r, cx').
       obind (deref_session (cx_session cx')) (\<lambda>n'. run_lib cb (k r n') cx'))"

text \<open>
  \<open>init_session_data\<close>: the callbacks object is released on every path; the result is 0 with a
  session, or -1 with the session as it was.
\<close>

definition init_session_data ::
    "'n nghttp2 \<Rightarrow> ('n, 'h, 'l) session_data \<Rightarrow> int \<times> ('n, 'h, 'l) session_data" where
  "init_session_data ng sd =
     (if ng_callbacks_new ng \<noteq> 0 then (- 1, sd)
      else let (rv, n) = ng_server_new ng in
           if rv \<noteq> 0 then (- 1, sd) else (0, sd\<lparr>sd_session := Some n\<rparr>))"

text \<open>
  The destructor of \<open>SessionData\<close> frees the nghttp2 session and the TLS object; the streams that
  are left die with their list, in its order.
\<close>

definition destroy_session :: "host \<Rightarrow> ('n, 'h, 'l) session_data \<Rightarrow> file_system \<Rightarrow> file_system" where
  "destroy_session ho sd fs = fold (\<lambda>(p, st). destroy_parser ho (st_mime_parser st)) (sd_streams sd) fs"

end
