(* ===== verification/Stream_Life.thy ===== *)
theory Stream_Life
  imports Session
begin

text \<open>
  The life cycle of the streams of a session under the callbacks of nghttp2, in both directions:
  which pointers the library holds, in the user data of a stream and in the data source of a
  response that is being sent, that all of them point to streams of the session that are alive,
  and that the session keeps no stream that the library does not know. The contract between the session layer and the request handlers is a locale.
\<close>

section \<open>What the library holds\<close>

text \<open>
  nghttp2 keeps two things for a stream: its user data, and the data source of its response, which
  the interface does not show; \<open>prov\<close> stands for it. What is documented: user data that is set is
  read back for that stream (or nothing, if the stream does not exist) and disturbs no other
  stream; a response attaches its source to its stream, or is refused; GOAWAY and SETTINGS touch
  neither; a new session holds nothing.
\<close>

type_synonym stream_view = "u32 \<Rightarrow> addr option \<times> data_provider option"

definition view :: "'n nghttp2 \<Rightarrow> ('n \<Rightarrow> u32 \<Rightarrow> data_provider option) \<Rightarrow> 'n \<Rightarrow> stream_view" where
  "view ng prov n i = (ng_get_stream_user_data ng n i, prov n i)"

definition ng_laws :: "'n nghttp2 \<Rightarrow> ('n \<Rightarrow> u32 \<Rightarrow> data_provider option) \<Rightarrow> bool" where
  "ng_laws ng prov \<longleftrightarrow>
     (\<forall>n i p. ng_get_stream_user_data ng (ng_set_stream_user_data ng n i p) i \<in> {None, Some p})
     \<and> (\<forall>n i p j. j \<noteq> i \<longrightarrow>
          ng_get_stream_user_data ng (ng_set_stream_user_data ng n i p) j = ng_get_stream_user_data ng n j)
     \<and> (\<forall>n i p. prov (ng_set_stream_user_data ng n i p) = prov n)
     \<and> (\<forall>n i hdrs prd j.
          ng_get_stream_user_data ng (snd (ng_submit_response ng n i hdrs prd)) j = ng_get_stream_user_data ng n j)
     \<and> (\<forall>n i hdrs prd j. j \<noteq> i \<longrightarrow> prov (snd (ng_submit_response ng n i hdrs prd)) j = prov n j)
     \<and> (\<forall>n i hdrs prd. prov (snd (ng_submit_response ng n i hdrs prd)) i \<in> {prov n i, prd})
     \<and> (\<forall>n i. view ng prov (ng_submit_goaway ng n i) = view ng prov n)
     \<and> (\<forall>n iv. view ng prov (snd (ng_submit_settings ng n iv)) = view ng prov n)
     \<and> (\<forall>i. view ng prov (snd (ng_server_new ng)) i = (None, None))"

text \<open>What the library may do on its own: drop a data source, or a stream with its data source.\<close>

definition forgets :: "stream_view \<Rightarrow> stream_view \<Rightarrow> bool" where
  "forgets v v' \<longleftrightarrow> (\<forall>i. v' i = v i \<or> snd (v' i) = None \<and> fst (v' i) \<in> {None, fst (v i)})"

definition drop_stream :: "u32 option \<Rightarrow> stream_view \<Rightarrow> stream_view" where
  "drop_stream c v = (case c of None \<Rightarrow> v | Some i \<Rightarrow> v(i := (None, None)))"

text \<open>
  A library call that only forgets between its callbacks, has dropped a stream once the close
  callback for it has returned, and runs a callback only when it may. \<open>v\<close> is what it held when the
  last callback returned.
\<close>

primrec lib_streams_ok ::
    "('n \<Rightarrow> stream_view) \<Rightarrow> ('q \<Rightarrow> u32 option) \<Rightarrow> ('q \<Rightarrow> stream_view \<Rightarrow> bool)
      \<Rightarrow> ('q, 'r, 'n, 'a) lib_call \<Rightarrow> stream_view \<Rightarrow> bool" where
  "lib_streams_ok V closes allowed (LibReturn a n) v \<longleftrightarrow> forgets v (V n)"
| "lib_streams_ok V closes allowed (LibCallback q n k) v \<longleftrightarrow>
     forgets v (V n) \<and> allowed q (V n)
     \<and> (\<forall>r n'. lib_streams_ok V closes allowed (k r n') (drop_stream (closes q) (V n')))"

text \<open>Request headers begin on a stream that has no response yet.\<close>

definition recv_closes :: "ng_callback \<Rightarrow> u32 option" where
  "recv_closes q = (case q of OnStreamClose i \<Rightarrow> Some i | _ \<Rightarrow> None)"

definition recv_allowed :: "ng_callback \<Rightarrow> stream_view \<Rightarrow> bool" where
  "recv_allowed q v \<longleftrightarrow>
     (case q of
        OnBeginHeaders frame \<Rightarrow>
          hd_type frame = HEADERS_FRAME \<and> hd_cat frame = HCAT_REQUEST \<longrightarrow> snd (v (hd_stream_id frame)) = None
      | _ \<Rightarrow> True)"

text \<open>Sending reads only data sources that are attached to a stream.\<close>

definition send_closes :: "send_callback \<Rightarrow> u32 option" where
  "send_closes q = (case q of OnSentStreamClose i \<Rightarrow> Some i | OnDataRead r \<Rightarrow> None)"

definition send_allowed :: "send_callback \<Rightarrow> stream_view \<Rightarrow> bool" where
  "send_allowed q v \<longleftrightarrow>
     (case q of OnSentStreamClose i \<Rightarrow> True | OnDataRead (DataRead prd len) \<Rightarrow> (\<exists>i. snd (v i) = Some prd))"

section \<open>The invariant of a session\<close>

definition ids :: "('n, 'h, 'l) session_data \<Rightarrow> (addr \<times> u32) list" where
  "ids sd = map (\<lambda>(p, st). (p, st_stream_id st)) (sd_streams sd)"

text \<open>A file context without data has nothing to send.\<close>

definition ctx_ok :: "file_context \<Rightarrow> bool" where
  "ctx_ok ctx \<longleftrightarrow> (ctx_data ctx = NullPtr \<longrightarrow> ctx_size ctx = 0 \<and> ctx_offset ctx = 0)"

definition ctxs_ok :: "('n, 'h, 'l) session_data \<Rightarrow> bool" where
  "ctxs_ok sd \<longleftrightarrow> (\<forall>(p, st) \<in> set (sd_streams sd). ctx_ok (st_file_ctx st))"

text \<open>
  Every pointer in user data is a live stream that carries the number of its stream, and a file
  that is being sent belongs to the stream it is sent on.
\<close>

definition streams_ok :: "stream_view \<Rightarrow> ('n, 'h, 'l) session_data \<Rightarrow> bool" where
  "streams_ok v sd \<longleftrightarrow>
     distinct (map fst (ids sd)) \<and> ctxs_ok sd
     \<and> (\<forall>i p. fst (v i) = Some p \<longrightarrow> map_of (ids sd) p = Some i)
     \<and> (\<forall>i p. snd (v i) = Some (FileProvider p) \<longrightarrow> fst (v i) = Some p)"

definition session_ok :: "('n \<Rightarrow> stream_view) \<Rightarrow> ('n, 'h, 'l) session_data \<Rightarrow> bool" where
  "session_ok V sd \<longleftrightarrow> (case sd_session sd of None \<Rightarrow> False | Some n \<Rightarrow> streams_ok (V n) sd)"

definition live :: "('n \<Rightarrow> stream_view) \<Rightarrow> addr \<Rightarrow> ('n, 'h, 'l) session_data \<Rightarrow> bool" where
  "live V p sd \<longleftrightarrow>
     (\<exists>n i. sd_session sd = Some n \<and> map_of (ids sd) p = Some i \<and> fst (V n i) = Some p)"

text \<open>
  What a handler may do to a session: it keeps the streams and their user data, and attaches to a
  stream no file but the one of that stream.
\<close>

definition attaches :: "stream_view \<Rightarrow> stream_view \<Rightarrow> bool" where
  "attaches v v' \<longleftrightarrow>
     (\<forall>i. fst (v' i) = fst (v i)
        \<and> (snd (v' i) \<in> {snd (v i), None, Some ErrorProvider}
           \<or> (\<exists>p. snd (v' i) = Some (FileProvider p) \<and> fst (v i) = Some p)))"

definition same_streams ::
    "('n \<Rightarrow> stream_view) \<Rightarrow> ('n, 'h, 'l) session_data \<Rightarrow> ('n, 'h, 'l) session_data \<Rightarrow> bool" where
  "same_streams V sd sd' \<longleftrightarrow>
     ids sd' = ids sd \<and> (ctxs_ok sd \<longrightarrow> ctxs_ok sd')
     \<and> (case (sd_session sd, sd_session sd') of (Some n, Some n') \<Rightarrow> attaches (V n) (V n') | _ \<Rightarrow> False)"

definition pointer_fault :: "fault \<Rightarrow> bool" where
  "pointer_fault e \<longleftrightarrow> e = DanglingPointer \<or> e = NullDeref"

text \<open>A computation on a session, or on a context, that keeps the streams and makes no pointer fault.\<close>

definition keeps :: "('n \<Rightarrow> stream_view) \<Rightarrow> ('n, 'h, 'l) session_data
    \<Rightarrow> ('a \<times> ('n, 'h, 'l) session_data) outcome \<Rightarrow> bool" where
  "keeps V sd res \<longleftrightarrow>
     (case res of Inl e \<Rightarrow> \<not> pointer_fault e | Inr (a, sd') \<Rightarrow> same_streams V sd sd')"

definition cx_keeps :: "('n \<Rightarrow> stream_view) \<Rightarrow> ('n, 'h, 'l) req_context
    \<Rightarrow> ('a \<times> ('n, 'h, 'l) req_context) outcome \<Rightarrow> bool" where
  "cx_keeps V cx res \<longleftrightarrow>
     (case res of
        Inl e \<Rightarrow> \<not> pointer_fault e
      | Inr (a, cx') \<Rightarrow> same_streams V (cx_session cx) (cx_session cx'))"

lemma ids_simps [simp]:
  "ids (sd\<lparr>sd_session := n\<rparr>) = ids sd" "ids (sd\<lparr>sd_state := s\<rparr>) = ids sd"
  by (simp_all add: ids_def)

lemma ctxs_simps [simp]:
  "ctxs_ok (sd\<lparr>sd_session := n\<rparr>) = ctxs_ok sd" "ctxs_ok (sd\<lparr>sd_state := s\<rparr>) = ctxs_ok sd"
  by (simp_all add: ctxs_ok_def)

lemma map_of_ids: "map_of (ids sd) p = map_option st_stream_id (map_of (sd_streams sd) p)"
  unfolding ids_def by (induction "sd_streams sd" arbitrary: sd) (auto simp: map_of_map)

lemma streams_ok_session [simp]: "streams_ok v (sd\<lparr>sd_session := n\<rparr>) = streams_ok v sd"
  by (simp add: streams_ok_def)

lemma streams_ok_forgets: "streams_ok v sd \<Longrightarrow> forgets v v' \<Longrightarrow> streams_ok v' sd"
  unfolding streams_ok_def forgets_def by (metis insertE option.distinct(1) singletonD)

lemma streams_ok_attaches: "streams_ok v sd \<Longrightarrow> attaches v v' \<Longrightarrow> streams_ok v' sd"
  unfolding streams_ok_def attaches_def
  by (metis data_provider.distinct(1) data_provider.inject insertE option.distinct(1) option.inject singletonD)

lemma forgets_drop: "forgets v (drop_stream c v)"
  by (simp add: forgets_def drop_stream_def split: option.split)

lemma attaches_refl [simp]: "attaches v v"
  by (simp add: attaches_def)

lemma attaches_trans: "attaches a b \<Longrightarrow> attaches b c \<Longrightarrow> attaches a c"
  unfolding attaches_def by (metis insertE insertI1 insertI2 singletonD)

lemma same_streams_refl: "sd_session sd \<noteq> None \<Longrightarrow> same_streams V sd sd"
  by (auto simp: same_streams_def)

lemma same_streams_trans: "same_streams V a b \<Longrightarrow> same_streams V b c \<Longrightarrow> same_streams V a c"
  by (auto simp: same_streams_def intro: attaches_trans split: option.splits)

lemma same_streams_live: "same_streams V sd sd' \<Longrightarrow> live V p sd \<Longrightarrow> live V p sd'"
  by (auto simp: same_streams_def live_def attaches_def split: option.splits)

lemma streams_ok_cong:
  "streams_ok v sd \<Longrightarrow> ids sd' = ids sd \<Longrightarrow> (ctxs_ok sd \<Longrightarrow> ctxs_ok sd') \<Longrightarrow> streams_ok v sd'"
  by (simp add: streams_ok_def)

lemma same_streams_session_ok:
  assumes "same_streams V sd sd'" "session_ok V sd"
  shows "session_ok V sd'"
proof -
  from assms obtain n n' where n: "sd_session sd = Some n" "sd_session sd' = Some n'"
    and same: "ids sd' = ids sd" "ctxs_ok sd \<Longrightarrow> ctxs_ok sd'" "attaches (V n) (V n')"
    and ok: "streams_ok (V n) sd" by (auto simp: same_streams_def session_ok_def split: option.splits)
  from streams_ok_attaches [OF streams_ok_cong [OF ok same(1,2)] same(3)] n show ?thesis
    by (simp add: session_ok_def)
qed

lemma same_streams_fields [simp]:
  "same_streams V sd (sd'\<lparr>sd_state := s\<rparr>) = same_streams V sd sd'"
  by (simp add: same_streams_def)

section \<open>The operations of the session layer\<close>

lemma deref_live: "live V p sd \<Longrightarrow> \<exists>st. deref_stream p sd = Inr st \<and> map_of (sd_streams sd) p = Some st"
  by (auto simp: live_def deref_stream_def map_of_ids)

lemma live_session: "live V p sd \<Longrightarrow> sd_session sd \<noteq> None"
  by (auto simp: live_def)

lemma update_ids:
  "map_of al p = Some st0 \<Longrightarrow> st_stream_id st = st_stream_id st0 \<Longrightarrow>
   map (\<lambda>(p, st). (p, st_stream_id st)) (AList.update p st al) = map (\<lambda>(p, st). (p, st_stream_id st)) al"
  by (induction al) (auto split: if_splits)

lemma set_update: "set (AList.update p st al) \<subseteq> insert (p, st) (set al)"
  by (induction al) auto

lemma store_stream_same:
  assumes "map_of (sd_streams sd) p = Some st0" "st_stream_id st = st_stream_id st0" "sd_session sd \<noteq> None"
    and "ctx_ok (st_file_ctx st0) \<Longrightarrow> ctx_ok (st_file_ctx st)"
  shows "same_streams V sd (store_stream p st sd)"
proof -
  have "ctxs_ok (store_stream p st sd)" if "ctxs_ok sd"
  proof -
    have "ctx_ok (st_file_ctx st)" using that assms(1,4) by (auto simp: ctxs_ok_def dest!: map_of_SomeD)
    with that set_update [of p st "sd_streams sd"] show ?thesis
      by (fastforce simp: ctxs_ok_def store_stream_def)
  qed
  with assms(3) update_ids [OF assms(1,2)] show ?thesis
    by (auto simp: same_streams_def ids_def store_stream_def)
qed

lemma keeps_obind:
  assumes "keeps V sd m" "\<And>a sd'. m = Inr (a, sd') \<Longrightarrow> same_streams V sd sd' \<Longrightarrow> keeps V sd' (f (a, sd'))"
  shows "keeps V sd (obind m f)"
  using assms by (cases m) (auto simp: keeps_def intro: same_streams_trans split: sum.splits)

lemma keeps_Inr: "keeps V sd (Inr (a, sd')) \<longleftrightarrow> same_streams V sd sd'"
  by (simp add: keeps_def)

lemma keeps_result:
  "keeps V sd m \<Longrightarrow> keeps V sd (obind m (\<lambda>(rv, sd'). Inr (g rv, sd')))"
  by (cases m) (auto simp: keeps_def)

lemma submit_attaches:
  assumes "ng_laws ng prov" "fst (view ng prov n i) = Some p" "prd \<in> {None, Some ErrorProvider, Some (FileProvider p)}"
  shows "attaches (view ng prov n) (view ng prov (snd (ng_submit_response ng n i hdrs prd)))"
  unfolding attaches_def view_def fst_conv snd_conv
proof (intro allI conjI)
  let ?n = "snd (ng_submit_response ng n i hdrs prd)"
  fix j
  show "ng_get_stream_user_data ng ?n j = ng_get_stream_user_data ng n j"
    using assms(1) unfolding ng_laws_def by blast
  have "prov ?n i \<in> {prov n i, prd}" "j \<noteq> i \<Longrightarrow> prov ?n j = prov n j"
    using assms(1) unfolding ng_laws_def by blast+
  then show "prov ?n j \<in> {prov n j, None, Some ErrorProvider}
      \<or> (\<exists>p. prov ?n j = Some (FileProvider p) \<and> ng_get_stream_user_data ng n j = Some p)"
    using assms(2,3) by (cases "j = i") (auto simp: view_def)
qed

lemma submit_keeps:
  assumes "ng_laws ng prov" "live (view ng prov) p sd" "prd \<in> {None, Some ErrorProvider, Some (FileProvider p)}"
  shows "keeps (view ng prov) sd (submit ng p hdrs prd sd)"
proof -
  from assms(2) obtain n st where l: "sd_session sd = Some n" "map_of (sd_streams sd) p = Some st"
    "fst (view ng prov n (st_stream_id st)) = Some p" by (auto simp: live_def map_of_ids)
  then show ?thesis using submit_attaches [OF assms(1) l(3) assms(3), of hdrs]
    by (auto simp: submit_def deref_session_def deref_stream_def keeps_def same_streams_def split: prod.splits)
qed

lemma replies_keep:
  assumes "ng_laws ng prov" "live (view ng prov) p sd"
  shows "keeps (view ng prov) sd (reply_ok ng p sd)" "keeps (view ng prov) sd (reply_404 ng p sd)"
    "keeps (view ng prov) sd (reply_ok_with_file ng p sd)"
  unfolding reply_ok_def reply_404_def reply_ok_with_file_def error_reply_def send_response_def
  using submit_keeps [OF assms] by (auto intro!: keeps_result)

lemma cx_keeps_obind:
  assumes "cx_keeps V cx m"
    "\<And>a cx'. m = Inr (a, cx') \<Longrightarrow> same_streams V (cx_session cx) (cx_session cx') \<Longrightarrow> cx_keeps V cx' (f (a, cx'))"
  shows "cx_keeps V cx (obind m f)"
  using assms by (cases m) (auto simp: cx_keeps_def intro: same_streams_trans split: sum.splits)

lemma cx_keeps_lift:
  "keeps V (cx_session cx) m \<Longrightarrow>
   cx_keeps V cx (obind m (\<lambda>(rv, sd). Inr (g rv, cx\<lparr>cx_session := sd\<rparr>)))"
  by (cases m) (auto simp: keeps_def cx_keeps_def)

lemma cx_keeps_Inr: "cx_keeps V cx (Inr (a, cx')) \<longleftrightarrow> same_streams V (cx_session cx) (cx_session cx')"
  by (simp add: cx_keeps_def)

lemma clear_keeps:
  assumes "live V p (cx_session cx)"
  shows "cx_keeps V cx (obind (clear_upload_file_buffer p (cx_session cx)) (\<lambda>sd. Inr (rv, cx\<lparr>cx_session := sd\<rparr>)))"
proof -
  obtain st where st: "deref_stream p (cx_session cx) = Inr st" "map_of (sd_streams (cx_session cx)) p = Some st"
    using deref_live [OF assms] by blast
  then show ?thesis
    using store_stream_same [OF st(2) _ live_session [OF assms], of "st\<lparr>st_upload_file_buffer := []\<rparr>"]
      same_streams_refl [OF live_session [OF assms]]
    by (auto simp: clear_upload_file_buffer_def cx_keeps_def)
qed

section \<open>The callbacks\<close>

text \<open>A callback leaves every pointer that nghttp2 will still hold alive.\<close>

definition callback_ok ::
    "('n \<Rightarrow> stream_view) \<Rightarrow> u32 option \<Rightarrow> ('r \<times> ('n, 'h, 'l) req_context) outcome \<Rightarrow> bool" where
  "callback_ok V c res \<longleftrightarrow>
     (case res of
        Inl e \<Rightarrow> \<not> pointer_fault e
      | Inr (r, cx') \<Rightarrow>
          (case sd_session (cx_session cx') of
             None \<Rightarrow> False
           | Some n' \<Rightarrow> streams_ok (drop_stream c (V n')) (cx_session cx')))"

lemma keeps_callback_ok:
  assumes "session_ok V (cx_session cx)" "cx_keeps V cx res"
  shows "callback_ok V None res"
proof (cases res)
  case (Inl e)
  with assms(2) show ?thesis by (simp add: cx_keeps_def callback_ok_def)
next
  case (Inr b)
  obtain r cx' where b: "b = (r, cx')" by fastforce
  with assms Inr have "session_ok V (cx_session cx')"
    by (auto simp: cx_keeps_Inr intro: same_streams_session_ok)
  with Inr b show ?thesis
    by (auto simp: callback_ok_def session_ok_def drop_stream_def split: option.splits)
qed

lemma callback_ok_result:
  "callback_ok V c m \<Longrightarrow> callback_ok V c (obind m (\<lambda>(rv, cx'). Inr (g rv, cx')))"
  by (cases m) (auto simp: callback_ok_def)

lemma session_okE:
  assumes "session_ok V sd"
  obtains n where "sd_session sd = Some n" "streams_ok (V n) sd"
  using assms by (auto simp: session_ok_def split: option.splits)

lemma session_ok_user_data:
  assumes "session_ok (view ng prov) sd"
  shows "\<exists>u. stream_user_data ng i sd = Inr u \<and> (\<forall>p. u = Some p \<longrightarrow> live (view ng prov) p sd)"
proof -
  from assms obtain n where n: "sd_session sd = Some n" "streams_ok (view ng prov n) sd" by (rule session_okE)
  have "live (view ng prov) p sd" if "ng_get_stream_user_data ng n i = Some p" for p
    using that n unfolding live_def streams_ok_def view_def by auto
  with n show ?thesis by (simp add: stream_user_data_def deref_session_def)
qed

lemma session_ok_same: "session_ok V sd \<Longrightarrow> same_streams V sd sd"
  by (intro same_streams_refl) (auto elim: session_okE)

lemma update_stream_keeps:
  assumes "session_ok (view ng prov) (cx_session cx)"
    and "\<And>st fs. st_stream_id (fst (f st fs)) = st_stream_id st \<and> st_file_ctx (fst (f st fs)) = st_file_ctx st"
  shows "cx_keeps (view ng prov) cx (update_stream ng i f cx)"
proof -
  obtain u where u: "stream_user_data ng i (cx_session cx) = Inr u"
    "\<forall>p. u = Some p \<longrightarrow> live (view ng prov) p (cx_session cx)"
    using session_ok_user_data [OF assms(1), of i] by blast
  show ?thesis
  proof (cases u)
    case None
    with u session_ok_same [OF assms(1)] show ?thesis by (simp add: update_stream_def cx_keeps_Inr)
  next
    case (Some p)
    with u(2) have l: "live (view ng prov) p (cx_session cx)" by simp
    obtain st where st: "deref_stream p (cx_session cx) = Inr st" "map_of (sd_streams (cx_session cx)) p = Some st"
      using deref_live [OF l] by blast
    then show ?thesis
      using u(1) Some store_stream_same [OF st(2) _ live_session [OF l], of "fst (f st (cx_fs cx))"] assms(2)
      by (simp add: update_stream_def cx_keeps_Inr case_prod_beta)
  qed
qed

lemma set_header_keeps [simp]:
  "st_stream_id (fst (set_method ho v st fs)) = st_stream_id st"
  "st_file_ctx (fst (set_method ho v st fs)) = st_file_ctx st"
  "st_stream_id (set_content_type v st) = st_stream_id st"
  "st_file_ctx (set_content_type v st) = st_file_ctx st"
  by (simp_all add: set_method_def set_content_type_def split: option.split)

lemma fold_max_ge: "x \<in> set xs \<or> x \<le> a \<Longrightarrow> x \<le> fold max xs (a::nat)"
  by (induction xs arbitrary: a) (auto simp: le_max_iff_disj max_def split: if_splits)

lemma fresh_addr_not_live: "fresh_addr sd \<notin> set (map fst (sd_streams sd))"
proof
  assume "fresh_addr sd \<in> set (map fst (sd_streams sd))"
  then have "fresh_addr sd \<le> fold max (map fst (sd_streams sd)) 0" by (rule fold_max_ge [OF disjI1])
  then show False by (simp add: fresh_addr_def)
qed

lemma ids_keys: "map fst (ids sd) = map fst (sd_streams sd)"
  by (auto simp: ids_def)

lemma begin_stream_ok:
  assumes "streams_ok v sd" "\<And>j. v' j = (if j = i then (fst (v' i), None) else v j)" "fst (v' i) \<in> {None, Some p}"
    and "p \<notin> set (map fst (ids sd))" "ids sd' = ids sd @ [(p, i)]" "ctxs_ok sd'"
  shows "streams_ok v' sd'"
proof -
  have p: "map_of (ids sd) p = None" using assms(4) by (simp add: map_of_eq_None_iff)
  have keys: "map_of (ids sd') q = (if q = p then Some i else map_of (ids sd) q)" for q
    using p by (simp add: assms(5) map_add_def split: option.split)
  have user: "fst (v' j) = Some q \<Longrightarrow> map_of (ids sd') q = Some j" for j q
    using assms(1,2,3) p keys unfolding streams_ok_def
    by (metis fst_conv insertE option.distinct(1) option.inject singletonD)
  have src: "snd (v' j) = Some (FileProvider q) \<Longrightarrow> fst (v' j) = Some q" for j q
    using assms(1,2) unfolding streams_ok_def by (metis option.distinct(1) snd_conv)
  have "distinct (map fst (ids sd'))" using assms(1,4,5) by (simp add: streams_ok_def)
  with user src assms(6) show ?thesis unfolding streams_ok_def by blast
qed

lemma begin_headers_ok:
  assumes "ng_laws ng prov" "session_ok (view ng prov) (cx_session cx)"
    and "\<And>n. sd_session (cx_session cx) = Some n \<Longrightarrow> recv_allowed (OnBeginHeaders frame) (view ng prov n)"
  shows "callback_ok (view ng prov) None (on_begin_headers_callback ng frame cx)"
proof (cases "hd_type frame \<noteq> HEADERS_FRAME \<or> hd_cat frame \<noteq> HCAT_REQUEST")
  case True
  then have "on_begin_headers_callback ng frame cx = Inr (0, cx)"
    by (simp add: on_begin_headers_callback_def)
  with assms(2) show ?thesis by (auto simp: callback_ok_def drop_stream_def elim!: session_okE)
next
  case False
  let ?sd = "cx_session cx" and ?i = "hd_stream_id frame" and ?p = "fresh_addr (cx_session cx)"
  from assms(2) obtain n where n: "sd_session ?sd = Some n" and ok: "streams_ok (view ng prov n) ?sd"
    by (rule session_okE)
  let ?n' = "ng_set_stream_user_data ng n ?i ?p"
  let ?sd' = "?sd\<lparr>sd_session := Some ?n', sd_streams := sd_streams ?sd @ [(?p, create_stream_data ?i)]\<rparr>"
  have none: "prov n ?i = None" using assms(3) [OF n] False by (simp add: recv_allowed_def view_def)
  have "streams_ok (view ng prov ?n') ?sd'"
  proof (rule begin_stream_ok [OF ok])
    show "view ng prov ?n' j = (if j = ?i then (fst (view ng prov ?n' ?i), None) else view ng prov n j)" for j
      using assms(1) none unfolding ng_laws_def view_def by auto
    show "fst (view ng prov ?n' ?i) \<in> {None, Some ?p}"
      using assms(1) by (simp add: ng_laws_def view_def)
    show "?p \<notin> set (map fst (ids ?sd))" unfolding ids_keys by (rule fresh_addr_not_live)
    show "ctxs_ok ?sd'"
      using ok by (auto simp: streams_ok_def ctxs_ok_def ctx_ok_def create_stream_data_def new_stream_data_def
          new_file_context_def)
  qed (simp add: ids_def create_stream_data_def new_stream_data_def)
  with False n show ?thesis
    by (simp add: on_begin_headers_callback_def callback_ok_def drop_stream_def add_stream_data_to_session_def
        deref_session_def create_stream_data_def new_stream_data_def Let_def)
qed

lemma ids_delete: "ids (sd\<lparr>sd_streams := AList.delete p (sd_streams sd)\<rparr>) = AList.delete p (ids sd)"
proof -
  have "map (\<lambda>(p, st). (p, st_stream_id st)) (AList.delete p al) =
      AList.delete p (map (\<lambda>(p, st). (p, st_stream_id st)) al)" for al :: "(addr \<times> stream_data) list"
    by (induction al) auto
  then show ?thesis by (simp add: ids_def)
qed

lemma delete_stream_ok:
  assumes "streams_ok v sd" "fst (v i) = Some p"
  shows "streams_ok (drop_stream (Some i) v) (sd\<lparr>sd_streams := AList.delete p (sd_streams sd)\<rparr>)"
proof -
  let ?sd = "sd\<lparr>sd_streams := AList.delete p (sd_streams sd)\<rparr>"
  have "q \<noteq> p" if "fst (v j) = Some q" "j \<noteq> i" for j q
    using assms that unfolding streams_ok_def by (metis option.inject)
  then have user: "fst (v j) = Some q \<Longrightarrow> j \<noteq> i \<Longrightarrow> map_of (ids ?sd) q = Some j" for j q
    using assms(1) unfolding streams_ok_def ids_delete by (simp add: AList.delete_conv')
  have "ctxs_ok ?sd" using assms(1)
    by (auto simp: streams_ok_def ctxs_ok_def AList.delete_eq)
  moreover have "distinct (map fst (ids ?sd))"
    using assms(1) distinct_delete [of "ids sd"] unfolding streams_ok_def ids_delete by blast
  ultimately show ?thesis using user assms(1) by (simp add: streams_ok_def drop_stream_def)
qed

lemma stream_close_ok:
  assumes "session_ok (view ng prov) (cx_session cx)"
  shows "callback_ok (view ng prov) (Some i) (on_stream_close_callback ho ng i cx)"
proof -
  let ?sd = "cx_session cx"
  from assms obtain n where n: "sd_session ?sd = Some n" and ok: "streams_ok (view ng prov n) ?sd"
    by (rule session_okE)
  show ?thesis
  proof (cases "ng_get_stream_user_data ng n i")
    case None
    with n streams_ok_forgets [OF ok forgets_drop] show ?thesis
      by (simp add: on_stream_close_callback_def stream_user_data_def deref_session_def callback_ok_def)
  next
    case (Some p)
    with ok have "map_of (ids ?sd) p = Some i" by (simp add: streams_ok_def view_def)
    then obtain st where st: "map_of (sd_streams ?sd) p = Some st" by (auto simp: map_of_ids)
    have "streams_ok (drop_stream (Some i) (view ng prov n)) (?sd\<lparr>sd_streams := AList.delete p (sd_streams ?sd)\<rparr>)"
      by (rule delete_stream_ok [OF ok]) (simp add: view_def Some)
    with n Some st show ?thesis
      by (simp add: on_stream_close_callback_def stream_user_data_def deref_session_def callback_ok_def
          delete_stream_data_def)
  qed
qed

text \<open>Reading the data source of a response.\<close>

lemma file_read_fault:
  assumes "ctx_ok ctx" "file_read_callback len (Some ctx) = Inl e"
  shows "e = OutOfBounds"
proof (cases "ctx_data ctx")
  case NullPtr
  with assms(1) have "ctx_size ctx = 0" "ctx_offset ctx = 0" by (simp_all add: ctx_ok_def)
  with assms(2) show ?thesis by (simp add: file_read_callback_def read_mapping_def Let_def)
qed (use assms(2) in \<open>auto simp: file_read_callback_def read_mapping_def Let_def obind_def split: if_splits\<close>)

lemma file_read_ctx:
  assumes "ctx_ok ctx" "file_read_callback len (Some ctx) = Inr (ans, source)"
  shows "\<exists>ctx'. source = Some ctx' \<and> ctx_ok ctx'"
proof -
  from assms(2) have c: "source = Some (ctx\<lparr>ctx_offset := ucast ((scast (ctx_offset ctx) :: u64)
      + min len (ctx_size ctx - (scast (ctx_offset ctx) :: u64)))\<rparr>)"
    by (auto simp: file_read_callback_def Let_def obind_eq_Inr)
  show ?thesis using assms(1) by (auto simp: c ctx_ok_def)
qed

lemma data_read_keeps:
  assumes "session_ok V (cx_session cx)"
    and "\<And>n. sd_session (cx_session cx) = Some n \<Longrightarrow> send_allowed (OnDataRead r) (V n)"
  shows "keeps V (cx_session cx) (data_read_callback r (cx_session cx))"
proof -
  let ?sd = "cx_session cx"
  from assms(1) obtain n where n: "sd_session ?sd = Some n" and ok: "streams_ok (V n) ?sd" by (rule session_okE)
  obtain prd len where r: "r = DataRead prd len" by (cases r)
  show ?thesis
  proof (cases prd)
    case ErrorProvider
    with r same_streams_refl [of ?sd V] n show ?thesis by (simp add: data_read_callback_def keeps_def)
  next
    case (FileProvider p)
    from assms(2) [OF n] r FileProvider obtain i where "snd (V n i) = Some (FileProvider p)"
      by (auto simp: send_allowed_def)
    with ok have "map_of (ids ?sd) p = Some i" unfolding streams_ok_def by blast
    then obtain st where st: "map_of (sd_streams ?sd) p = Some st" by (auto simp: map_of_ids)
    have c: "ctx_ok (st_file_ctx st)"
      using ok map_of_SomeD [OF st] by (auto simp: streams_ok_def ctxs_ok_def)
    have "keeps V ?sd (obind (file_read_callback len (Some (st_file_ctx st))) (\<lambda>(ans, source).
        Inr (ans, case source of None \<Rightarrow> ?sd | Some ctx \<Rightarrow> store_stream p (st\<lparr>st_file_ctx := ctx\<rparr>) ?sd)))"
    proof (cases "file_read_callback len (Some (st_file_ctx st))")
      case (Inl e)
      with file_read_fault [OF c Inl] show ?thesis by (simp add: keeps_def pointer_fault_def)
    next
      case (Inr b)
      from Inr file_read_ctx [OF c] obtain ans ctx' where b: "b = (ans, Some ctx')" and c': "ctx_ok ctx'" by (cases b) blast
      have "same_streams V ?sd (store_stream p (st\<lparr>st_file_ctx := ctx'\<rparr>) ?sd)"
        by (rule store_stream_same [OF st]) (use n c' in auto)
      with Inr b show ?thesis by (simp add: keeps_def)
    qed
    with r FileProvider st show ?thesis by (simp add: data_read_callback_def deref_stream_def)
  qed
qed

lemma run_send_callback_ok:
  assumes "session_ok (view ng prov) (cx_session cx)"
    and "\<And>n. sd_session (cx_session cx) = Some n \<Longrightarrow> send_allowed q (view ng prov n)"
  shows "callback_ok (view ng prov) (send_closes q) (run_send_callback ho ng q cx)"
proof (cases q)
  case (OnDataRead r)
  from cx_keeps_lift [OF data_read_keeps [OF assms(1), of r]] assms(2) OnDataRead
  have "cx_keeps (view ng prov) cx (run_send_callback ho ng q cx)"
    by (simp add: run_send_callback_def)
  from keeps_callback_ok [OF assms(1) this] OnDataRead show ?thesis by (simp add: send_closes_def)
next
  case (OnSentStreamClose i)
  with callback_ok_result [OF stream_close_ok [OF assms(1)]] show ?thesis
    by (simp add: run_send_callback_def send_closes_def)
qed

section \<open>Library calls\<close>

text \<open>If every callback that may run is safe, the whole call is.\<close>

lemma run_lib_ok:
  fixes cb :: "'q \<Rightarrow> ('n, 'h, 'l) req_context \<Rightarrow> ('r \<times> ('n, 'h, 'l) req_context) outcome"
  assumes "\<And>q cx. session_ok V (cx_session cx) \<Longrightarrow>
        (\<And>n. sd_session (cx_session cx) = Some n \<Longrightarrow> allowed q (V n)) \<Longrightarrow> callback_ok V (closes q) (cb q cx)"
    and "streams_ok v (cx_session cx)" "lib_streams_ok V closes allowed lib v"
  shows "case run_lib cb lib cx of Inl e \<Rightarrow> \<not> pointer_fault e | Inr (a, cx') \<Rightarrow> session_ok V (cx_session cx')"
  using assms(2,3)
proof (induction lib arbitrary: cx v)
  case (LibReturn a n)
  then show ?case using streams_ok_forgets by (auto simp: session_ok_def)
next
  case (LibCallback q n k)
  let ?cx = "cx\<lparr>cx_session := (cx_session cx)\<lparr>sd_session := Some n\<rparr>\<rparr>"
  have "streams_ok (V n) (cx_session cx)"
    using LibCallback.prems by (auto intro: streams_ok_forgets)
  then have "session_ok V (cx_session ?cx)" by (simp add: session_ok_def)
  moreover have "allowed q (V n)" using LibCallback.prems(2) by simp
  ultimately have cb: "callback_ok V (closes q) (cb q ?cx)" by (intro assms(1)) simp_all
  show ?case
  proof (cases "cb q ?cx")
    case (Inl e)
    with cb show ?thesis by (simp add: callback_ok_def)
  next
    case (Inr b)
    obtain r cx' where b: "b = (r, cx')" by fastforce
    with cb Inr obtain n' where n': "sd_session (cx_session cx') = Some n'"
      and ok: "streams_ok (drop_stream (closes q) (V n')) (cx_session cx')"
      by (auto simp: callback_ok_def split: option.splits)
    have "lib_streams_ok V closes allowed (k r n') (drop_stream (closes q) (V n'))"
      using LibCallback.prems(2) by simp
    from LibCallback.IH [OF rangeI rangeI ok this] Inr b n' show ?thesis by (simp add: deref_session_def)
  qed
qed

section \<open>No stream is left behind\<close>

text \<open>
  The other direction: every stream that the session keeps is one that nghttp2 knows, so none is kept
  after it was closed. For this the library must not lose the user data of a stream without the close
  callback, and open a request on a new stream only, one that exists while the callback runs and has
  no user data.
\<close>

definition streams_known :: "stream_view \<Rightarrow> ('n, 'h, 'l) session_data \<Rightarrow> bool" where
  "streams_known v sd \<longleftrightarrow> (\<forall>p i. map_of (ids sd) p = Some i \<longrightarrow> fst (v i) = Some p)"

definition session_exact :: "('n \<Rightarrow> stream_view) \<Rightarrow> ('n, 'h, 'l) session_data \<Rightarrow> bool" where
  "session_exact V sd \<longleftrightarrow> session_ok V sd \<and> (\<forall>n. sd_session sd = Some n \<longrightarrow> streams_known (V n) sd)"

definition retains :: "stream_view \<Rightarrow> stream_view \<Rightarrow> bool" where
  "retains v v' \<longleftrightarrow> (\<forall>i. fst (v' i) = fst (v i))"

primrec lib_streams_kept ::
    "('n \<Rightarrow> stream_view) \<Rightarrow> ('q \<Rightarrow> u32 option) \<Rightarrow> ('q \<Rightarrow> 'n \<Rightarrow> bool)
      \<Rightarrow> ('q, 'r, 'n, 'a) lib_call \<Rightarrow> stream_view \<Rightarrow> bool" where
  "lib_streams_kept V closes opens (LibReturn a n) v \<longleftrightarrow> retains v (V n)"
| "lib_streams_kept V closes opens (LibCallback q n k) v \<longleftrightarrow>
     retains v (V n) \<and> opens q n
     \<and> (\<forall>r n'. lib_streams_kept V closes opens (k r n') (drop_stream (closes q) (V n')))"

definition recv_opens :: "'n nghttp2 \<Rightarrow> ng_callback \<Rightarrow> 'n \<Rightarrow> bool" where
  "recv_opens ng q n \<longleftrightarrow>
     (case q of
        OnBeginHeaders frame \<Rightarrow>
          hd_type frame = HEADERS_FRAME \<and> hd_cat frame = HCAT_REQUEST \<longrightarrow>
            ng_get_stream_user_data ng n (hd_stream_id frame) = None
            \<and> (\<forall>p. ng_get_stream_user_data ng (ng_set_stream_user_data ng n (hd_stream_id frame) p)
                    (hd_stream_id frame) = Some p)
      | _ \<Rightarrow> True)"

definition callback_known ::
    "('n \<Rightarrow> stream_view) \<Rightarrow> u32 option \<Rightarrow> ('r \<times> ('n, 'h, 'l) req_context) outcome \<Rightarrow> bool" where
  "callback_known V c res \<longleftrightarrow>
     (\<forall>r cx' n'. res = Inr (r, cx') \<longrightarrow> sd_session (cx_session cx') = Some n' \<longrightarrow>
        streams_known (drop_stream c (V n')) (cx_session cx'))"

lemma streams_known_session [simp]: "streams_known v (sd\<lparr>sd_session := n\<rparr>) = streams_known v sd"
  by (simp add: streams_known_def)

lemma streams_known_retains: "streams_known v sd \<Longrightarrow> retains v v' \<Longrightarrow> streams_known v' sd"
  by (simp add: streams_known_def retains_def)

lemma callback_known_result:
  "callback_known V c m \<Longrightarrow> callback_known V c (obind m (\<lambda>(rv, cx'). Inr (g rv, cx')))"
  by (cases m) (auto simp: callback_known_def)

lemma keeps_callback_known:
  assumes "sd_session (cx_session cx) = Some n" "streams_known (V n) (cx_session cx)" "cx_keeps V cx res"
  shows "callback_known V None res"
  unfolding callback_known_def
proof (intro allI impI)
  fix r cx' n' assume r: "res = Inr (r, cx')" and n': "sd_session (cx_session cx') = Some n'"
  from assms(3) r have "same_streams V (cx_session cx) (cx_session cx')" by (simp add: cx_keeps_Inr)
  with assms(1) n' have "ids (cx_session cx') = ids (cx_session cx)" "attaches (V n) (V n')"
    by (auto simp: same_streams_def)
  with assms(2) show "streams_known (drop_stream None (V n')) (cx_session cx')"
    by (simp add: streams_known_def drop_stream_def attaches_def)
qed

lemma stream_close_known:
  assumes "sd_session (cx_session cx) = Some n" "streams_ok (view ng prov n) (cx_session cx)"
    and "streams_known (view ng prov n) (cx_session cx)"
  shows "callback_known (view ng prov) (Some i) (on_stream_close_callback ho ng i cx)"
proof (cases "ng_get_stream_user_data ng n i")
  case None
  then have "streams_known (drop_stream (Some i) (view ng prov n)) (cx_session cx)"
    using assms(3) by (auto simp: streams_known_def drop_stream_def view_def)
  with None assms(1) show ?thesis
    by (simp add: on_stream_close_callback_def stream_user_data_def deref_session_def callback_known_def)
next
  case (Some p)
  let ?sd = "cx_session cx"
  have "map_of (ids ?sd) p = Some i" using assms(2) Some by (simp add: streams_ok_def view_def)
  then obtain st where st: "map_of (sd_streams ?sd) p = Some st" by (auto simp: map_of_ids)
  have "streams_known (drop_stream (Some i) (view ng prov n)) (?sd\<lparr>sd_streams := AList.delete p (sd_streams ?sd)\<rparr>)"
    using assms(3) Some unfolding streams_known_def ids_delete
    by (auto simp: AList.delete_conv' drop_stream_def view_def split: if_splits)
  with Some st assms(1) show ?thesis
    by (simp add: on_stream_close_callback_def stream_user_data_def deref_session_def callback_known_def
        delete_stream_data_def)
qed

lemma begin_headers_known:
  assumes "ng_laws ng prov" "sd_session (cx_session cx) = Some n" "streams_known (view ng prov n) (cx_session cx)"
    and "recv_opens ng (OnBeginHeaders frame) n"
  shows "callback_known (view ng prov) None (on_begin_headers_callback ng frame cx)"
proof (cases "hd_type frame \<noteq> HEADERS_FRAME \<or> hd_cat frame \<noteq> HCAT_REQUEST")
  case True
  with assms(2,3) show ?thesis by (auto simp: on_begin_headers_callback_def callback_known_def drop_stream_def)
next
  case False
  let ?sd = "cx_session cx" and ?i = "hd_stream_id frame" and ?p = "fresh_addr (cx_session cx)"
  let ?n' = "ng_set_stream_user_data ng n ?i ?p"
  let ?sd' = "?sd\<lparr>sd_session := Some ?n', sd_streams := sd_streams ?sd @ [(?p, create_stream_data ?i)]\<rparr>"
  have i: "ng_get_stream_user_data ng n ?i = None" "ng_get_stream_user_data ng ?n' ?i = Some ?p"
    using assms(4) False by (simp_all add: recv_opens_def)
  have other: "ng_get_stream_user_data ng ?n' j = ng_get_stream_user_data ng n j" if "j \<noteq> ?i" for j
    using assms(1) that by (simp add: ng_laws_def)
  have "map_of (ids ?sd) ?p = None" using fresh_addr_not_live [of ?sd] by (simp add: map_of_ids map_of_eq_None_iff)
  then have keys: "map_of (ids ?sd') q = (if q = ?p then Some ?i else map_of (ids ?sd) q)" for q
    by (auto simp: ids_def create_stream_data_def new_stream_data_def map_add_def split: option.split)
  have "streams_known (view ng prov ?n') ?sd'"
    unfolding streams_known_def keys
  proof (intro allI impI)
    fix q j assume q: "(if q = ?p then Some ?i else map_of (ids ?sd) q) = Some j"
    show "fst (view ng prov ?n' j) = Some q"
    proof (cases "q = ?p")
      case True
      with q i(2) show ?thesis by (simp add: view_def)
    next
      case False
      with q assms(3) have "ng_get_stream_user_data ng n j = Some q" by (simp add: streams_known_def view_def)
      with i(1) other [of j] show ?thesis by (cases "j = ?i") (simp_all add: view_def)
    qed
  qed
  with False assms(2) show ?thesis
    by (simp add: on_begin_headers_callback_def callback_known_def drop_stream_def add_stream_data_to_session_def
        deref_session_def create_stream_data_def new_stream_data_def Let_def)
qed

lemma run_send_callback_known:
  assumes "session_ok (view ng prov) (cx_session cx)" "sd_session (cx_session cx) = Some n"
    and "streams_known (view ng prov n) (cx_session cx)" "send_allowed q (view ng prov n)"
  shows "callback_known (view ng prov) (send_closes q) (run_send_callback ho ng q cx)"
proof (cases q)
  case (OnDataRead r)
  have "keeps (view ng prov) (cx_session cx) (data_read_callback r (cx_session cx))"
    by (rule data_read_keeps [OF assms(1)]) (use assms(2,4) OnDataRead in auto)
  from cx_keeps_lift [OF this] OnDataRead have "cx_keeps (view ng prov) cx (run_send_callback ho ng q cx)"
    by (simp add: run_send_callback_def)
  from keeps_callback_known [OF assms(2,3) this] OnDataRead show ?thesis by (simp add: send_closes_def)
next
  case (OnSentStreamClose i)
  have "streams_ok (view ng prov n) (cx_session cx)" using assms(1,2) by (auto elim: session_okE)
  from callback_known_result [OF stream_close_known [OF assms(2) this assms(3)]] OnSentStreamClose show ?thesis
    by (simp add: run_send_callback_def send_closes_def)
qed

lemma run_lib_exact:
  fixes cb :: "'q \<Rightarrow> ('n, 'h, 'l) req_context \<Rightarrow> ('r \<times> ('n, 'h, 'l) req_context) outcome"
  assumes "\<And>q cx. session_ok V (cx_session cx) \<Longrightarrow>
        (\<And>n. sd_session (cx_session cx) = Some n \<Longrightarrow> allowed q (V n)) \<Longrightarrow> callback_ok V (closes q) (cb q cx)"
    and "\<And>q cx n. session_ok V (cx_session cx) \<Longrightarrow> sd_session (cx_session cx) = Some n \<Longrightarrow>
        streams_known (V n) (cx_session cx) \<Longrightarrow> allowed q (V n) \<Longrightarrow> opens q n \<Longrightarrow> callback_known V (closes q) (cb q cx)"
    and "streams_ok v (cx_session cx)" "lib_streams_ok V closes allowed lib v"
    and "streams_known v (cx_session cx)" "lib_streams_kept V closes opens lib v"
  shows "case run_lib cb lib cx of Inl e \<Rightarrow> \<not> pointer_fault e | Inr (a, cx') \<Rightarrow> session_exact V (cx_session cx')"
  using assms(3-)
proof (induction lib arbitrary: cx v)
  case (LibReturn a n)
  then show ?case using streams_ok_forgets streams_known_retains by (auto simp: session_exact_def session_ok_def)
next
  case (LibCallback q n k)
  let ?cx = "cx\<lparr>cx_session := (cx_session cx)\<lparr>sd_session := Some n\<rparr>\<rparr>"
  have "streams_ok (V n) (cx_session cx)" and known: "streams_known (V n) (cx_session ?cx)"
    using LibCallback.prems by (auto intro: streams_ok_forgets streams_known_retains)
  then have ok: "session_ok V (cx_session ?cx)" by (simp add: session_ok_def)
  have may: "allowed q (V n)" "opens q n" using LibCallback.prems(2,4) by simp_all
  from ok may have cb: "callback_ok V (closes q) (cb q ?cx)" by (intro assms(1)) simp_all
  from assms(2) [OF ok _ known may] have cb_known: "callback_known V (closes q) (cb q ?cx)" by simp
  show ?case
  proof (cases "cb q ?cx")
    case (Inl e)
    with cb show ?thesis by (simp add: callback_ok_def)
  next
    case (Inr b)
    obtain r cx' where b: "b = (r, cx')" by fastforce
    with cb Inr obtain n' where n': "sd_session (cx_session cx') = Some n'"
      and ok': "streams_ok (drop_stream (closes q) (V n')) (cx_session cx')"
      by (auto simp: callback_ok_def split: option.splits)
    have known': "streams_known (drop_stream (closes q) (V n')) (cx_session cx')"
      using cb_known Inr b n' by (simp add: callback_known_def)
    have "lib_streams_ok V closes allowed (k r n') (drop_stream (closes q) (V n'))"
      "lib_streams_kept V closes opens (k r n') (drop_stream (closes q) (V n'))"
      using LibCallback.prems(2,4) by simp_all
    from LibCallback.IH [OF rangeI rangeI ok' this(1) known' this(2)] Inr b n' show ?thesis
      by (simp add: deref_session_def)
  qed
qed

lemma session_exactD:
  assumes "session_exact V sd" "sd_session sd = Some n"
  shows "streams_ok (V n) sd" "streams_known (V n) sd"
  using assms by (auto simp: session_exact_def elim: session_okE)

lemma run_send_exact:
  assumes "sd_session (cx_session cx) = Some n" "session_exact (view ng prov) (cx_session cx)"
    and "lib_streams_ok (view ng prov) send_closes send_allowed lib (view ng prov n)"
    and "lib_streams_kept (view ng prov) send_closes (\<lambda>q n. True) lib (view ng prov n)"
  shows "case run_lib (run_send_callback ho ng) lib cx of
      Inl e \<Rightarrow> \<not> pointer_fault e | Inr (a, cx') \<Rightarrow> session_exact (view ng prov) (cx_session cx')"
  by (rule run_lib_exact [OF run_send_callback_ok run_send_callback_known
        session_exactD(1) [OF assms(2,1)] assms(3) session_exactD(2) [OF assms(2,1)] assms(4)])

lemma run_send_ok:
  assumes "sd_session (cx_session cx) = Some n" "session_ok (view ng prov) (cx_session cx)"
    and "lib_streams_ok (view ng prov) send_closes send_allowed lib (view ng prov n)"
  shows "case run_lib (run_send_callback ho ng) lib cx of
      Inl e \<Rightarrow> \<not> pointer_fault e | Inr (a, cx') \<Rightarrow> session_ok (view ng prov) (cx_session cx')"
proof (rule run_lib_ok [OF run_send_callback_ok _ assms(3)])
  show "streams_ok (view ng prov n) (cx_session cx)" using assms(1,2) by (auto elim: session_okE)
qed

lemma find_handler_fault: "find_handler_recursive m segs n out = Inl e \<Longrightarrow> e = OutOfBounds"
proof (induction m segs n out arbitrary: e rule: find_handler_recursive.induct)
  case (1 m sc pc pn hs out)
  then show ?case by (auto simp: vec_at_def split: if_splits)
next
  case (2 m seg segs sc pc pn hs out)
  show ?case
  proof (cases "map_of sc seg")
    case None
    with 2 show ?thesis
      by (cases pc) (auto simp: obind_def split: sum.splits if_splits)
  next
    case (Some child)
    with 2 show ?thesis
      by (cases pc; cases "find_handler_recursive m segs child out")
        (auto simp: obind_def split: sum.splits if_splits prod.splits)
  qed
qed

section \<open>The contract of the request handlers\<close>

text \<open>A mapping that exists is not at the null pointer, as documented of \<open>mmap\<close>.\<close>

definition mmap_nonnull :: "os_maps \<Rightarrow> bool" where
  "mmap_nonnull os \<longleftrightarrow> (\<forall>fs path n. mmap_ret os fs path n \<noteq> NullPtr)"

text \<open>
  The contract between the session layer and the handlers it calls: a handler that is given a
  live stream uses no bad pointer, leaves the streams of the session in place and sends on a
  stream only the file of that stream.
\<close>

locale request_handler =
  fixes call :: "host \<Rightarrow> 'n nghttp2 \<Rightarrow> ('n, 'h, 'l) handler_call"
  assumes handler_keeps:
    "mmap_nonnull (ho_maps ho) \<Longrightarrow> ng_laws ng prov \<Longrightarrow> live (view ng prov) p (cx_session cx) \<Longrightarrow>
     cx_keeps (view ng prov) cx (call ho ng h p param cx)"
begin

lemma on_request_recv_keeps:
  assumes "mmap_nonnull (ho_maps ho)" "ng_laws ng prov" "live (view ng prov) p (cx_session cx)"
  shows "cx_keeps (view ng prov) cx (on_request_recv ng (call ho ng) p cx)"
proof (cases "sd_router (cx_session cx)")
  case None
  then show ?thesis
    using same_streams_refl [OF live_session [OF assms(3)]] by (simp add: on_request_recv_def cx_keeps_Inr)
next
  case (Some root)
  obtain st where st: "deref_stream p (cx_session cx) = Inr st" using deref_live [OF assms(3)] by blast
  show ?thesis
  proof (cases "st_method st")
    case None
    with Some st show ?thesis by (simp add: on_request_recv_def cx_keeps_def pointer_fault_def)
  next
    case (Some m)
    note unfold = on_request_recv_def \<open>sd_router (cx_session cx) = Some root\<close> st Some
    show ?thesis
    proof (cases "router_resolve m (st_request_path st) root")
      case (Inl e)
      then have "e = OutOfBounds" unfolding router_resolve_def by (rule find_handler_fault)
      with Inl show ?thesis by (simp add: unfold cx_keeps_def pointer_fault_def)
    next
      case (Inr b)
      obtain handler param where b: "b = (handler, param)" by fastforce
      have "cx_keeps (view ng prov) cx (case handler of Some h \<Rightarrow> call ho ng h p param cx
          | None \<Rightarrow> obind (reply_404 ng p (cx_session cx)) (\<lambda>(rv, sd). Inr (rv, cx\<lparr>cx_session := sd\<rparr>)))"
        using handler_keeps [OF assms] cx_keeps_lift [OF replies_keep(2) [OF assms(2,3)], of "\<lambda>rv. rv"]
        by (cases handler) auto
      then show ?thesis
        unfolding unfold Inr b option.case obind_simps prod.case
        by (rule cx_keeps_obind) (simp add: clear_keeps same_streams_live [OF _ assms(3)])
    qed
  qed
qed

lemma frame_recv_keeps:
  assumes "mmap_nonnull (ho_maps ho)" "ng_laws ng prov" "session_ok (view ng prov) (cx_session cx)"
  shows "cx_keeps (view ng prov) cx (on_frame_recv_callback ng (call ho ng) frame cx)"
proof -
  obtain u where u: "stream_user_data ng (hd_stream_id frame) (cx_session cx) = Inr u"
    "\<forall>p. u = Some p \<longrightarrow> live (view ng prov) p (cx_session cx)"
    using session_ok_user_data [OF assms(3)] by blast
  note same = session_ok_same [OF assms(3)]
  have request: "cx_keeps (view ng prov) cx (obind (stream_user_data ng (hd_stream_id frame) (cx_session cx))
      (\<lambda>u. case u of None \<Rightarrow> Inr (0, cx) | Some p \<Rightarrow> on_request_recv ng (call ho ng) p cx))"
    using u same on_request_recv_keeps [OF assms(1,2)] by (cases u) (auto simp: cx_keeps_Inr)
  from assms(3) obtain n where n: "sd_session (cx_session cx) = Some n" by (rule session_okE)
  have goaway: "cx_keeps (view ng prov) cx (obind (deref_session (cx_session cx)) (\<lambda>n. Inr (0, cx\<lparr>cx_session :=
      (cx_session cx)\<lparr>sd_session := Some (ng_submit_goaway ng n (ng_last_proc_stream_id ng n)),
        sd_state := DISCONNECTING\<rparr>\<rparr>)))"
    using n assms(2) by (simp add: deref_session_def cx_keeps_Inr same_streams_def ng_laws_def)
  from request goaway same show ?thesis
    unfolding on_frame_recv_callback_def Let_def by (auto simp: cx_keeps_Inr)
qed

text \<open>All callbacks but the two that open and close a stream.\<close>

lemma run_callback_keeps:
  assumes "mmap_nonnull (ho_maps ho)" "ng_laws ng prov" "session_ok (view ng prov) (cx_session cx)"
    and "recv_closes q = None" "\<And>frame. q \<noteq> OnBeginHeaders frame"
  shows "cx_keeps (view ng prov) cx (run_callback ho ng (call ho ng) q cx)"
proof (cases q)
  case (OnFrameRecv frame)
  with frame_recv_keeps [OF assms(1-3)] show ?thesis by (simp add: run_callback_def)
next
  case (OnHeader frame name v)
  have "cx_keeps (view ng prov) cx (on_header_callback ho ng frame name v cx)"
    using session_ok_same [OF assms(3)] unfolding on_header_callback_def
    by (auto simp: cx_keeps_Inr intro!: update_stream_keeps [OF assms(3)])
  with OnHeader show ?thesis by (simp add: run_callback_def)
next
  case (OnDataChunkRecv i chunk)
  have "cx_keeps (view ng prov) cx (on_data_chunk_recv_callback ng i chunk cx)"
    unfolding on_data_chunk_recv_callback_def by (rule update_stream_keeps [OF assms(3)]) simp
  with OnDataChunkRecv show ?thesis by (simp add: run_callback_def)
qed (use assms(4,5) in \<open>simp_all add: recv_closes_def\<close>)

lemma run_callback_ok:
  assumes "mmap_nonnull (ho_maps ho)" "ng_laws ng prov" "session_ok (view ng prov) (cx_session cx)"
    and "\<And>n. sd_session (cx_session cx) = Some n \<Longrightarrow> recv_allowed q (view ng prov n)"
  shows "callback_ok (view ng prov) (recv_closes q) (run_callback ho ng (call ho ng) q cx)"
proof -
  consider (Close) i where "q = OnStreamClose i" | (Begin) frame where "q = OnBeginHeaders frame"
    | (Other) "recv_closes q = None" "\<And>frame. q \<noteq> OnBeginHeaders frame"
    by (cases q) (auto simp: recv_closes_def)
  then show ?thesis
  proof cases
    case Close
    with stream_close_ok [OF assms(3)] show ?thesis by (simp add: run_callback_def recv_closes_def)
  next
    case Begin
    with begin_headers_ok [OF assms(2,3)] assms(4) show ?thesis by (simp add: run_callback_def recv_closes_def)
  next
    case Other
    with keeps_callback_ok [OF assms(3) run_callback_keeps [OF assms(1-3) Other]] show ?thesis by simp
  qed
qed

lemma run_callback_known:
  assumes "mmap_nonnull (ho_maps ho)" "ng_laws ng prov" "session_ok (view ng prov) (cx_session cx)"
    and "sd_session (cx_session cx) = Some n" "streams_known (view ng prov n) (cx_session cx)" "recv_opens ng q n"
  shows "callback_known (view ng prov) (recv_closes q) (run_callback ho ng (call ho ng) q cx)"
proof -
  consider (Close) i where "q = OnStreamClose i" | (Begin) frame where "q = OnBeginHeaders frame"
    | (Other) "recv_closes q = None" "\<And>frame. q \<noteq> OnBeginHeaders frame"
    by (cases q) (auto simp: recv_closes_def)
  then show ?thesis
  proof cases
    case Close
    have "streams_ok (view ng prov n) (cx_session cx)" using assms(3,4) by (auto elim: session_okE)
    with Close stream_close_known [OF assms(4) _ assms(5)] show ?thesis by (simp add: run_callback_def recv_closes_def)
  next
    case Begin
    with begin_headers_known [OF assms(2,4,5)] assms(6) show ?thesis by (simp add: run_callback_def recv_closes_def)
  next
    case Other
    with keeps_callback_known [OF assms(4,5) run_callback_keeps [OF assms(1-3) Other]] show ?thesis by simp
  qed
qed

lemma run_recv_exact:
  assumes "mmap_nonnull (ho_maps ho)" "ng_laws ng prov"
    and "sd_session (cx_session cx) = Some n" "session_exact (view ng prov) (cx_session cx)"
    and "lib_streams_ok (view ng prov) recv_closes recv_allowed lib (view ng prov n)"
    and "lib_streams_kept (view ng prov) recv_closes (recv_opens ng) lib (view ng prov n)"
  shows "case run_lib (run_callback ho ng (call ho ng)) lib cx of
      Inl e \<Rightarrow> \<not> pointer_fault e | Inr (a, cx') \<Rightarrow> session_exact (view ng prov) (cx_session cx')"
  by (rule run_lib_exact [OF run_callback_ok [OF assms(1,2)] run_callback_known [OF assms(1,2)]
        session_exactD(1) [OF assms(4,3)] assms(5) session_exactD(2) [OF assms(4,3)] assms(6)])

lemma run_recv_ok:
  assumes "mmap_nonnull (ho_maps ho)" "ng_laws ng prov"
    and "sd_session (cx_session cx) = Some n" "session_ok (view ng prov) (cx_session cx)"
    and "lib_streams_ok (view ng prov) recv_closes recv_allowed lib (view ng prov n)"
  shows "case run_lib (run_callback ho ng (call ho ng)) lib cx of
      Inl e \<Rightarrow> \<not> pointer_fault e | Inr (a, cx') \<Rightarrow> session_ok (view ng prov) (cx_session cx')"
proof (rule run_lib_ok [OF run_callback_ok [OF assms(1,2)] _ assms(5)])
  show "streams_ok (view ng prov n) (cx_session cx)" using assms(3,4) by (auto elim: session_okE)
qed

end

end
