(* ===== verification/Session_Facts.thy ===== *)
theory Session_Facts
  imports Stream_Life
begin

text \<open>
  Correctness of the session layer: streaming a file through the read callback, the callbacks of
  a request from its first header to its last frame, and what goes wrong with some of them.
\<close>

section \<open>Streaming a file\<close>

text \<open>The offset as an \<open>int\<close> and as a \<open>size_t\<close>, below and above the range of \<open>int\<close>.\<close>

lemma sint_small: "k < 2 ^ 31 \<Longrightarrow> sint (of_nat k :: 32 word) = int k"
  by (simp add: signed_of_nat signed_take_bit_int_eq_self)

lemma scast_small: "k < 2 ^ 31 \<Longrightarrow> (scast (of_nat k :: 32 word) :: u64) = of_nat k"
  by (simp only: scast_eq sint_small of_int_of_nat_eq)

lemma ucast_of_nat_small: "(ucast (of_nat k :: u64) :: 32 word) = of_nat k"
  by (simp add: word_unat_eq_iff unat_ucast_mod unsigned_of_nat take_bit_eq_mod mod_mod_cancel)

lemma unat_u64: "k < 2 ^ 64 \<Longrightarrow> unat (of_nat k :: u64) = k"
  by (simp add: unat_of_nat)

lemma unat_min: "unat (min (a :: 'a::len word) b) = min (unat a) (unat b)"
  by (simp add: min_def word_le_nat_alt)

lemma sint_wrapped:
  assumes "2 ^ 31 \<le> k" "k < 2 ^ 32"
  shows "sint (of_nat k :: 32 word) = int k - 2 ^ 32"
proof -
  have "(int k + 2 ^ 31) mod 2 ^ 32 = int k - 2 ^ 31"
    using assms mod_add_self2 [of "int k - 2 ^ 31" "2 ^ 32"] by (simp add: algebra_simps)
  then show ?thesis by (simp add: signed_of_nat signed_take_bit_eq_take_bit_shift take_bit_eq_mod)
qed

lemma scast_wrapped:
  assumes "2 ^ 31 \<le> k" "k < 2 ^ 32"
  shows "unat (scast (of_nat k :: 32 word) :: u64) = 2 ^ 64 + k - 2 ^ 32"
proof -
  have "(int k - 2 ^ 32) mod 2 ^ 64 = int k - 2 ^ 32 + 2 ^ 64"
    using assms mod_add_self2 [of "int k - 2 ^ 32" "2 ^ 64"] by (simp add: algebra_simps)
  then have "uint (scast (of_nat k :: 32 word) :: u64) = int k - 2 ^ 32 + 2 ^ 64"
    by (simp only: scast_eq sint_wrapped [OF assms] uint_word_of_int) simp
  then show ?thesis using assms by (simp add: unat_eq_nat_uint nat_eq_iff)
qed

lemma unat_diff_u64:
  assumes "k \<le> n" "n < 2 ^ 64"
  shows "unat (of_nat n - of_nat k :: u64) = n - k"
  using assms by (metis of_nat_diff unat_u64 diff_le_self le_less_trans)

text \<open>A file context that shows \<open>content\<close> and has sent its first \<open>k\<close> bytes.\<close>

definition file_at :: "string \<Rightarrow> nat \<Rightarrow> file_context" where
  "file_at content k =
     \<lparr>ctx_size = of_nat (length content), ctx_offset = of_nat k, ctx_data = Mapped content\<rparr>"

lemma copy_len_at:
  assumes "k \<le> length content" "length content < 2 ^ 64" "k < 2 ^ 31"
  shows "unat (min len (ctx_size (file_at content k) - (scast (ctx_offset (file_at content k)) :: u64))) =
    min (unat len) (length content - k)"
  using assms by (simp add: file_at_def scast_small unat_min unat_diff_u64)

lemma file_read_at:
  fixes len :: u64 and content :: string
  assumes "k \<le> length content" "length content < 2 ^ 64" "k < 2 ^ 31"
  defines "m \<equiv> min (unat len) (length content - k)"
  shows "\<exists>eof. file_read_callback len (Some (file_at content k)) =
      Inr ((int m, take m (drop k content), eof), Some (file_at content (k + m)))
    \<and> (k + m < 2 ^ 31 \<longrightarrow> (eof \<longleftrightarrow> k + m = length content))
    \<and> (2 ^ 31 \<le> k + m \<longrightarrow> k + m < 2 ^ 32 \<longrightarrow> length content < 2 ^ 63 \<longrightarrow> \<not> eof)"
proof -
  let ?copy = "min len (ctx_size (file_at content k) - (scast (ctx_offset (file_at content k)) :: u64))"
  let ?eof = "(scast (of_nat (k + m) :: 32 word) :: u64) = of_nat (length content)"
  have m: "unat ?copy = m" unfolding m_def using copy_len_at [OF assms(1-3)] .
  then have copy: "?copy = of_nat m" by (metis of_nat_unat ucast_id)
  with m have um: "unat (of_nat m :: u64) = m" by simp
  have "int k + int m \<le> int (length content)" using assms(1) by (simp add: m_def)
  then have bytes: "read_mapping (Mapped content) (int k) m = Inr (take m (drop k content))"
    by (simp add: read_mapping_def)
  have off: "(ucast ((scast (of_nat k :: 32 word) :: u64) + of_nat m) :: 32 word) = of_nat (k + m)"
    unfolding scast_small [OF assms(3)] of_nat_add [symmetric] by (rule ucast_of_nat_small)
  have "file_read_callback len (Some (file_at content k)) =
      Inr ((int m, take m (drop k content), ?eof), Some (file_at content (k + m)))"
    unfolding file_read_callback_def option.case Let_def copy um
    by (simp only: file_at_def file_context.simps sint_small [OF assms(3)] bytes off obind_simps)
  moreover have "?eof \<longleftrightarrow> k + m = length content" if "k + m < 2 ^ 31"
    using that assms(1,2) scast_small [OF that] unat_u64 [of "k + m"] unat_u64 [of "length content"]
    by (metis le_less_trans less_imp_le_nat m_def add_leD1 add_le_mono1 min.cobounded2 le_add_diff_inverse nat_add_left_cancel_le)
  moreover have "\<not> ?eof" if "2 ^ 31 \<le> k + m" "k + m < 2 ^ 32" "length content < 2 ^ 63"
    using that scast_wrapped [OF that(1,2)] unat_u64 [of "length content"] by auto
  ultimately show ?thesis by blast
qed

text \<open>The reads that nghttp2 makes for a response, one per DATA frame, until the end is reported.\<close>

fun stream_file :: "u64 list \<Rightarrow> file_context \<Rightarrow> (string list \<times> bool) outcome" where
  "stream_file [] ctx = Inr ([], False)"
| "stream_file (len # lens) ctx =
     obind (file_read_callback len (Some ctx)) (\<lambda>((n, bytes, eof), source).
       if eof then Inr ([bytes], True)
       else case source of
              None \<Rightarrow> Inr ([bytes], False)
            | Some ctx' \<Rightarrow> obind (stream_file lens ctx') (\<lambda>(chunks, eof). Inr (bytes # chunks, eof)))"

lemma pow2_order: "(2::nat) ^ 32 = 2 * 2 ^ 31" "(2::nat) ^ 31 < 2 ^ 64" "(2::nat) ^ 63 < 2 ^ 64"
  by simp_all

lemma stream_file_at:
  assumes "k \<le> length content" "length content < 2 ^ 31"
  shows "\<exists>chunks. stream_file lens (file_at content k) =
      Inr (chunks, lens \<noteq> [] \<and> length content \<le> k + sum_list (map unat lens))
    \<and> concat chunks = take (sum_list (map unat lens)) (drop k content)"
  using assms(1)
proof (induction lens arbitrary: k)
  case Nil
  then show ?case by simp
next
  case (Cons len lens)
  let ?m = "min (unat len) (length content - k)"
  from Cons.prems assms(2) pow2_order have "k + ?m < 2 ^ 31" "k < 2 ^ 31" "length content < 2 ^ 64"
    by linarith+
  with file_read_at [of k content len] Cons.prems obtain eof where
    read: "file_read_callback len (Some (file_at content k)) =
      Inr ((int ?m, take ?m (drop k content), eof), Some (file_at content (k + ?m)))"
    and eof: "eof \<longleftrightarrow> k + ?m = length content" by auto
  show ?case
  proof (cases eof)
    case True
    with eof Cons.prems have "length content \<le> k + unat len" by linarith
    with True read eof show ?thesis by (auto simp: min_def)
  next
    case False
    with eof Cons.prems have m: "?m = unat len" "k + unat len \<le> length content" by linarith+
    from Cons.IH [of "k + unat len"] m(2) obtain chunks where
      "stream_file lens (file_at content (k + unat len)) =
        Inr (chunks, lens \<noteq> [] \<and> length content \<le> k + unat len + sum_list (map unat lens))"
      "concat chunks = take (sum_list (map unat lens)) (drop (k + unat len) content)" by auto
    moreover have "k + unat len \<noteq> length content" using False eof m by simp
    ultimately show ?thesis using False read m
      by (auto simp: take_add add.commute add.left_commute)
  qed
qed

lemma read_after_wrap:
  assumes "2 ^ 31 \<le> j" "j < 2 ^ 32" "length content < 2 ^ 63" "len \<noteq> 0"
  shows "file_read_callback len (Some (file_at content j)) = Inl OutOfBounds"
proof -
  have "(of_nat (length content) :: u64) \<noteq> scast (of_nat j :: 32 word)"
    using scast_wrapped [OF assms(1,2)] unat_u64 [of "length content"] assms by auto
  then have "min len (of_nat (length content) - (scast (of_nat j :: 32 word) :: u64)) \<noteq> 0"
    using assms(4) by (auto simp: min_def)
  then have "unat (min len (of_nat (length content) - (scast (of_nat j :: 32 word) :: u64))) \<noteq> 0"
    by (simp add: unat_eq_zero)
  moreover have "sint (of_nat j :: 32 word) < 0" using sint_wrapped [OF assms(1,2)] assms(2) by simp
  ultimately show ?thesis
    by (simp add: file_read_callback_def file_at_def read_mapping_def Let_def)
qed

lemma stream_large_file:
  assumes "k < 2 ^ 31" "2 ^ 31 \<le> length content" "length content < 2 ^ 63"
    and "\<forall>len \<in> set lens. len \<noteq> 0 \<and> unat len < 2 ^ 31"
    and "2 ^ 31 \<le> k + sum_list (map unat (butlast lens))"
  shows "stream_file lens (file_at content k) = Inl OutOfBounds"
  using assms(1,4,5)
proof (induction lens arbitrary: k)
  case Nil
  then show ?case by simp
next
  case (Cons len lens)
  let ?m = "min (unat len) (length content - k)"
  have lens: "lens \<noteq> []" using Cons.prems(1,3) by auto
  have len: "unat len < 2 ^ 31" using Cons.prems(2) by simp
  have "k \<le> length content" "length content < 2 ^ 64" "k + ?m < 2 ^ 32"
    using Cons.prems(1) assms(2,3) len pow2_order by linarith+
  with file_read_at [of k content len] Cons.prems(1) assms(3) obtain eof where
    read: "file_read_callback len (Some (file_at content k)) =
      Inr ((int ?m, take ?m (drop k content), eof), Some (file_at content (k + ?m)))"
    and eof: "k + ?m < 2 ^ 31 \<longrightarrow> (eof \<longleftrightarrow> k + ?m = length content)"
      "2 ^ 31 \<le> k + ?m \<longrightarrow> \<not> eof" by auto
  have "stream_file lens (file_at content (k + ?m)) = Inl OutOfBounds \<and> \<not> eof"
  proof (cases "k + ?m < 2 ^ 31")
    case True
    with assms(2) have m: "?m = unat len" by linarith
    have "2 ^ 31 \<le> k + ?m + sum_list (map unat (butlast lens))"
      using Cons.prems(3) lens by (simp only: m) simp
    with True eof assms(2) Cons.IH [OF True] Cons.prems(2) show ?thesis by auto
  next
    case False
    obtain l ls where "lens = l # ls" using lens by (cases lens) auto
    with False read_after_wrap [of "k + ?m" content l] \<open>k + ?m < 2 ^ 32\<close> assms(3) Cons.prems(2) eof
    show ?thesis by auto
  qed
  with read show ?case by simp
qed

section \<open>Receiving a request\<close>

text \<open>
  The state of a session while the request on stream \<open>i\<close> arrives: the stream data is at address
  \<open>p\<close>, the router, the nghttp2 session, the cache and the files are as given.
\<close>

definition receiving :: "'n nghttp2 \<Rightarrow> u32 \<Rightarrow> addr \<Rightarrow> stream_data \<Rightarrow> 'h router_node option \<Rightarrow> 'n
    \<Rightarrow> file_cache \<Rightarrow> file_system \<Rightarrow> ('n, 'h, 'l) req_context \<Rightarrow> bool" where
  "receiving ng i p st root n cache fs cx \<longleftrightarrow>
     sd_session (cx_session cx) = Some n \<and> ng_get_stream_user_data ng n i = Some p
     \<and> map_of (sd_streams (cx_session cx)) p = Some st \<and> sd_router (cx_session cx) = root
     \<and> cx_cache cx = cache \<and> cx_fs cx = fs"

lemma receiving_update:
  assumes "receiving ng i p st root n cache fs cx" "f st fs = (st', fs')"
  shows "\<exists>cx'. update_stream ng i f cx = Inr (0, cx') \<and> receiving ng i p st' root n cache fs' cx'"
  using assms
  by (auto simp: receiving_def update_stream_def stream_user_data_def deref_session_def deref_stream_def
      store_stream_def AList.update_conv')

lemma receiving_begin:
  assumes "sd_session (cx_session cx) = Some n" "hd_type frame = HEADERS_FRAME" "hd_cat frame = HCAT_REQUEST"
    and "ng_get_stream_user_data ng (ng_set_stream_user_data ng n (hd_stream_id frame) (fresh_addr (cx_session cx)))
           (hd_stream_id frame) = Some (fresh_addr (cx_session cx))"
  shows "\<exists>cx'. run_callback ho ng call (OnBeginHeaders frame) cx = Inr (0, cx')
    \<and> receiving ng (hd_stream_id frame) (fresh_addr (cx_session cx)) (new_stream_data (hd_stream_id frame))
        (sd_router (cx_session cx))
        (ng_set_stream_user_data ng n (hd_stream_id frame) (fresh_addr (cx_session cx)))
        (cx_cache cx) (cx_fs cx) cx'"
proof -
  have "map_of (sd_streams (cx_session cx)) (fresh_addr (cx_session cx)) = None"
    using fresh_addr_not_live [of "cx_session cx"] by (simp add: map_of_eq_None_iff)
  with assms show ?thesis
    by (simp add: run_callback_def on_begin_headers_callback_def add_stream_data_to_session_def
        deref_session_def create_stream_data_def new_stream_data_def Let_def receiving_def map_add_def)
qed

text \<open>Running the callbacks of a request one after the other, while they return 0.\<close>

fun run_callbacks ::
    "host \<Rightarrow> 'n nghttp2 \<Rightarrow> ('n, 'h, 'l) handler_call \<Rightarrow> ng_callback list \<Rightarrow> ('n, 'h, 'l) req_context
      \<Rightarrow> (int \<times> ('n, 'h, 'l) req_context) outcome" where
  "run_callbacks ho ng call [] cx = Inr (0, cx)"
| "run_callbacks ho ng call (q # qs) cx =
     obind (run_callback ho ng call q cx) (\<lambda>(r, cx').
       if r \<noteq> 0 then Inr (r, cx') else run_callbacks ho ng call qs cx')"

lemma run_callbacks_append:
  assumes "run_callbacks ho ng call qs cx = Inr (0, cx')"
  shows "run_callbacks ho ng call (qs @ rs) cx = run_callbacks ho ng call rs cx'"
  using assms
proof (induction qs arbitrary: cx)
  case (Cons q qs)
  then show ?case
    by (cases "run_callback ho ng call q cx") (auto split: prod.splits if_splits)
qed simp

text \<open>What the headers of a request do to the stream and, for a parser that is replaced, the files.\<close>

definition apply_header :: "host \<Rightarrow> string \<times> string \<Rightarrow> stream_data \<times> file_system \<Rightarrow> stream_data \<times> file_system" where
  "apply_header ho h s =
     (let (name, v) = h; (st, fs) = s in
      if name = '':path'' then (st\<lparr>st_request_path := v\<rparr>, fs)
      else if name = '':method'' then set_method ho v st fs
      else if name = ''content-type'' then (set_content_type v st, fs)
      else (st, fs))"

definition header_callbacks :: "ng_frame \<Rightarrow> header_list \<Rightarrow> ng_callback list" where
  "header_callbacks frame hdrs = map (\<lambda>(name, v). OnHeader frame name v) hdrs"

definition request_callbacks :: "ng_frame \<Rightarrow> header_list \<Rightarrow> string list \<Rightarrow> ng_frame \<Rightarrow> ng_callback list" where
  "request_callbacks frame hdrs chunks last_frame =
     (OnBeginHeaders frame # header_callbacks frame hdrs)
     @ map (OnDataChunkRecv (hd_stream_id frame)) chunks @ [OnFrameRecv last_frame]"

lemma receiving_headers:
  assumes "receiving ng (hd_stream_id frame) p st root n cache fs cx"
    "hd_type frame = HEADERS_FRAME" "hd_cat frame = HCAT_REQUEST"
  shows "\<exists>cx'. run_callbacks ho ng call (header_callbacks frame hdrs) cx = Inr (0, cx')
    \<and> receiving ng (hd_stream_id frame) p (fst (fold (apply_header ho) hdrs (st, fs))) root n cache
        (snd (fold (apply_header ho) hdrs (st, fs))) cx'"
  using assms(1)
proof (induction hdrs arbitrary: st fs cx)
  case Nil
  then show ?case by (auto simp: header_callbacks_def)
next
  case (Cons h hdrs)
  obtain name v where h: "h = (name, v)" by fastforce
  let ?s = "apply_header ho h (st, fs)"
  have "\<exists>cx'. on_header_callback ho ng frame name v cx = Inr (0, cx')
      \<and> receiving ng (hd_stream_id frame) p (fst ?s) root n cache (snd ?s) cx'"
    using Cons.prems receiving_update [OF Cons.prems] assms(2,3)
    by (auto simp: on_header_callback_def apply_header_def h)
  then obtain cx' where "run_callback ho ng call (OnHeader frame name v) cx = Inr (0, cx')"
    "receiving ng (hd_stream_id frame) p (fst ?s) root n cache (snd ?s) cx'"
    by (auto simp: run_callback_def)
  with Cons.IH [of "fst ?s" "snd ?s" cx'] show ?case by (simp add: header_callbacks_def h)
qed

text \<open>The chunks of the body are collected in order.\<close>

lemma receiving_chunks:
  assumes "receiving ng i p st root n cache fs cx"
  shows "\<exists>cx'. run_callbacks ho ng call (map (OnDataChunkRecv i) chunks) cx = Inr (0, cx')
    \<and> receiving ng i p (st\<lparr>st_upload_file_buffer := st_upload_file_buffer st @ concat chunks\<rparr>) root n cache fs cx'"
  using assms
proof (induction chunks arbitrary: st cx)
  case Nil
  then show ?case by auto
next
  case (Cons chunk chunks)
  let ?st = "st\<lparr>st_upload_file_buffer := st_upload_file_buffer st @ chunk\<rparr>"
  have "(if chunk \<noteq> [] then ?st else st) = ?st" by simp
  with receiving_update [OF Cons.prems, of "\<lambda>st fs. (if chunk \<noteq> []
      then st\<lparr>st_upload_file_buffer := st_upload_file_buffer st @ chunk\<rparr> else st, fs)" ?st fs]
  obtain cx' where "run_callback ho ng call (OnDataChunkRecv i chunk) cx = Inr (0, cx')"
    "receiving ng i p ?st root n cache fs cx'"
    by (auto simp: run_callback_def on_data_chunk_recv_callback_def)
  with Cons.IH [of ?st cx'] show ?case by simp
qed

text \<open>The state in which the last frame of a request finds the session.\<close>

lemma receiving_request:
  fixes cx :: "('n, 'h, 'l) req_context" and frame :: ng_frame and ho :: host and hdrs :: header_list
  defines "p \<equiv> fresh_addr (cx_session cx)" and "i \<equiv> hd_stream_id frame"
  defines "s \<equiv> fold (apply_header ho) hdrs (new_stream_data (hd_stream_id frame), cx_fs cx)"
  assumes "sd_session (cx_session cx) = Some n" "hd_type frame = HEADERS_FRAME" "hd_cat frame = HCAT_REQUEST"
    and "ng_get_stream_user_data ng (ng_set_stream_user_data ng n i p) i = Some p"
  shows "\<exists>cx'. run_callbacks ho ng call (request_callbacks frame hdrs chunks last_frame) cx =
      run_callbacks ho ng call [OnFrameRecv last_frame] cx'
    \<and> receiving ng i p ((fst s)\<lparr>st_upload_file_buffer := st_upload_file_buffer (fst s) @ concat chunks\<rparr>)
        (sd_router (cx_session cx)) (ng_set_stream_user_data ng n i p) (cx_cache cx) (snd s) cx'"
proof -
  from receiving_begin [OF assms(4,5,6) assms(7) [unfolded p_def i_def]]
  obtain cx1 where c1: "run_callback ho ng call (OnBeginHeaders frame) cx = Inr (0, cx1)"
    "receiving ng i p (new_stream_data i) (sd_router (cx_session cx)) (ng_set_stream_user_data ng n i p)
      (cx_cache cx) (cx_fs cx) cx1" unfolding p_def i_def by blast
  from receiving_headers [OF c1(2) [unfolded i_def] assms(5,6), of ho call hdrs]
  obtain cx2 where c2: "run_callbacks ho ng call (header_callbacks frame hdrs) cx1 = Inr (0, cx2)"
    "receiving ng i p (fst s) (sd_router (cx_session cx)) (ng_set_stream_user_data ng n i p) (cx_cache cx)
      (snd s) cx2" unfolding i_def s_def by blast
  from receiving_chunks [OF c2(2), of ho call chunks]
  obtain cx3 where c3: "run_callbacks ho ng call (map (OnDataChunkRecv i) chunks) cx2 = Inr (0, cx3)"
    "receiving ng i p ((fst s)\<lparr>st_upload_file_buffer := st_upload_file_buffer (fst s) @ concat chunks\<rparr>)
      (sd_router (cx_session cx)) (ng_set_stream_user_data ng n i p) (cx_cache cx) (snd s) cx3" by blast
  have "run_callbacks ho ng call (OnBeginHeaders frame # header_callbacks frame hdrs) cx = Inr (0, cx2)"
    using c1(1) c2(1) by simp
  from run_callbacks_append [OF this] run_callbacks_append [OF c3(1)] c3(2) show ?thesis
    unfolding request_callbacks_def i_def by auto
qed

section \<open>Properties\<close>

text \<open>A concrete library for the witnesses: user data per stream and the queue of responses.\<close>

type_synonym demo_session =
  "(u32 \<Rightarrow> addr option) \<times> (u32 \<times> header_list \<times> data_provider option) list"

definition demo_ng :: "demo_session nghttp2" where
  "demo_ng = \<lparr>ng_get_stream_user_data = (\<lambda>n i. fst n i),
     ng_set_stream_user_data = (\<lambda>n i p. ((fst n)(i \<mapsto> p), snd n)),
     ng_submit_response = (\<lambda>n i hdrs prd. (0, (fst n, snd n @ [(i, hdrs, prd)]))),
     ng_last_proc_stream_id = (\<lambda>_. 0), ng_submit_goaway = (\<lambda>n _. n),
     ng_submit_settings = (\<lambda>n _. (0, n)), ng_want_read = (\<lambda>_. True),
     ng_want_write = (\<lambda>n. snd n \<noteq> []), ng_callbacks_new = 0, ng_server_new = (0, (\<lambda>_. None, [])),
     ng_mem_recv = (\<lambda>n buf. LibReturn (int (length buf)) n),
     ng_mem_send = (\<lambda>n. LibReturn (0, []) (fst n, []))\<rparr>"

text \<open>The data source that the library still holds for a stream: the one of its last response.\<close>

definition demo_prov :: "demo_session \<Rightarrow> u32 \<Rightarrow> data_provider option" where
  "demo_prov n i = Option.bind (map_of (rev (snd n)) i) snd"

lemma demo_ng_laws: "ng_laws demo_ng demo_prov"
  by (auto simp: ng_laws_def demo_ng_def demo_prov_def view_def fun_eq_iff)

definition demo_frame :: "u8 \<Rightarrow> ng_frame" where
  "demo_frame flags = \<lparr>hd_type = HEADERS_FRAME, hd_flags = flags, hd_stream_id = 1, hd_cat = HCAT_REQUEST\<rparr>"

definition demo_host :: host where
  "demo_host = \<lparr>ho_files = demo_os, ho_maps = demo_maps, ho_addr = (\<lambda>_. ''0x1''), ho_tid = ''7''\<rparr>"

definition demo_cx :: "'h router_node \<Rightarrow> file_system \<Rightarrow> (demo_session, 'h, unit) req_context" where
  "demo_cx root fs = \<lparr>cx_session = new_session_data\<lparr>sd_router := Some root, sd_session := Some (\<lambda>_. None, [])\<rparr>,
     cx_cache = Map.empty, cx_fs = fs\<rparr>"

lemma demo_cx_simps [simp]:
  "sd_session (cx_session (demo_cx root fs)) = Some (\<lambda>_. None, [])"
  "sd_router (cx_session (demo_cx root fs)) = Some root"
  "sd_streams (cx_session (demo_cx root fs)) = []"
  "cx_cache (demo_cx root fs) = Map.empty" "cx_fs (demo_cx root fs) = fs"
  by (simp_all add: demo_cx_def new_session_data_def)

lemma demo_ng_simps [simp]:
  "ng_get_stream_user_data demo_ng (ng_set_stream_user_data demo_ng n i p) i = Some p"
  "fst (ng_submit_response demo_ng n i hdrs prd) = 0"
  by (simp_all add: demo_ng_def)

text \<open>
  C13: for a file of fewer than 2^31 bytes, the reads that nghttp2 makes, whatever buffer sizes it
  offers, never fault, deliver the bytes of the file in order without gap or repetition, and
  report the end exactly with the read that completes the file.
\<close>

theorem streaming_delivers_file:
  assumes "length content < 2 ^ 31"
  shows "\<exists>chunks. stream_file lens (file_at content 0) =
      Inr (chunks, lens \<noteq> [] \<and> length content \<le> sum_list (map unat lens))
    \<and> concat chunks = take (sum_list (map unat lens)) content"
  using stream_file_at [of 0 content lens] assms by simp

theorem streaming_delivers_file_witness:
  "\<exists>chunks. stream_file [4, 0, 3, 9] (file_at ''hello world'' 0) = Inr (chunks, True)
    \<and> concat chunks = ''hello world''"
  using streaming_delivers_file [of "''hello world''" "[4, 0, 3, 9]"] by simp

text \<open>
  C40: a file of 2^31 bytes or more cannot be sent: the offset is an \<open>int\<close> and becomes negative, so
  once the reads have passed 2^31 bytes, the next one copies from before the mapping.
\<close>

theorem large_file_faults:
  assumes "2 ^ 31 \<le> length content" "length content < 2 ^ 63"
    and "\<forall>len \<in> set lens. len \<noteq> 0 \<and> unat len < 2 ^ 31"
    and "2 ^ 31 \<le> sum_list (map unat (butlast lens))"
  shows "stream_file lens (file_at content 0) = Inl OutOfBounds"
  using stream_large_file [of 0 content lens] assms by simp

theorem large_file_faults_witness:
  "stream_file [2 ^ 30, 2 ^ 30, 1] (file_at (replicate (2 ^ 31) CHR ''a'') 0) = Inl OutOfBounds"
  by (rule large_file_faults) simp_all

text \<open>
  A request whose method is neither GET nor POST leaves the method of its stream
  uninitialised, and completing the request reads it: the behaviour is undefined as soon as a
  router is installed.
\<close>

theorem unknown_method_uninitialised:
  fixes cx :: "('n, 'h, 'l) req_context" and frame :: ng_frame
  assumes "v \<noteq> ''GET''" "v \<noteq> ''POST''"
    and "sd_session (cx_session cx) = Some n" "sd_router (cx_session cx) \<noteq> None"
    and "hd_type frame = HEADERS_FRAME" "hd_cat frame = HCAT_REQUEST"
    and "and (hd_flags frame) NGHTTP2_FLAG_END_STREAM \<noteq> 0"
    and "\<forall>p. ng_get_stream_user_data ng (ng_set_stream_user_data ng n (hd_stream_id frame) p)
               (hd_stream_id frame) = Some p"
  shows "run_callbacks ho ng call
      (request_callbacks frame [('':method'', v), ('':path'', path)] [] frame) cx = Inl Uninitialised"
proof -
  let ?hdrs = "[('':method'', v), ('':path'', path)]"
  let ?s = "fold (apply_header ho) ?hdrs (new_stream_data (hd_stream_id frame), cx_fs cx)"
  have st: "st_method (fst ?s) = None"
    using assms(1,2) by (simp add: apply_header_def set_method_def new_stream_data_def)
  from receiving_request [OF assms(3,5,6), of ng ho call ?hdrs "[]" frame] assms(8)
  obtain cx' p n' where run: "run_callbacks ho ng call (request_callbacks frame ?hdrs [] frame) cx =
      run_callbacks ho ng call [OnFrameRecv frame] cx'"
    and r: "receiving ng (hd_stream_id frame) p (fst ?s) (sd_router (cx_session cx)) n' (cx_cache cx) (snd ?s) cx'"
    by auto
  then show ?thesis using st assms(4,5,7)
    by (auto simp: run_callback_def on_frame_recv_callback_def Let_def stream_user_data_def
        deref_session_def receiving_def on_request_recv_def deref_stream_def)
qed

theorem unknown_method_uninitialised_witness:
  "run_callbacks demo_host demo_ng (\<lambda>h p param cx. Inr (0, cx))
     (request_callbacks (demo_frame 1) [('':method'', ''PUT''), ('':path'', ''/'')] [] (demo_frame 1))
     (demo_cx sample_router Map.empty) = Inl Uninitialised"
  using unknown_method_uninitialised [of "''PUT''" "demo_cx sample_router Map.empty" "(\<lambda>_. None, [])"
      "demo_frame 1" demo_ng demo_host "\<lambda>h p param cx. Inr (0, cx)" "''/''"]
  by (simp add: demo_frame_def NGHTTP2_FLAG_END_STREAM_def)

end
