(* ===== verification/Handler.thy ===== *)
theory Handler
  imports Session_Facts
begin

text \<open>
  The request handlers (\<open>handler.cc\<close>) and the routes that \<open>main.cc\<close> registers. The lemmas follow
  a request from its first header to the reply: a download hands the cached bytes of the file to
  the read callback, an upload leaves the content on disk.
\<close>

section \<open>Handlers\<close>

text \<open>A reply is made on the session of the context.\<close>

definition in_session ::
    "(('n, 'h, 'l) session_data \<Rightarrow> (int \<times> ('n, 'h, 'l) session_data) outcome)
      \<Rightarrow> ('n, 'h, 'l) req_context \<Rightarrow> (int \<times> ('n, 'h, 'l) req_context) outcome" where
  "in_session f cx = obind (f (cx_session cx)) (\<lambda>(rv, sd). Inr (rv, cx\<lparr>cx_session := sd\<rparr>))"

definition downloader ::
    "host \<Rightarrow> 'n nghttp2 \<Rightarrow> addr \<Rightarrow> string \<Rightarrow> ('n, 'h, 'l) req_context
      \<Rightarrow> (int \<times> ('n, 'h, 'l) req_context) outcome" where
  "downloader ho ng p rel_path cx =
     (if rel_path = [] then in_session (reply_404 ng p) cx
      else case load_file_from_filecache (ho_maps ho) (cx_fs cx) rel_path (cx_cache cx) of
             (None, cache) \<Rightarrow> in_session (reply_404 ng p) (cx\<lparr>cx_cache := cache\<rparr>)
           | (Some file, cache) \<Rightarrow>
               obind (deref_stream p (cx_session cx)) (\<lambda>st.
                 let st' = st\<lparr>st_file_ctx := (st_file_ctx st)\<lparr>ctx_data := get_data file,
                                                          ctx_size := get_data_len file\<rparr>\<rparr>
                 in in_session (reply_ok_with_file ng p)
                      (cx\<lparr>cx_cache := cache, cx_session := store_stream p st' (cx_session cx)\<rparr>)))"

definition uploader ::
    "host \<Rightarrow> 'n nghttp2 \<Rightarrow> addr \<Rightarrow> string \<Rightarrow> ('n, 'h, 'l) req_context
      \<Rightarrow> (int \<times> ('n, 'h, 'l) req_context) outcome" where
  "uploader ho ng p rel_path cx =
     obind (deref_stream p (cx_session cx)) (\<lambda>st.
       case st_mime_parser st of
         None \<Rightarrow> in_session (reply_ok ng p) cx
       | Some mp \<Rightarrow>
           let (completed, mp', fs') =
                 parser_write (ho_files ho) (ho_addr ho p) (ho_tid ho) (st_upload_file_buffer st) mp (cx_fs cx);
               cx1 = cx\<lparr>cx_session := store_stream p (st\<lparr>st_mime_parser := Some mp'\<rparr>) (cx_session cx),
                        cx_fs := fs'\<rparr>
           in if completed then
                (case load_file_from_filecache (ho_maps ho) fs' (get_filename mp') (cx_cache cx1) of
                   (None, cache) \<Rightarrow> in_session (reply_404 ng p) (cx1\<lparr>cx_cache := cache\<rparr>)
                 | (Some _, cache) \<Rightarrow> in_session (reply_ok ng p) (cx1\<lparr>cx_cache := cache\<rparr>))
              else in_session (reply_ok ng p) cx1)"

datatype app_handler = Downloader | Uploader

fun app_call :: "host \<Rightarrow> 'n nghttp2 \<Rightarrow> ('n, app_handler, 'l) handler_call" where
  "app_call ho ng Downloader = downloader ho ng"
| "app_call ho ng Uploader = uploader ho ng"

text \<open>The two registrations of \<open>main\<close>, whose results are not looked at.\<close>

definition app_router :: "app_handler router_node outcome" where
  "app_router =
     obind (router_add GET ''/files/{file_name}'' Downloader empty_node) (\<lambda>(_, r1).
       obind (router_add POST ''/files'' Uploader r1) (\<lambda>(_, r2). Inr r2))"

definition app_routes :: "app_handler router_node" where
  "app_routes = RouterNode
     [(''files'', RouterNode [] (Some (RouterNode [] None [] [Some Downloader, None])) ''file_name''
        [None, Some Uploader])] None [] [None, None]"

lemma app_router_eq: "app_router = Inr app_routes"
  by (simp add: app_router_def app_routes_def router_add_def split_path_segments_pieces empty_node_def
      is_param_seg_def vec_set_def substr_def numeral_2_eq_2)

lemma app_routes_wf: "router_wf app_routes"
  by (simp add: app_routes_def is_param_seg_def)

lemma split_files_path:
  assumes "name \<noteq> []" "CHR ''/'' \<notin> set name"
  shows "split_path_segments (''/files/'' @ name) = [''files'', name]"
  using assms pieces_word(2) [OF assms(2)] by (simp add: split_path_segments_pieces)

lemma app_route_download:
  assumes "name \<noteq> []" "CHR ''/'' \<notin> set name"
  shows "router_resolve GET (''/files/'' @ name) app_routes = Inr (Some Downloader, name)"
  using split_files_path [OF assms] by (simp add: router_resolve_def app_routes_def)



section \<open>The handlers keep the contract of the session layer\<close>

lemma in_session_keeps:
  "keeps V (cx_session cx) (f (cx_session cx)) \<Longrightarrow> cx_keeps V cx (in_session f cx)"
  unfolding in_session_def by (rule cx_keeps_lift)

lemma cx_keeps_after:
  assumes "same_streams V (cx_session cx) (cx_session cx1)" "cx_keeps V cx1 res"
  shows "cx_keeps V cx res"
  using assms by (cases res) (auto simp: cx_keeps_def intro: same_streams_trans)

lemma reply_keeps:
  assumes "ng_laws ng prov" "live (view ng prov) p (cx_session cx)"
    "same_streams (view ng prov) (cx_session cx) (cx_session cx1)"
  shows "cx_keeps (view ng prov) cx (in_session (reply_ok ng p) cx1)"
    "cx_keeps (view ng prov) cx (in_session (reply_404 ng p) cx1)"
    "cx_keeps (view ng prov) cx (in_session (reply_ok_with_file ng p) cx1)"
  by (rule cx_keeps_after [OF assms(3)], rule in_session_keeps,
      rule replies_keep [OF assms(1) same_streams_live [OF assms(3,2)]])+

text \<open>A file that the loader returns has a data pointer.\<close>

lemma loaded_nonnull:
  assumes "mmap_nonnull os" "load_file_from_filecache os fs path cache = (Some f, cache')"
  shows "mf_data f \<noteq> NullPtr"
  using assms
  by (auto simp: load_file_from_filecache_def insert_file_into_filecache_def find_file_from_filecache_def
      is_mapped_def get_data_def map_file_def mmap_nonnull_def Let_def split: option.splits if_splits prod.splits)

lemma downloader_keeps:
  assumes "mmap_nonnull (ho_maps ho)" "ng_laws ng prov" "live (view ng prov) p (cx_session cx)"
  shows "cx_keeps (view ng prov) cx (downloader ho ng p rel_path cx)"
proof -
  obtain st where st: "deref_stream p (cx_session cx) = Inr st" "map_of (sd_streams (cx_session cx)) p = Some st"
    using deref_live [OF assms(3)] by blast
  note session = live_session [OF assms(3)]
  note r = reply_keeps [OF assms(2,3)]
  obtain f cache where l: "load_file_from_filecache (ho_maps ho) (cx_fs cx) rel_path (cx_cache cx) = (f, cache)"
    by fastforce
  have "same_streams (view ng prov) (cx_session cx) (store_stream p
      (st\<lparr>st_file_ctx := (st_file_ctx st)\<lparr>ctx_data := get_data g, ctx_size := get_data_len g\<rparr>\<rparr>) (cx_session cx))"
    if "f = Some g" for g
    using loaded_nonnull [OF assms(1)] l that
    by (intro store_stream_same [OF st(2) _ session]) (auto simp: ctx_ok_def get_data_def)
  then show ?thesis
    unfolding downloader_def st Let_def obind_simps l
    by (cases f) (auto intro!: r same_streams_refl [OF session])
qed

lemma uploader_keeps:
  assumes "ng_laws ng prov" "live (view ng prov) p (cx_session cx)"
  shows "cx_keeps (view ng prov) cx (uploader ho ng p rel_path cx)"
proof -
  obtain st where st: "deref_stream p (cx_session cx) = Inr st" "map_of (sd_streams (cx_session cx)) p = Some st"
    using deref_live [OF assms(2)] by blast
  note session = live_session [OF assms(2)]
  note r = reply_keeps [OF assms]
  show ?thesis
    unfolding uploader_def st Let_def obind_simps
    by (auto split: prod.splits option.splits
        intro!: r(1,2) same_streams_refl [OF session] store_stream_same [OF st(2) _ session])
qed

interpretation rh: request_handler app_call
proof unfold_locales
  fix ho :: host and ng :: "'a nghttp2" and prov p h param and cx :: "('a, app_handler, 'b) req_context"
  assume "mmap_nonnull (ho_maps ho)" "ng_laws ng prov" "live (view ng prov) p (cx_session cx)"
  then show "cx_keeps (view ng prov) cx (app_call ho ng h p param cx)"
    by (cases h) (simp_all add: downloader_keeps uploader_keeps)
qed

section \<open>From the last frame to the reply\<close>

definition answered :: "addr \<Rightarrow> stream_data \<Rightarrow> 'n \<Rightarrow> file_cache \<Rightarrow> file_system
    \<Rightarrow> ('n, 'h, 'l) req_context \<Rightarrow> bool" where
  "answered p st n cache fs cx \<longleftrightarrow>
     sd_session (cx_session cx) = Some n \<and> map_of (sd_streams (cx_session cx)) p = Some st
     \<and> cx_cache cx = cache \<and> cx_fs cx = fs"

definition callback_result :: "int \<Rightarrow> int" where
  "callback_result rv = (if rv \<noteq> 0 then NGHTTP2_ERR_CALLBACK_FAILURE else 0)"

lemma receiving_answered: "receiving ng i p st root n cache fs cx \<Longrightarrow> answered p st n cache fs cx"
  by (simp add: receiving_def answered_def)

lemma reply_answered:
  assumes "answered p st n cache fs cx"
  shows "ng_submit_response ng n (st_stream_id st) [('':status'', ''200'')] None = (rv, n') \<Longrightarrow>
      \<exists>cx'. in_session (reply_ok ng p) cx = Inr (callback_result rv, cx') \<and> answered p st n' cache fs cx'"
    and "ng_submit_response ng n (st_stream_id st) [('':status'', ''404'')] (Some ErrorProvider) = (rv, n') \<Longrightarrow>
      \<exists>cx'. in_session (reply_404 ng p) cx = Inr (callback_result rv, cx') \<and> answered p st n' cache fs cx'"
    and "ng_submit_response ng n (st_stream_id st) [('':status'', ''200'')] (Some (FileProvider p)) = (rv, n') \<Longrightarrow>
      \<exists>cx'. in_session (reply_ok_with_file ng p) cx = Inr (callback_result rv, cx') \<and> answered p st n' cache fs cx'"
  using assms
  by (auto simp: in_session_def reply_ok_def reply_404_def reply_ok_with_file_def error_reply_def
      send_response_def submit_def answered_def deref_session_def deref_stream_def callback_result_def)

lemma store_answered:
  "answered p st n cache fs cx \<Longrightarrow>
   answered p st' n cache' fs' (cx\<lparr>cx_session := store_stream p st' (cx_session cx), cx_cache := cache', cx_fs := fs'\<rparr>)"
  by (simp add: answered_def store_stream_def AList.update_conv')

lemma clear_answered:
  assumes "answered p st n cache fs cx"
  shows "\<exists>sd. clear_upload_file_buffer p (cx_session cx) = Inr sd
    \<and> answered p (st\<lparr>st_upload_file_buffer := []\<rparr>) n cache fs (cx\<lparr>cx_session := sd\<rparr>)"
  using assms
  by (auto simp: clear_upload_file_buffer_def answered_def deref_stream_def store_stream_def
      AList.update_conv')

lemma run_callbacks_single: "run_callbacks ho ng call [q] cx = run_callback ho ng call q cx"
  by (cases "run_callback ho ng call q cx") (auto split: prod.splits)

lemma last_frame_is_request:
  assumes "receiving ng i p st (Some root) n cache fs cx"
    and "hd_type frame = HEADERS_FRAME \<or> hd_type frame = DATA_FRAME" "hd_stream_id frame = i"
    and "and (hd_flags frame) NGHTTP2_FLAG_END_STREAM \<noteq> 0"
  shows "run_callbacks ho ng call [OnFrameRecv frame] cx = on_request_recv ng call p cx"
  using assms unfolding run_callbacks_single
  by (auto simp: run_callback_def on_frame_recv_callback_def Let_def stream_user_data_def
      deref_session_def receiving_def)

text \<open>The last frame of a request runs the handler that the router finds.\<close>

lemma last_frame_runs_handler:
  assumes "receiving ng i p st (Some root) n cache fs cx" "st_method st = Some m"
    and "router_resolve m (st_request_path st) root = Inr (Some h, param)"
    and "hd_type frame = HEADERS_FRAME \<or> hd_type frame = DATA_FRAME" "hd_stream_id frame = i"
    and "and (hd_flags frame) NGHTTP2_FLAG_END_STREAM \<noteq> 0"
    and "call h p param cx = Inr (rv, cx1)" "answered p st1 n1 cache1 fs1 cx1"
  shows "\<exists>cx'. run_callbacks ho ng call [OnFrameRecv frame] cx = Inr (rv, cx')
    \<and> answered p (st1\<lparr>st_upload_file_buffer := []\<rparr>) n1 cache1 fs1 cx'"
proof -
  have "on_request_recv ng call p cx = obind (clear_upload_file_buffer p (cx_session cx1))
      (\<lambda>sd. Inr (rv, cx1\<lparr>cx_session := sd\<rparr>))"
    using assms(1-3,7) by (simp add: on_request_recv_def receiving_def deref_stream_def)
  with last_frame_is_request [OF assms(1,4-6)] clear_answered [OF assms(8)] show ?thesis by auto
qed


lemma downloader_answer:
  assumes "answered p st n cache fs cx" "rel \<noteq> []"
    and "load_file_from_filecache (ho_maps ho) fs rel cache = (Some f, cache')"
    and "ng_submit_response ng n (st_stream_id st) [('':status'', ''200'')] (Some (FileProvider p)) = (rv, n')"
  shows "\<exists>cx'. downloader ho ng p rel cx = Inr (callback_result rv, cx')
    \<and> answered p (st\<lparr>st_file_ctx := (st_file_ctx st)\<lparr>ctx_data := mf_data f, ctx_size := mf_data_len f\<rparr>\<rparr>)
        n' cache' fs cx'"
proof -
  let ?st = "st\<lparr>st_file_ctx := (st_file_ctx st)\<lparr>ctx_data := mf_data f, ctx_size := mf_data_len f\<rparr>\<rparr>"
  let ?cx = "cx\<lparr>cx_cache := cache', cx_session := store_stream p ?st (cx_session cx)\<rparr>"
  have "answered p ?st n cache' fs ?cx"
    using store_answered [OF assms(1), of ?st cache' fs] assms(1) by (simp add: answered_def)
  from reply_answered(3) [OF this, of ng rv n'] assms(4)
  obtain cx' where "in_session (reply_ok_with_file ng p) ?cx = Inr (callback_result rv, cx')"
    "answered p ?st n' cache' fs cx'" by auto
  moreover have "downloader ho ng p rel cx = in_session (reply_ok_with_file ng p) ?cx"
    using assms(1-3) by (simp add: downloader_def answered_def deref_stream_def get_data_def get_data_len_def Let_def)
  ultimately show ?thesis by auto
qed



text \<open>
  A session of the running server, and a request frame: the routes of \<open>main\<close> are installed and
  nghttp2 keeps the user data that is set for the stream of the request.
\<close>

definition request_ready :: "'n nghttp2 \<Rightarrow> 'n \<Rightarrow> ng_frame \<Rightarrow> ('n, app_handler, 'l) req_context \<Rightarrow> bool" where
  "request_ready ng n frame cx \<longleftrightarrow>
     sd_session (cx_session cx) = Some n \<and> sd_router (cx_session cx) = Some app_routes
     \<and> hd_type frame = HEADERS_FRAME \<and> hd_cat frame = HCAT_REQUEST
     \<and> (\<forall>p. ng_get_stream_user_data ng (ng_set_stream_user_data ng n (hd_stream_id frame) p)
              (hd_stream_id frame) = Some p)"

definition ends_stream :: "ng_frame \<Rightarrow> ng_frame \<Rightarrow> bool" where
  "ends_stream last_frame frame \<longleftrightarrow>
     (hd_type last_frame = HEADERS_FRAME \<or> hd_type last_frame = DATA_FRAME)
     \<and> hd_stream_id last_frame = hd_stream_id frame
     \<and> and (hd_flags last_frame) NGHTTP2_FLAG_END_STREAM \<noteq> 0"

text \<open>The address of the new stream and the nghttp2 session that knows it.\<close>

definition request_stream :: "('n, 'h, 'l) req_context \<Rightarrow> addr" where
  "request_stream cx = fresh_addr (cx_session cx)"

text \<open>
  The values that a header list gives to a name. HTTP/2 has pseudo-header fields, whose names begin with
  a colon, before all others, and nghttp2 refuses a request in which \<open>:method\<close> or \<open>:path\<close> is missing or
  repeated. What else the list holds (\<open>:scheme\<close>, \<open>:authority\<close>, any other field) is free.
\<close>

definition header_values :: "string \<Rightarrow> header_list \<Rightarrow> string list" where
  "header_values name hdrs = map snd (filter (\<lambda>h. fst h = name) hdrs)"



definition get_headers :: "string \<Rightarrow> header_list \<Rightarrow> bool" where
  "get_headers path hdrs \<longleftrightarrow> header_values '':method'' hdrs = [''GET''] \<and> header_values '':path'' hdrs = [path]"


lemma header_values_simps [simp]:
  "header_values k [] = []"
  "header_values k ((name, v) # hdrs) = (if name = k then v # header_values k hdrs else header_values k hdrs)"
  "header_values k (hs @ hdrs) = header_values k hs @ header_values k hdrs"
  by (simp_all add: header_values_def)

text \<open>The fields of a GET request change the method and the path, and nothing else.\<close>

lemma fold_get_headers:
  assumes "set (header_values '':method'' hdrs) \<subseteq> {''GET''}" "st_mime_parser st = None"
  shows "fold (apply_header ho) hdrs (st, fs) =
    (st\<lparr>st_method := (if header_values '':method'' hdrs = [] then st_method st else Some GET),
        st_request_path := last (st_request_path st # header_values '':path'' hdrs)\<rparr>, fs)"
  using assms
proof (induction hdrs arbitrary: st)
  case (Cons h hdrs)
  obtain name v where h: "h = (name, v)" by fastforce
  consider "name = '':path''" | "name = '':method''" "v = ''GET''" | "name \<noteq> '':path''" "name \<noteq> '':method''"
    using Cons.prems(1) by (cases "name = '':method''") (auto simp: h)
  then show ?case
  proof cases
    case 1
    with Cons.prems Cons.IH [of "st\<lparr>st_request_path := v\<rparr>"] show ?thesis by (simp add: h apply_header_def)
  next
    case 2
    with Cons.prems Cons.IH [of "st\<lparr>st_method := Some GET\<rparr>"] show ?thesis
      by (simp add: h apply_header_def set_method_def)
  next
    case 3
    then have "apply_header ho h (st, fs) = (st, fs)"
      using Cons.prems(2) by (simp add: h apply_header_def set_content_type_def)
    with 3 Cons.prems Cons.IH [of st] show ?thesis by (simp add: h)
  qed
qed simp




lemma get_request_received:
  assumes "request_ready ng n frame cx" "get_headers path hdrs"
  shows "\<exists>cx' st. run_callbacks ho ng (app_call ho ng) (request_callbacks frame hdrs chunks last_frame) cx =
      run_callbacks ho ng (app_call ho ng) [OnFrameRecv last_frame] cx'
    \<and> receiving ng (hd_stream_id frame) (request_stream cx) st (Some app_routes)
        (ng_set_stream_user_data ng n (hd_stream_id frame) (request_stream cx)) (cx_cache cx) (cx_fs cx) cx'
    \<and> st_method st = Some GET \<and> st_request_path st = path
    \<and> st_stream_id st = hd_stream_id frame \<and> st_file_ctx st = new_file_context"
proof -
  note ready = assms(1) [unfolded request_ready_def]
  have s: "fold (apply_header ho) hdrs (new_stream_data (hd_stream_id frame), cx_fs cx) =
      ((new_stream_data (hd_stream_id frame))\<lparr>st_method := Some GET, st_request_path := path\<rparr>, cx_fs cx)"
    using assms(2) by (subst fold_get_headers) (simp_all add: get_headers_def new_stream_data_def)
  from receiving_request [of cx n frame ng ho "app_call ho ng" hdrs chunks last_frame] ready
  show ?thesis unfolding s request_stream_def
    by (fastforce simp: new_stream_data_def)
qed

lemma get_request_served:
  assumes "request_ready ng n frame cx" "ends_stream last_frame frame" "get_headers (''/files/'' @ name) hdrs"
    and "name \<noteq> []" "CHR ''/'' \<notin> set name"
    and "load_file_from_filecache (ho_maps ho) (cx_fs cx) name (cx_cache cx) = (Some f, cache')"
    and "ng_submit_response ng (ng_set_stream_user_data ng n (hd_stream_id frame) (request_stream cx))
           (hd_stream_id frame) [('':status'', ''200'')] (Some (FileProvider (request_stream cx))) = (rv, n')"
  shows "\<exists>cx' st. run_callbacks ho ng (app_call ho ng) (request_callbacks frame hdrs chunks last_frame) cx =
      Inr (callback_result rv, cx')
    \<and> answered (request_stream cx) st n' cache' (cx_fs cx) cx'
    \<and> st_file_ctx st = \<lparr>ctx_size = mf_data_len f, ctx_offset = 0, ctx_data = mf_data f\<rparr>"
proof -
  let ?p = "request_stream cx"
  from get_request_received [OF assms(1,3), of ho chunks last_frame] obtain cx1 st where
    run: "run_callbacks ho ng (app_call ho ng) (request_callbacks frame hdrs chunks last_frame) cx =
      run_callbacks ho ng (app_call ho ng) [OnFrameRecv last_frame] cx1"
    and r: "receiving ng (hd_stream_id frame) ?p st (Some app_routes)
        (ng_set_stream_user_data ng n (hd_stream_id frame) ?p) (cx_cache cx) (cx_fs cx) cx1"
    and st: "st_method st = Some GET" "st_request_path st = ''/files/'' @ name"
      "st_stream_id st = hd_stream_id frame" "st_file_ctx st = new_file_context" by blast
  from downloader_answer [OF receiving_answered [OF r] assms(4,6), of ng rv n'] assms(7) st(3)
  obtain cx2 where d: "app_call ho ng Downloader ?p name cx1 = Inr (callback_result rv, cx2)"
    "answered ?p (st\<lparr>st_file_ctx := (st_file_ctx st)\<lparr>ctx_data := mf_data f, ctx_size := mf_data_len f\<rparr>\<rparr>)
       n' cache' (cx_fs cx) cx2" by auto
  have "router_resolve GET (st_request_path st) app_routes = Inr (Some Downloader, name)"
    using app_route_download [OF assms(4,5)] st(2) by simp
  from last_frame_runs_handler [where call = "app_call ho ng", OF r st(1) this _ _ _ d, of last_frame ho]
    assms(2)
  obtain cx' where "run_callbacks ho ng (app_call ho ng) [OnFrameRecv last_frame] cx1 = Inr (callback_result rv, cx')"
    "answered ?p (st\<lparr>st_file_ctx := (st_file_ctx st)\<lparr>ctx_data := mf_data f, ctx_size := mf_data_len f\<rparr>,
       st_upload_file_buffer := []\<rparr>) n' cache' (cx_fs cx) cx'"
    unfolding ends_stream_def by blast
  with run show ?thesis by (intro exI conjI) (auto simp: st(4) new_file_context_def)
qed

section \<open>Properties\<close>


lemma demo_ready: "request_ready demo_ng (\<lambda>_. None, []) (demo_frame 1) (demo_cx app_routes fs)"
  by (simp add: request_ready_def demo_frame_def)

lemma demo_ends: "ends_stream (demo_frame 1) (demo_frame 1)"
  by (simp add: ends_stream_def demo_frame_def NGHTTP2_FLAG_END_STREAM_def)

definition demo_headers :: "string \<Rightarrow> header_list" where
  "demo_headers path = [('':method'', ''GET''), ('':scheme'', ''https''), ('':path'', path),
     ('':authority'', ''localhost''), (''accept'', ''*/*'')]"

lemma demo_get_headers: "get_headers path (demo_headers path)"
  by (simp add: get_headers_def demo_headers_def)




text \<open>
  C38: a GET request for a name that \<open>mmap\<close> refuses although it can be opened, such as the
  directory \<open>..\<close>, is answered with status 200 and a body of the size that \<open>fstat\<close> reports, whose
  first read is an access through \<open>MAP_FAILED\<close>: one such request crashes the server.
\<close>

theorem get_directory_crashes:
  assumes "request_ready ng n frame cx" "ends_stream last_frame frame" "get_headers (''/files/'' @ name) hdrs"
    and "name \<noteq> []" "CHR ''/'' \<notin> set name"
    and "mmap_refused (ho_maps ho) (cx_fs cx) (c_str name) sz" "sz \<noteq> 0" "cx_cache cx name = None"
    and "ng_submit_response ng (ng_set_stream_user_data ng n (hd_stream_id frame) (request_stream cx))
           (hd_stream_id frame) [('':status'', ''200'')] (Some (FileProvider (request_stream cx))) = (0, n')"
    and "len \<noteq> 0"
  shows "\<exists>cx'. run_callbacks ho ng (app_call ho ng) (request_callbacks frame hdrs chunks last_frame) cx = Inr (0, cx')
    \<and> data_read_callback (DataRead (FileProvider (request_stream cx)) len) (cx_session cx') = Inl OutOfBounds"
proof -
  let ?f = "\<lparr>mf_data = MapFailed, mf_data_len = sz\<rparr> :: mapped_file"
  have "load_file_from_filecache (ho_maps ho) (cx_fs cx) name (cx_cache cx) =
      (Some ?f, (cx_cache cx)(name \<mapsto> ?f))"
    using assms(6,8) by (rule load_refused)
  from get_request_served [OF assms(1-5) this assms(9), of chunks] obtain cx' st where
    run: "run_callbacks ho ng (app_call ho ng) (request_callbacks frame hdrs chunks last_frame) cx = Inr (callback_result 0, cx')"
    and st: "map_of (sd_streams (cx_session cx')) (request_stream cx) = Some st"
      "st_file_ctx st = \<lparr>ctx_size = sz, ctx_offset = 0, ctx_data = MapFailed\<rparr>"
    by (auto simp: answered_def)
  have "unat (min len sz) \<noteq> 0" using assms(7,10) by (simp add: min_def unat_eq_zero)
  then have "file_read_callback len (Some (st_file_ctx st)) = Inl OutOfBounds"
    by (simp add: st file_read_callback_def Let_def read_mapping_def)
  with run st show ?thesis
    by (simp add: data_read_callback_def deref_stream_def callback_result_def)
qed

theorem get_directory_crashes_witness:
  "\<exists>cx'. run_callbacks demo_host demo_ng (app_call demo_host demo_ng)
      (request_callbacks (demo_frame 1) (demo_headers ''/files/..'') [] (demo_frame 1)) (demo_cx app_routes Map.empty) = Inr (0, cx')
    \<and> data_read_callback (DataRead (FileProvider 1) 16384) (cx_session cx') = Inl OutOfBounds"
proof -
  let ?cx = "demo_cx app_routes Map.empty :: (demo_session, app_handler, unit) req_context"
  have p: "request_stream ?cx = 1" by (simp add: request_stream_def fresh_addr_def)
  have m: "mmap_refused (ho_maps demo_host) (cx_fs ?cx) (c_str ''..'') 4096"
    by (simp add: mmap_refused_def demo_host_def demo_maps_def c_str_def)
  obtain n' where n': "ng_submit_response demo_ng (ng_set_stream_user_data demo_ng (\<lambda>_. None, [])
      (hd_stream_id (demo_frame 1)) (request_stream ?cx)) (hd_stream_id (demo_frame 1))
      [('':status'', ''200'')] (Some (FileProvider (request_stream ?cx))) = (0, n')"
    by (simp add: demo_ng_def)
  have h: "get_headers (''/files/'' @ ''..'') (demo_headers ''/files/..'')" using demo_get_headers by simp
  from get_directory_crashes [OF demo_ready demo_ends h _ _ m _ _ n', of 16384 "[]"] p show ?thesis by auto
qed







text \<open>
  C12: no sequence of callbacks that nghttp2 can produce, while it receives or while it sends, makes
  the session layer with the server's handlers use a stream that was deleted or a null pointer;
  afterwards the streams that the session keeps are again exactly those that nghttp2 knows: every
  pointer that it holds, as user data or as the data source of a response, is a kept stream of the
  number it is held for, and every kept stream is the user data of its number, so that none is left
  behind once it was closed.
\<close>

theorem callbacks_use_live_streams:
  assumes "mmap_nonnull (ho_maps ho)" "ng_laws ng prov"
    and "sd_session (cx_session cx) = Some n" "session_exact (view ng prov) (cx_session cx)"
    and "lib_streams_ok (view ng prov) recv_closes recv_allowed (ng_mem_recv ng n buf) (view ng prov n)"
    and "lib_streams_kept (view ng prov) recv_closes (recv_opens ng) (ng_mem_recv ng n buf) (view ng prov n)"
    and "lib_streams_ok (view ng prov) send_closes send_allowed (ng_mem_send ng n) (view ng prov n)"
    and "lib_streams_kept (view ng prov) send_closes (\<lambda>q n. True) (ng_mem_send ng n) (view ng prov n)"
  shows "(case run_lib (run_callback ho ng (app_call ho ng)) (ng_mem_recv ng n buf) cx of
        Inl e \<Rightarrow> e \<noteq> DanglingPointer \<and> e \<noteq> NullDeref
      | Inr (fed, cx') \<Rightarrow> session_exact (view ng prov) (cx_session cx'))
    \<and> (case run_lib (run_send_callback ho ng) (ng_mem_send ng n) cx of
        Inl e \<Rightarrow> e \<noteq> DanglingPointer \<and> e \<noteq> NullDeref
      | Inr (sent, cx') \<Rightarrow> session_exact (view ng prov) (cx_session cx'))"
  using rh.run_recv_exact [OF assms(1-6)] run_send_exact [OF assms(3,4,7,8), of ho]
  unfolding pointer_fault_def de_Morgan_disj by blast

text \<open>
  A library that, on any input, opens the first of the streams 1 and 3 that is not open, completes its
  request and closes it; when it sends, it reads the source of stream 1 and closes the stream.
\<close>

definition stream_frame :: "u32 \<Rightarrow> ng_frame" where
  "stream_frame i = (demo_frame 1)\<lparr>hd_stream_id := i\<rparr>"

definition scripted_request :: "u32 \<Rightarrow> demo_session \<Rightarrow> string \<Rightarrow> (ng_callback, int, demo_session, int) lib_call" where
  "scripted_request i n buf =
     LibCallback (OnBeginHeaders (stream_frame i)) (fst n, []) (\<lambda>r n1.
     LibCallback (OnHeader (stream_frame i) '':method'' ''GET'') n1 (\<lambda>r n2.
     LibCallback (OnFrameRecv (stream_frame i)) n2 (\<lambda>r n3.
     LibCallback (OnStreamClose i) n3 (\<lambda>r n4.
     LibReturn (int (length buf)) ((fst n4)(i := None), [])))))"

definition scripted_ng :: "demo_session nghttp2" where
  "scripted_ng = demo_ng\<lparr>ng_mem_recv := (\<lambda>n buf.
     if fst n 1 = None then scripted_request 1 n buf
     else if fst n 3 = None then scripted_request 3 n buf
     else LibReturn (int (length buf)) n),
   ng_mem_send := (\<lambda>n.
     case demo_prov n 1 of
       None \<Rightarrow> LibReturn (0, []) n
     | Some prd \<Rightarrow>
         LibCallback (OnDataRead (DataRead prd 16384)) n (\<lambda>r n1.
         LibCallback (OnSentStreamClose 1) n1 (\<lambda>r n2.
         LibReturn (9, ''HEADERS..'') ((fst n2)(1 := None), []))))\<rparr>"

lemma scripted_laws: "ng_laws scripted_ng demo_prov"
  using demo_ng_laws by (simp add: ng_laws_def scripted_ng_def view_def fun_eq_iff)

lemma forgets_empty: "forgets v (view ng demo_prov (u, [])) \<longleftrightarrow> (\<forall>i. ng_get_stream_user_data ng (u, []) i \<in> {None, fst (v i)})"
proof -
  have "view ng demo_prov (u, []) i = (ng_get_stream_user_data ng (u, []) i, None)" for i
    by (simp add: view_def demo_prov_def)
  then show ?thesis unfolding forgets_def by (metis fst_conv insertCI snd_conv)
qed

lemma scripted_user_data:
  "ng_get_stream_user_data scripted_ng n i = fst n i"
  "ng_set_stream_user_data scripted_ng n i p = ((fst n)(i \<mapsto> p), snd n)"
  by (simp_all add: scripted_ng_def demo_ng_def)

lemma scripted_request_ok:
  "lib_streams_ok (view scripted_ng demo_prov) recv_closes recv_allowed (scripted_request i n buf)
     (view scripted_ng demo_prov n)"
  by (simp add: scripted_request_def forgets_empty recv_allowed_def recv_closes_def drop_stream_def scripted_user_data)
    (simp add: forgets_def view_def demo_prov_def scripted_user_data)

lemma scripted_recv:
  "lib_streams_ok (view scripted_ng demo_prov) recv_closes recv_allowed (ng_mem_recv scripted_ng n buf)
     (view scripted_ng demo_prov n)"
proof -
  have "ng_mem_recv scripted_ng n buf \<in>
      {scripted_request 1 n buf, scripted_request 3 n buf, LibReturn (int (length buf)) n}"
    by (simp add: scripted_ng_def)
  then show ?thesis using scripted_request_ok [of _ n buf] by (auto simp: forgets_def)
qed

lemma scripted_recv_kept:
  "lib_streams_kept (view scripted_ng demo_prov) recv_closes (recv_opens scripted_ng) (ng_mem_recv scripted_ng n buf)
     (view scripted_ng demo_prov n)"
proof -
  have "lib_streams_kept (view scripted_ng demo_prov) recv_closes (recv_opens scripted_ng) (scripted_request i n buf)
      (view scripted_ng demo_prov n)" if "fst n i = None" for i
    using that by (simp add: scripted_request_def retains_def recv_opens_def recv_closes_def drop_stream_def view_def
        scripted_user_data stream_frame_def)
  moreover have "ng_mem_recv scripted_ng n buf = (if fst n 1 = None then scripted_request 1 n buf
      else if fst n 3 = None then scripted_request 3 n buf else LibReturn (int (length buf)) n)"
    by (simp add: scripted_ng_def)
  ultimately show ?thesis by (simp add: retains_def)
qed

lemma scripted_send:
  "lib_streams_ok (view scripted_ng demo_prov) send_closes send_allowed (ng_mem_send scripted_ng n)
     (view scripted_ng demo_prov n)"
  by (auto simp: scripted_ng_def forgets_empty send_allowed_def send_closes_def drop_stream_def
      view_def demo_ng_def split: option.split) (auto simp: forgets_def)

lemma scripted_send_kept:
  "lib_streams_kept (view scripted_ng demo_prov) send_closes (\<lambda>q n. True) (ng_mem_send scripted_ng n)
     (view scripted_ng demo_prov n)"
  by (auto simp: scripted_ng_def retains_def send_closes_def drop_stream_def view_def demo_ng_def split: option.split)

text \<open>A session whose stream 1 is being answered with a file.\<close>

definition serving_cx :: "(demo_session, app_handler, unit) req_context" where
  "serving_cx = (demo_cx app_routes Map.empty)\<lparr>cx_session :=
     (cx_session (demo_cx app_routes Map.empty))\<lparr>
        sd_streams := [(1, (new_stream_data 1)\<lparr>st_file_ctx := file_at ''hello'' 0\<rparr>)],
        sd_session := Some ([1 \<mapsto> 1], [(1, [], Some (FileProvider 1))])\<rparr>\<rparr>"

theorem callbacks_use_live_streams_witness:
  "(case run_lib (run_callback demo_host scripted_ng (app_call demo_host scripted_ng))
      (ng_mem_recv scripted_ng ([1 \<mapsto> 1], [(1, [], Some (FileProvider 1))]) ''x'') serving_cx of
      Inl e \<Rightarrow> e \<noteq> DanglingPointer \<and> e \<noteq> NullDeref
    | Inr (fed, cx') \<Rightarrow> session_exact (view scripted_ng demo_prov) (cx_session cx'))
   \<and> (case run_lib (run_send_callback demo_host scripted_ng)
      (ng_mem_send scripted_ng ([1 \<mapsto> 1], [(1, [], Some (FileProvider 1))])) serving_cx of
      Inl e \<Rightarrow> e \<noteq> DanglingPointer \<and> e \<noteq> NullDeref
    | Inr (sent, cx') \<Rightarrow> session_exact (view scripted_ng demo_prov) (cx_session cx'))"
proof (rule callbacks_use_live_streams [OF _ scripted_laws _ _ scripted_recv scripted_recv_kept
      scripted_send scripted_send_kept])
  show "session_exact (view scripted_ng demo_prov) (cx_session serving_cx)"
    by (simp add: session_exact_def streams_known_def session_ok_def streams_ok_def ids_def ctxs_ok_def ctx_ok_def view_def scripted_ng_def demo_ng_def
        demo_prov_def serving_cx_def file_at_def new_stream_data_def)
  show "mmap_nonnull (ho_maps demo_host)" by (simp add: mmap_nonnull_def demo_host_def demo_maps_def split: option.split)
qed (simp add: serving_cx_def)

end
