(* ===== verification/Ssl_Ctx.thy ===== *)
theory Ssl_Ctx
  imports H2_Prelude Cpp_String
begin

text \<open>
  TLS set-up (\<open>ssl_ctx.cc\<close>) and the check of the negotiated protocol (\<open>validate_alpn\<close> in
  \<open>worker.cc\<close>). The ALPN callback searches the client's list, a sequence of length-prefixed names,
  for the entry \<open>h2\<close>; its index is an \<open>unsigned int\<close> that could wrap around, so the loop is a
  partial function, and that it ends is part of the theorem. OpenSSL is a parameter.
\<close>

section \<open>Protocol negotiation\<close>

definition alpn_proto_list :: bytes where
  "alpn_proto_list = [0x02, 0x68, 0x32, 0x08, 0x68, 0x74, 0x74, 0x70, 0x2F, 0x31, 0x2E, 0x31]"

text \<open>
  \<open>select_next_proto\<close>: a hit is the position after the length byte, which becomes \<open>out\<close>, and the
  length byte, which becomes \<open>outlen\<close>.
\<close>

partial_function (option) select_loop ::
    "bytes \<Rightarrow> bytes \<Rightarrow> u32 \<Rightarrow> (nat \<times> u8) option option" where
  "select_loop inp key i =
     (if i + of_nat (length key) \<le> of_nat (length inp)
      then (if take (length key) (drop (unat i) inp) = key
            then Some (Some (unat i + 1, inp ! unat i))
            else select_loop inp key (i + (ucast (inp ! unat i) + 1)))
      else Some None)"

declare select_loop.simps [code]

definition select_next_proto :: "bytes \<Rightarrow> bytes \<Rightarrow> (nat \<times> u8) option option" where
  "select_next_proto inp key = select_loop inp key 0"

datatype alpn_answer = SSL_TLSEXT_ERR_OK bytes | SSL_TLSEXT_ERR_NOACK

text \<open>The callback; the protocol that OpenSSL selects is the \<open>outlen\<close> bytes at \<open>out\<close>.\<close>

definition alpn_select_proto_cb :: "bytes \<Rightarrow> alpn_answer option" where
  "alpn_select_proto_cb inp =
     (case select_next_proto inp (take 3 alpn_proto_list) of
        None \<Rightarrow> None
      | Some None \<Rightarrow> Some SSL_TLSEXT_ERR_NOACK
      | Some (Some (out, outlen)) \<Rightarrow> Some (SSL_TLSEXT_ERR_OK (take (unat outlen) (drop out inp))))"

text \<open>
  The two tests of the selected protocol, on what \<open>SSL_get0_alpn_selected\<close> returns: a null pointer
  with length 0, or the bytes.
\<close>

definition is_alpn_h2_selected :: "bytes option \<Rightarrow> bool" where
  "is_alpn_h2_selected alpn = ((case alpn of None \<Rightarrow> [] | Some name \<Rightarrow> name) = [0x68, 0x32])"

definition validate_alpn_name :: "bytes option \<Rightarrow> bool" where
  "validate_alpn_name alpn =
     (case alpn of
        None \<Rightarrow> False
      | Some name \<Rightarrow> \<not> (length name \<noteq> 2 \<or> take 2 name \<noteq> [0x68, 0x32]))"

section \<open>The context\<close>

text \<open>What OpenSSL answers to the calls of \<open>create_ssl_ctx\<close>; \<open>openssl3\<close> is the version switch.\<close>

record ssl_lib =
  lib_openssl3 :: bool
  lib_ctx_new :: bool
  lib_set_curves :: bool
  lib_ec_key :: bool
  lib_use_key :: "string \<Rightarrow> bool"
  lib_use_cert :: "string \<Rightarrow> bool"

record ssl_ctx =
  sc_key :: string
  sc_cert :: string
  sc_alpn_cb :: bool

text \<open>The result, and whether a context was allocated that nobody frees.\<close>

definition create_ssl_ctx :: "ssl_lib \<Rightarrow> string \<Rightarrow> string \<Rightarrow> ssl_ctx option \<times> bool" where
  "create_ssl_ctx lib key_path cert_path =
     (if \<not> lib_ctx_new lib then (None, False)
      else if lib_openssl3 lib \<and> \<not> lib_set_curves lib then (None, True)
      else if \<not> lib_openssl3 lib \<and> \<not> lib_ec_key lib then (None, True)
      else if \<not> lib_use_key lib (c_str key_path) then (None, True)
      else if \<not> lib_use_cert lib (c_str cert_path) then (None, True)
      else (Some \<lparr>sc_key = c_str key_path, sc_cert = c_str cert_path, sc_alpn_cb = True\<rparr>, False))"

section \<open>Client lists\<close>

definition encode_protos :: "bytes list \<Rightarrow> bytes" where
  "encode_protos protos = concat (map (\<lambda>p. of_nat (length p) # p) protos)"

definition proto_names_ok :: "bytes list \<Rightarrow> bool" where
  "proto_names_ok protos \<longleftrightarrow>
     (\<forall>p \<in> set protos. 0 < length p \<and> length p < 256) \<and> length (encode_protos protos) < 2 ^ 16"

definition h2_entry :: bytes where
  "h2_entry = [0x02, 0x68, 0x32]"

lemma encode_protos_simps [simp]:
  "encode_protos [] = []"
  "encode_protos (p # protos) = (of_nat (length p) # p) @ encode_protos protos"
  by (simp_all add: encode_protos_def)

text \<open>At the boundary of an entry, the three bytes of \<open>h2\<close> are there exactly if the entry is \<open>h2\<close>.\<close>

lemma entry_matches:
  assumes "0 < length p" "length p < 256"
  shows "take 3 ((of_nat (length p) # p) @ rest) = h2_entry \<longleftrightarrow> p = [0x68, 0x32]"
proof
  assume t: "take 3 ((of_nat (length p) # p) @ rest) = h2_entry"
  then have "(of_nat (length p) :: u8) = 2" by (simp add: h2_entry_def numeral_3_eq_3)
  moreover have "unat (of_nat (length p) :: u8) = length p" using assms(2) by (simp add: unat_of_nat)
  ultimately have "length p = 2" by simp
  then show "p = [0x68, 0x32]" using t
    by (cases p; cases "tl p") (auto simp: h2_entry_def numeral_3_eq_3)
qed (simp add: h2_entry_def)

lemma ucast_len:
  assumes "l < 256"
  shows "(ucast (of_nat l :: u8) :: u32) = of_nat l"
proof -
  have "unat (of_nat l :: u8) = l" using assms by (simp add: unat_of_nat)
  then show ?thesis by (metis of_nat_unat)
qed

lemma u32_le_iff:
  assumes "a < 2 ^ 32" "b < 2 ^ 32"
  shows "(of_nat a :: u32) \<le> of_nat b \<longleftrightarrow> a \<le> b"
  using assms by (simp add: word_le_nat_alt unat_of_nat)

lemma select_loop_encoded:
  assumes "inp = front @ encode_protos protos" "length inp < 2 ^ 16"
    "\<forall>p \<in> set protos. 0 < length p \<and> length p < 256"
  shows "if [0x68, 0x32] \<in> set protos
    then \<exists>out. select_loop inp h2_entry (of_nat (length front)) = Some (Some (out, 2))
           \<and> take 2 (drop out inp) = [0x68, 0x32]
    else select_loop inp h2_entry (of_nat (length front)) = Some None"
  using assms(1,3)
proof (induction protos arbitrary: front)
  case Nil
  then have "\<not> (of_nat (length front) :: u32) + of_nat (length h2_entry) \<le> of_nat (length inp)"
    using assms(2) u32_le_iff [of "length front + length h2_entry" "length inp"]
    by (simp add: h2_entry_def add.commute)
  then show ?case by (simp add: select_loop.simps)
next
  case (Cons p protos)
  let ?k = "length front" and ?e = "of_nat (length p) # p"
  have p: "0 < length p" "length p < 256" using Cons.prems(2) by simp_all
  have inp: "inp = front @ ?e @ encode_protos protos" using Cons.prems(1) by simp
  have le: "(of_nat ?k :: u32) + of_nat (length h2_entry) \<le> of_nat (length inp) \<longleftrightarrow> ?k + 3 \<le> length inp"
    using u32_le_iff [of "?k + length h2_entry" "length inp"] assms(2) inp
    by (simp add: h2_entry_def add.commute)
  have k: "unat (of_nat ?k :: u32) = ?k" using assms(2) inp by (simp add: unat_of_nat)
  have at: "inp ! ?k = of_nat (length p)" by (simp add: inp nth_append)
  have hit: "take (length h2_entry) (drop ?k inp) = h2_entry \<longleftrightarrow> p = [0x68, 0x32]"
    using entry_matches [OF p, of "encode_protos protos"] by (simp add: inp h2_entry_def numeral_2_eq_2)
  show ?case
  proof (cases "p = [0x68, 0x32]")
    case True
    then have len: "?k + 3 \<le> length inp" by (simp add: inp)
    have "select_loop inp h2_entry (of_nat ?k) = Some (Some (?k + 1, 2))"
      using True hit at by (subst select_loop.simps) (simp add: le len k)
    moreover have "take 2 (drop (?k + 1) inp) = [0x68, 0x32]" by (simp add: inp True)
    ultimately show ?thesis using True by auto
  next
    case False
    have skip: "(of_nat ?k :: u32) + (ucast (inp ! ?k) + 1) = of_nat (length (front @ ?e))"
      by (simp add: at ucast_len [OF p(2)])
    show ?thesis
    proof (cases "?k + 3 \<le> length inp")
      case True
      have "select_loop inp h2_entry (of_nat ?k) = select_loop inp h2_entry (of_nat (length (front @ ?e)))"
        using False hit True skip by (subst select_loop.simps) (simp add: le k del: length_append)
      with Cons.IH [of "front @ ?e"] Cons.prems False show ?thesis by (auto simp: inp)
    next
      case short: False
      then have "[0x68, 0x32] \<notin> set protos"
        by (auto simp: inp encode_protos_def dest!: split_list)
      with False short show ?thesis by (simp add: select_loop.simps le)
    qed
  qed
qed

section \<open>Properties\<close>

text \<open>
  C28: for every list of protocol names that a client can offer, the ALPN callback returns, and it
  selects \<open>h2\<close> exactly when \<open>h2\<close> is one of the names; a name that merely contains these bytes does
  not count. The selected name then passes both of the server's tests.
\<close>

theorem alpn_selects_h2_iff_offered:
  assumes "proto_names_ok protos"
  shows "alpn_select_proto_cb (encode_protos protos) =
      Some (if [0x68, 0x32] \<in> set protos then SSL_TLSEXT_ERR_OK [0x68, 0x32] else SSL_TLSEXT_ERR_NOACK)
    \<and> validate_alpn_name (Some [0x68, 0x32]) \<and> (\<forall>alpn. validate_alpn_name alpn = is_alpn_h2_selected alpn)"
proof -
  have key: "take 3 alpn_proto_list = h2_entry" by (simp add: alpn_proto_list_def h2_entry_def)
  have "alpn_select_proto_cb (encode_protos protos) =
      Some (if [0x68, 0x32] \<in> set protos then SSL_TLSEXT_ERR_OK [0x68, 0x32] else SSL_TLSEXT_ERR_NOACK)"
    using select_loop_encoded [of "encode_protos protos" "[]" protos] assms
    by (auto simp: proto_names_ok_def alpn_select_proto_cb_def select_next_proto_def key split: if_splits)
  moreover have "validate_alpn_name alpn = is_alpn_h2_selected alpn" for alpn
    by (cases alpn) (auto simp: validate_alpn_name_def is_alpn_h2_selected_def)
  ultimately show ?thesis by (simp add: validate_alpn_name_def)
qed

theorem alpn_selects_h2_iff_offered_witness:
  "alpn_select_proto_cb (encode_protos [[0x68, 0x32, 0x63], [0x68, 0x32]]) = Some (SSL_TLSEXT_ERR_OK [0x68, 0x32])
   \<and> alpn_select_proto_cb (encode_protos [[0x68, 0x32, 0x63]]) = Some SSL_TLSEXT_ERR_NOACK"
  using alpn_selects_h2_iff_offered [of "[[0x68, 0x32, 0x63], [0x68, 0x32]]"]
    alpn_selects_h2_iff_offered [of "[[0x68, 0x32, 0x63]]"]
  by (simp add: proto_names_ok_def)

end
