(* ===== verification/Circular_Queue.thy ===== *)
theory Circular_Queue
  imports H2_Prelude
begin

text \<open>
  The bounded ring buffer of \<open>src/circular_queue.h\<close> (class \<open>CircularQueue\<close>), which carries
  accepted sockets from the acceptor thread to a worker. This theory holds the record of its
  fields at their C++ widths, one definition per method, the invariant, the abstraction to a
  list, the contract \<open>bounded_queue\<close> as a locale and its interpretation on the methods.
  Each method is modelled as one step here; the interleaving of the two threads that share
  the queue is the subject of \<open>Notify_Protocol\<close>.
\<close>

unbundle bit_operations_syntax

section \<open>Data and operations\<close>

record 'a circular_queue =
  buffer :: "'a list"
  capacity :: u64
  head :: u32
  tail :: u32

text \<open>
  \<open>next\<close>: the addition happens on \<open>uint32_t\<close> and may wrap; the result is then widened to
  \<open>size_t\<close> and masked.
\<close>

definition next_slot :: "'a circular_queue \<Rightarrow> u32 \<Rightarrow> u64" where
  "next_slot q index = ucast (index + 1) AND (capacity q - 1)"

text \<open>
  The bit-smearing loop of \<open>round_to_pow2\<close>: \<open>shift\<close> starts at 1 and doubles while it is below
  32. The test \<open>0 < shift\<close> always holds for the start value 1 and makes the recursion total.
\<close>

function smear_loop :: "nat \<Rightarrow> u32 \<Rightarrow> u32" where
  "smear_loop shift value =
     (if 0 < shift \<and> shift < 32
      then smear_loop (2 * shift) (value OR drop_bit shift value)
      else value)"
  by pat_completeness auto
termination
  by (relation "measure (\<lambda>(shift, value). 32 - shift)") auto

declare smear_loop.simps [simp del]

definition round_to_pow2 :: "u64 \<Rightarrow> u64" where
  "round_to_pow2 sz =
     (let value = smear_loop 1 (ucast (sz - 1));
          upper = value + 1;
          lower = drop_bit 1 upper
      in if sz - ucast lower \<le> ucast upper - sz then ucast lower else ucast upper)"

text \<open>
  The constructors. \<open>buffer.resize\<close> fills the vector with value-initialised elements; the
  value for the element type is the parameter \<open>dflt\<close>. A moved-from vector is empty.
\<close>

definition cq_new :: "'a \<Rightarrow> u64 \<Rightarrow> 'a circular_queue" where
  "cq_new dflt cap =
     (let c = round_to_pow2 cap
      in \<lparr>buffer = replicate (unat c) dflt, capacity = c, head = 0, tail = 0\<rparr>)"

definition cq_copy :: "'a circular_queue \<Rightarrow> 'a circular_queue" where
  "cq_copy other =
     \<lparr>buffer = buffer other, capacity = capacity other, head = head other, tail = tail other\<rparr>"

definition cq_move :: "'a circular_queue \<Rightarrow> 'a circular_queue \<times> 'a circular_queue" where
  "cq_move other =
     (\<lparr>buffer = buffer other, capacity = capacity other, head = head other, tail = tail other\<rparr>,
      other\<lparr>buffer := [], head := 0, tail := 0\<rparr>)"

definition is_full :: "'a circular_queue \<Rightarrow> bool" where
  "is_full q = (let t = tail q; h = head q in next_slot q t = ucast h)"

definition is_empty :: "'a circular_queue \<Rightarrow> bool" where
  "is_empty q = (let h = head q; t = tail q in h = t)"

definition front :: "'a circular_queue \<Rightarrow> 'a outcome" where
  "front q =
     (if is_empty q then Inl AssertFailed
      else vec_at (buffer q) (unat (head q)))"

definition push :: "'a circular_queue \<Rightarrow> 'a \<Rightarrow> (bool \<times> 'a circular_queue) outcome" where
  "push q data =
     (let t = tail q; next_t = ucast (next_slot q t) :: u32
      in if next_t \<noteq> head q
         then obind (vec_set (buffer q) (unat t) data)
                (\<lambda>b. Inr (True, q\<lparr>buffer := b, tail := next_t\<rparr>))
         else Inr (False, q))"

definition pop :: "'a circular_queue \<Rightarrow> bool \<times> 'a circular_queue" where
  "pop q =
     (let h = head q
      in if h = tail q then (False, q)
         else (True, q\<lparr>head := ucast (next_slot q h)\<rparr>))"

definition cq_swap ::
    "'a circular_queue \<Rightarrow> 'a circular_queue \<Rightarrow> 'a circular_queue \<times> 'a circular_queue" where
  "cq_swap q other =
     (\<lparr>buffer = buffer other, capacity = capacity other, head = head other, tail = tail other\<rparr>,
      \<lparr>buffer = buffer q, capacity = capacity q, head = head q, tail = tail q\<rparr>)"

section \<open>Rounding the capacity\<close>

text \<open>Smearing copies every set bit to all lower positions.\<close>

definition smeared :: "nat \<Rightarrow> u32 \<Rightarrow> u32 \<Rightarrow> bool" where
  "smeared n v w \<longleftrightarrow> (\<forall>i. bit w i \<longleftrightarrow> (\<exists>j. i \<le> j \<and> j < i + n \<and> bit v j))"

lemma smeared_1: "smeared 1 v v"
  unfolding smeared_def by (auto intro: le_antisym simp: less_Suc_eq_le dest: le_antisym)

lemma smeared_step:
  assumes "smeared n v w"
  shows "smeared (2 * n) v (w OR drop_bit n w)"
  unfolding smeared_def
proof (intro allI)
  fix i
  have "bit (w OR drop_bit n w) i \<longleftrightarrow> bit w i \<or> bit w (n + i)"
    by (simp add: bit_or_iff bit_drop_bit_eq)
  also have "\<dots> \<longleftrightarrow> (\<exists>j. i \<le> j \<and> j < i + n \<and> bit v j) \<or> (\<exists>j. n + i \<le> j \<and> j < n + i + n \<and> bit v j)"
    using assms by (simp add: smeared_def)
  also have "\<dots> \<longleftrightarrow> (\<exists>j. i \<le> j \<and> j < i + 2 * n \<and> bit v j)"
  proof -
    have "(i \<le> j \<and> j < i + n) \<or> (n + i \<le> j \<and> j < n + i + n) \<longleftrightarrow> i \<le> j \<and> j < i + 2 * n" for j
      by auto
    then show ?thesis by blast
  qed
  finally show "bit (w OR drop_bit n w) i \<longleftrightarrow> (\<exists>j. i \<le> j \<and> j < i + 2 * n \<and> bit v j)" .
qed

lemma smear_loop_bits: "bit (smear_loop 1 v) i \<longleftrightarrow> (\<exists>j. i \<le> j \<and> bit v j)"
proof -
  define f where "f n w = w OR drop_bit n w" for n and w :: u32
  have "smear_loop 1 v = f 16 (f 8 (f 4 (f 2 (f 1 v))))"
    by (simp add: smear_loop.simps f_def)
  moreover have "smeared 32 v (f 16 (f 8 (f 4 (f 2 (f 1 v)))))"
    unfolding f_def
    using smeared_step [OF smeared_step [OF smeared_step [OF smeared_step [OF smeared_step
        [OF smeared_1]]]], of v] by simp
  moreover have "j < 32" if "bit v j" for j
    using that bit_imp_le_length [of v j] by simp
  ultimately show ?thesis
    unfolding smeared_def by (metis add.commute trans_less_add1)
qed

text \<open>
  The result of the loop is the all-ones word below the highest set bit: with \<open>m\<close> the bit
  length of \<open>v\<close>, the value \<open>2 ^ m - 1\<close>.
\<close>

lemma smear_loop_mask:
  assumes "unat v < 2 ^ m" and "m = 0 \<or> 2 ^ (m - 1) \<le> unat v"
  shows "smear_loop 1 v = mask m"
proof (rule bit_word_eqI)
  fix i
  assume i: "i < LENGTH(32)"
  have up: "j < m" if "bit v j" for j
  proof (rule ccontr)
    assume "\<not> j < m"
    from that have "bit (unat v) j" by (simp add: bit_unsigned_iff)
    then have "unat v div 2 ^ j \<noteq> 0" by (metis bit_iff_odd even_zero)
    then have "2 ^ j \<le> unat v" by (metis div_less linorder_not_less)
    with assms(1) \<open>\<not> j < m\<close> show False
      by (metis leD linorder_not_less one_le_numeral order_le_less_trans power_increasing)
  qed
  have top: "bit v (m - 1)" if "m > 0"
  proof (rule ccontr)
    assume no: "\<not> bit v (m - 1)"
    have "unat v = take_bit m (unat v)" using assms(1) by (simp add: take_bit_nat_eq_self)
    also have "\<dots> = take_bit (m - 1) (unat v)"
    proof (rule bit_eqI)
      fix n
      show "bit (take_bit m (unat v)) n = bit (take_bit (m - 1) (unat v)) n"
        using no that by (cases "n = m - 1") (auto simp: bit_take_bit_iff bit_unsigned_iff)
    qed
    also have "\<dots> < 2 ^ (m - 1)" by (rule take_bit_nat_less_exp)
    finally show False using assms(2) that by simp
  qed
  show "bit (smear_loop 1 v) i \<longleftrightarrow> bit (mask m :: u32) i"
  proof
    assume "bit (smear_loop 1 v) i"
    then obtain j where "i \<le> j" "bit v j" unfolding smear_loop_bits by blast
    with up i show "bit (mask m :: u32) i" by (fastforce simp: bit_mask_iff)
  next
    assume "bit (mask m :: u32) i"
    then have "i < m" by (simp add: bit_mask_iff)
    with top show "bit (smear_loop 1 v) i"
      unfolding smear_loop_bits by (intro exI [of _ "m - 1"]) auto
  qed
qed

lemma unat_mask_u32: "m < 32 \<Longrightarrow> unat (mask m + 1 :: u32) = 2 ^ m"
  by (simp add: mask_eq_exp_minus_1 unat_pow2)

lemma bit_length_exists:
  fixes n :: nat
  obtains m where "n < 2 ^ m" and "m = 0 \<or> 2 ^ (m - 1) \<le> n"
proof -
  define m where "m = (LEAST m. n < 2 ^ m)"
  have "n < 2 ^ n" by (rule less_exp)
  then have 1: "n < 2 ^ m" unfolding m_def by (rule LeastI)
  have 2: "m = 0 \<or> 2 ^ (m - 1) \<le> n"
  proof (rule ccontr)
    assume "\<not> ?thesis"
    then have "n < 2 ^ (m - 1)" and "m - 1 < m" by auto
    then show False unfolding m_def using not_less_Least by blast
  qed
  from 1 2 show ?thesis by (rule that)
qed

text \<open>The comparison of the two distances, on \<open>size_t\<close> values that do not wrap here.\<close>

lemma half_pow2: "(2::nat) ^ m div 2 = (if m = 0 then 0 else 2 ^ (m - 1))"
  by (cases m) auto

lemma distance_test:
  fixes s U L :: u64
  assumes "unat U = 2 ^ m" "unat L = 2 ^ m div 2"
    and "0 < unat s" "unat s \<le> 2 ^ m" "m = 0 \<or> 2 ^ (m - 1) < unat s"
  shows "s - L \<le> U - s \<longleftrightarrow> 0 < m \<and> unat s - 2 ^ (m - 1) \<le> 2 ^ m - unat s"
  using assms by (auto simp: word_le_nat_alt unat_sub_if' half_pow2 split: if_splits)

text \<open>
  What the rounding computes for every request up to \<open>2 ^ 31\<close>: with \<open>2 ^ m\<close> the least power of
  two not below the request, it is \<open>2 ^ m\<close> or \<open>2 ^ (m - 1)\<close>, whichever is closer, the lower
  one on a tie.
\<close>

lemma round_to_pow2_cases:
  assumes pos: "0 < unat s" and le: "unat s \<le> 2 ^ 31"
  obtains m where "unat s \<le> 2 ^ m" "m = 0 \<or> 2 ^ (m - 1) < unat s" "m \<le> 31"
    "unat (round_to_pow2 s) =
       (if 0 < m \<and> unat s - 2 ^ (m - 1) \<le> 2 ^ m - unat s then 2 ^ (m - 1) else 2 ^ m)"
proof -
  obtain m where m: "unat s - 1 < 2 ^ m" "m = 0 \<or> 2 ^ (m - 1) \<le> unat s - 1"
    by (rule bit_length_exists)
  have s1: "unat (s - 1) = unat s - 1"
    using pos by (simp add: unat_sub_if')
  have m31: "m \<le> 31"
  proof (rule ccontr)
    assume "\<not> m \<le> 31"
    then have "(2::nat) ^ 31 \<le> 2 ^ (m - 1)" by (intro power_increasing) auto
    with m(2) \<open>\<not> m \<le> 31\<close> le pos show False by auto
  qed
  define v :: u32 where "v = ucast (s - 1)"
  have "unat v = unat s - 1"
    using le s1 unfolding v_def by (simp add: unat_ucast_mod)
  with m have "smear_loop 1 v = mask m" by (intro smear_loop_mask) auto
  then have up: "unat (smear_loop 1 v + 1) = 2 ^ m"
    using m31 by (simp add: unat_mask_u32)
  have lo: "unat (drop_bit 1 (smear_loop 1 v + 1)) = 2 ^ m div 2"
    by (simp only: unsigned_drop_bit_eq up) (use m31 in \<open>simp add: drop_bit_eq_div take_bit_nat_eq_self\<close>)
  define U L :: u64 where "U = ucast (smear_loop 1 v + 1)"
    and "L = ucast (drop_bit 1 (smear_loop 1 v + 1))"
  have U: "unat U = 2 ^ m" and L: "unat L = 2 ^ m div 2"
    unfolding U_def L_def by (subst unat_ucast_up; use up lo in simp)+
  have sm: "unat s \<le> 2 ^ m" "m = 0 \<or> 2 ^ (m - 1) < unat s"
    using m pos by auto
  have "round_to_pow2 s = (if s - L \<le> U - s then L else U)"
    unfolding round_to_pow2_def Let_def v_def [symmetric] U_def L_def ..
  then have "unat (round_to_pow2 s) =
       (if 0 < m \<and> unat s - 2 ^ (m - 1) \<le> 2 ^ m - unat s then 2 ^ (m - 1) else 2 ^ m)"
    using U L distance_test [OF U L pos sm] by (simp add: half_pow2)
  with sm m31 show ?thesis by (rule that)
qed


section \<open>The contract of a bounded queue\<close>

text \<open>
  What the acceptor and the workers rely on. \<open>contents\<close> reads a queue as the list of its
  elements, oldest first, \<open>room\<close> is the number of elements it can hold.
\<close>

text \<open>Pushing a list of elements, and taking elements with \<open>front\<close> and \<open>pop\<close> until empty.\<close>

fun push_all :: "('q \<Rightarrow> 'a \<Rightarrow> (bool \<times> 'q) outcome) \<Rightarrow> 'q \<Rightarrow> 'a list \<Rightarrow> 'q outcome" where
  "push_all psh q [] = Inr q"
| "push_all psh q (x # xs) = obind (psh q x) (\<lambda>(_, q'). push_all psh q' xs)"

fun take_front ::
    "('q \<Rightarrow> 'a outcome) \<Rightarrow> ('q \<Rightarrow> bool \<times> 'q) \<Rightarrow> nat \<Rightarrow> 'q \<Rightarrow> ('a list \<times> 'q) outcome" where
  "take_front fr pp 0 q = Inr ([], q)"
| "take_front fr pp (Suc n) q =
     obind (fr q) (\<lambda>x. obind (take_front fr pp n (snd (pp q))) (\<lambda>(xs, q'). Inr (x # xs, q')))"

locale bounded_queue =
  fixes q_push :: "'q \<Rightarrow> 'a \<Rightarrow> (bool \<times> 'q) outcome"
    and q_pop :: "'q \<Rightarrow> bool \<times> 'q"
    and q_front :: "'q \<Rightarrow> 'a outcome"
    and q_is_empty :: "'q \<Rightarrow> bool"
    and q_is_full :: "'q \<Rightarrow> bool"
    and contents :: "'q \<Rightarrow> 'a list"
    and room :: "'q \<Rightarrow> nat"
    and invar :: "'q \<Rightarrow> bool"
  assumes contents_le_room: "invar q \<Longrightarrow> length (contents q) \<le> room q"
    and is_empty_iff: "invar q \<Longrightarrow> q_is_empty q \<longleftrightarrow> contents q = []"
    and is_full_iff: "invar q \<Longrightarrow> q_is_full q \<longleftrightarrow> length (contents q) = room q"
    and push_full: "invar q \<Longrightarrow> q_is_full q \<Longrightarrow> q_push q x = Inr (False, q)"
    and push_ok: "invar q \<Longrightarrow> \<not> q_is_full q \<Longrightarrow>
      \<exists>q'. q_push q x = Inr (True, q') \<and> invar q' \<and> contents q' = contents q @ [x] \<and> room q' = room q"
    and front_ok: "invar q \<Longrightarrow> contents q \<noteq> [] \<Longrightarrow> q_front q = Inr (hd (contents q))"
    and pop_empty: "invar q \<Longrightarrow> contents q = [] \<Longrightarrow> q_pop q = (False, q)"
    and pop_ok: "invar q \<Longrightarrow> contents q \<noteq> [] \<Longrightarrow>
      fst (q_pop q) \<and> invar (snd (q_pop q)) \<and> contents (snd (q_pop q)) = tl (contents q)
      \<and> room (snd (q_pop q)) = room q"
begin

lemma push_accepts_iff:
  assumes "invar q" "q_push q x = Inr (b, q')"
  shows "b \<longleftrightarrow> length (contents q) < room q"
  using assms push_full push_ok is_full_iff contents_le_room
  by (metis Inr_inject Pair_inject nat_less_le)

lemma push_step:
  assumes "invar q"
  obtains b q' where "q_push q x = Inr (b, q')" "invar q'" "room q' = room q"
    "contents q' = (if length (contents q) < room q then contents q @ [x] else contents q)"
  using assms push_full [of q x] push_ok [of q x] is_full_iff contents_le_room
  by (metis nat_less_le)

lemma pop_makes_room:
  assumes "invar q" "contents q \<noteq> []"
  shows "\<not> q_is_full (snd (q_pop q))"
proof -
  from pop_ok [OF assms] have "invar (snd (q_pop q))"
    and "length (contents (snd (q_pop q))) = length (contents q) - 1"
    and "room (snd (q_pop q)) = room q" by auto
  moreover from contents_le_room [OF assms(1)] assms(2)
  have "length (contents q) - 1 \<noteq> room q"
    by (metis Nat.le_diff_conv2 One_nat_def Suc_n_not_le_n add_0_right add_Suc_right
        diff_le_self le_antisym length_0_conv less_one linorder_not_le)
  ultimately show ?thesis by (simp add: is_full_iff)
qed

lemma push_all_fits:
  assumes "invar q" "length (contents q) + length xs \<le> room q"
  shows "\<exists>q'. push_all q_push q xs = Inr q' \<and> invar q' \<and> contents q' = contents q @ xs
    \<and> room q' = room q"
  using assms
proof (induction xs arbitrary: q)
  case Nil
  then show ?case by simp
next
  case (Cons x xs)
  then have "\<not> q_is_full q" by (simp add: is_full_iff)
  with push_ok Cons.prems(1) obtain q1 where q1: "q_push q x = Inr (True, q1)" "invar q1"
    "contents q1 = contents q @ [x]" "room q1 = room q" by blast
  with Cons.IH [of q1] Cons.prems(2) show ?case by auto
qed

lemma take_front_contents:
  assumes "invar q" "n \<le> length (contents q)"
  shows "\<exists>q'. take_front q_front q_pop n q = Inr (take n (contents q), q') \<and> invar q'
    \<and> contents q' = drop n (contents q) \<and> room q' = room q"
  using assms
proof (induction n arbitrary: q)
  case 0
  then show ?case by simp
next
  case (Suc n)
  from Suc.prems(2) have ne: "contents q \<noteq> []" and "n \<le> length (tl (contents q))" by auto
  with pop_ok [OF Suc.prems(1) ne] Suc.IH [of "snd (q_pop q)"]
  obtain q' where "take_front q_front q_pop n (snd (q_pop q)) = Inr (take n (tl (contents q)), q')"
    "invar q'" "contents q' = drop n (tl (contents q))" "room q' = room q" by auto
  with front_ok [OF Suc.prems(1) ne] ne show ?case
    by (cases "contents q") auto
qed

text \<open>First in, first out: elements that fit come out in the order they went in.\<close>

lemma fifo:
  assumes "invar q" "length (contents q) + length xs \<le> room q"
  shows "\<exists>q1 q2. push_all q_push q xs = Inr q1
    \<and> take_front q_front q_pop (length (contents q) + length xs) q1 = Inr (contents q @ xs, q2)
    \<and> contents q2 = []"
proof -
  from push_all_fits [OF assms] obtain q1 where "push_all q_push q xs = Inr q1" "invar q1"
    "contents q1 = contents q @ xs" by blast
  with take_front_contents [of q1 "length (contents q) + length xs"] show ?thesis by auto
qed

end

section \<open>The ring buffer meets the contract\<close>

definition cq_inv :: "'a circular_queue \<Rightarrow> bool" where
  "cq_inv q \<longleftrightarrow>
     (\<exists>k<32. unat (capacity q) = 2 ^ k) \<and> length (buffer q) = unat (capacity q)
     \<and> unat (head q) < unat (capacity q) \<and> unat (tail q) < unat (capacity q)"

definition cq_list :: "'a circular_queue \<Rightarrow> 'a list" where
  "cq_list q =
     ring_slice (buffer q) (unat (head q))
       (ring_dist (length (buffer q)) (unat (head q)) (unat (tail q)))"

definition cq_room :: "'a circular_queue \<Rightarrow> nat" where
  "cq_room q = unat (capacity q) - 1"

lemma next_slot_mod:
  assumes "cq_inv q"
  shows "unat (next_slot q i) = (unat i + 1) mod unat (capacity q)"
proof -
  from assms obtain k where k: "k < 32" "unat (capacity q) = 2 ^ k" by (auto simp: cq_inv_def)
  then have "capacity q - 1 = mask k"
    by (simp add: mask_eq_exp_minus_1 pow2_if_unat)
  then have "unat (next_slot q i) = unat (ucast (i + 1) :: u64) mod 2 ^ k"
    by (simp only: next_slot_def unat_and_mask)
  also have "unat (ucast (i + 1) :: u64) = unat (i + 1)"
    by (rule unat_ucast_up) simp
  also have "\<dots> = (unat i + 1) mod 2 ^ 32" by (simp add: unat_word_ariths)
  also have "(unat i + 1) mod 2 ^ 32 mod 2 ^ k = (unat i + 1) mod 2 ^ k"
    using k(1) by (intro mod_pow2_Suc) simp
  finally show ?thesis by (simp add: k)
qed

lemma next_slot_u32:
  assumes "cq_inv q"
  shows "unat (ucast (next_slot q i) :: u32) = (unat i + 1) mod unat (capacity q)"
proof -
  from assms obtain k where k: "k < 32" "unat (capacity q) = 2 ^ k" by (auto simp: cq_inv_def)
  have "unat (ucast (next_slot q i) :: u32) = (unat i + 1) mod 2 ^ k mod 2 ^ 32"
    by (simp add: unat_ucast_mod next_slot_mod [OF assms] k)
  moreover have "(2::nat) ^ k < 2 ^ 32"
    using k(1) by (intro power_strict_increasing) simp_all
  then have "(unat i + 1) mod 2 ^ k < (2::nat) ^ 32"
    by (rule order_less_trans [rotated]) simp
  ultimately show ?thesis by (simp add: k)
qed

lemma is_full_u32:
  assumes "cq_inv q"
  shows "is_full q \<longleftrightarrow> (ucast (next_slot q (tail q)) :: u32) = head q"
proof -
  have "is_full q \<longleftrightarrow> unat (next_slot q (tail q)) = unat (head q)"
    by (simp add: is_full_def Let_def word_unat_eq_iff unat_ucast_up)
  then show ?thesis
    by (simp add: word_unat_eq_iff next_slot_mod [OF assms] next_slot_u32 [OF assms])
qed

lemma is_full_dist:
  assumes "cq_inv q"
  shows "is_full q \<longleftrightarrow> length (cq_list q) = cq_room q"
  using assms ring_dist_full [of "unat (head q)" "unat (capacity q)" "unat (tail q)"]
  by (simp add: is_full_u32 word_unat_eq_iff next_slot_u32 cq_list_def cq_room_def cq_inv_def)

lemma is_empty_list:
  assumes "cq_inv q"
  shows "is_empty q \<longleftrightarrow> cq_list q = []"
proof -
  have "cq_list q = [] \<longleftrightarrow> length (cq_list q) = 0" by simp
  also have "\<dots> \<longleftrightarrow> unat (head q) = unat (tail q)"
    using assms by (simp add: cq_list_def cq_inv_def ring_dist_0_iff)
  finally show ?thesis by (simp add: is_empty_def Let_def word_unat_eq_iff)
qed

lemma cq_list_le_room:
  assumes "cq_inv q"
  shows "length (cq_list q) \<le> cq_room q"
  using assms ring_dist_less [of "unat (head q)" "unat (capacity q)" "unat (tail q)"]
  by (simp add: cq_list_def cq_room_def cq_inv_def)

lemma push_when_full:
  assumes "cq_inv q" "is_full q"
  shows "push q x = Inr (False, q)"
  using assms by (simp add: push_def Let_def is_full_u32)

lemma push_not_full:
  fixes q :: "'a circular_queue" and x :: 'a
  assumes inv: "cq_inv q" and nf: "\<not> is_full q"
  defines "q' \<equiv> q\<lparr>buffer := (buffer q)[unat (tail q) := x], tail := ucast (next_slot q (tail q))\<rparr>"
  shows "push q x = Inr (True, q')" "cq_inv q'" "cq_list q' = cq_list q @ [x]" "cq_room q' = cq_room q"
proof -
  let ?n = "length (buffer q)" and ?h = "unat (head q)" and ?t = "unat (tail q)"
  from inv have n: "?n = unat (capacity q)" "?h < ?n" "?t < ?n"
    by (auto simp: cq_inv_def)
  have t': "unat (ucast (next_slot q (tail q)) :: u32) = (?t + 1) mod ?n"
    using next_slot_u32 [OF inv] n(1) by simp
  with nf inv have ne: "(?t + 1) mod ?n \<noteq> ?h"
    by (simp add: is_full_u32 word_unat_eq_iff)
  show "push q x = Inr (True, q')"
    using nf inv n by (simp add: push_def Let_def is_full_u32 q'_def)
  show "cq_inv q'"
    using inv t' n by (auto simp: cq_inv_def q'_def)
  show "cq_room q' = cq_room q" by (simp add: cq_room_def q'_def)
  have "cq_list q' = ring_slice ((buffer q)[?t := x]) ?h (Suc (ring_dist ?n ?h ?t))"
    using t' ring_dist_step [OF n(2,3) ne] by (simp add: cq_list_def q'_def)
  also have "\<dots> = ring_slice ((buffer q)[?t := x]) ?h (ring_dist ?n ?h ?t) @ [x]"
    using n by (simp add: ring_slice_Suc ring_dist_end)
  also have "ring_slice ((buffer q)[?t := x]) ?h (ring_dist ?n ?h ?t) = cq_list q"
    unfolding cq_list_def using ring_index_not_end [OF n(2,3)]
    by (intro ring_slice_update_outside) auto
  finally show "cq_list q' = cq_list q @ [x]" .
qed

lemma cq_list_nonempty:
  assumes "cq_inv q" "cq_list q \<noteq> []"
  shows "cq_list q = buffer q ! unat (head q) #
    ring_slice (buffer q) ((unat (head q) + 1) mod length (buffer q))
      (ring_dist (length (buffer q)) ((unat (head q) + 1) mod length (buffer q)) (unat (tail q)))"
proof -
  have "unat (head q) \<noteq> unat (tail q)"
    using assms is_empty_list [OF assms(1)] by (simp add: is_empty_def Let_def word_unat_eq_iff)
  then show ?thesis
    using assms(1) by (simp add: cq_list_def cq_inv_def ring_dist_drop ring_slice_Cons)
qed

lemma pop_nonempty:
  fixes q :: "'a circular_queue"
  assumes inv: "cq_inv q" and ne: "cq_list q \<noteq> []"
  defines "q' \<equiv> q\<lparr>head := ucast (next_slot q (head q))\<rparr>"
  shows "pop q = (True, q')" "cq_inv q'" "cq_list q' = tl (cq_list q)" "cq_room q' = cq_room q"
proof -
  have h': "unat (ucast (next_slot q (head q)) :: u32) = (unat (head q) + 1) mod unat (capacity q)"
    by (rule next_slot_u32 [OF inv])
  show "pop q = (True, q')"
    using ne is_empty_list [OF inv] by (simp add: pop_def is_empty_def Let_def q'_def)
  show "cq_inv q'"
    using inv h' by (auto simp: cq_inv_def q'_def)
  show "cq_list q' = tl (cq_list q)"
    using cq_list_nonempty [OF inv ne] inv h' by (simp add: cq_list_def cq_inv_def q'_def)
  show "cq_room q' = cq_room q" by (simp add: cq_room_def q'_def)
qed

lemma front_nonempty:
  assumes "cq_inv q" "cq_list q \<noteq> []"
  shows "front q = Inr (hd (cq_list q))"
proof -
  have "unat (head q) < length (buffer q)" using assms(1) by (simp add: cq_inv_def)
  with cq_list_nonempty [OF assms] is_empty_list [OF assms(1)] assms(2) show ?thesis
    by (simp add: front_def)
qed

lemma pop_when_empty:
  assumes "cq_inv q" "cq_list q = []"
  shows "pop q = (False, q)"
  using assms is_empty_list [of q] by (simp add: pop_def is_empty_def Let_def)

interpretation cq: bounded_queue push pop front is_empty is_full cq_list cq_room cq_inv
proof unfold_locales
  fix q :: "'a circular_queue" and x :: 'a
  assume inv: "cq_inv q"
  show "length (cq_list q) \<le> cq_room q" by (rule cq_list_le_room [OF inv])
  show "is_empty q \<longleftrightarrow> cq_list q = []" by (rule is_empty_list [OF inv])
  show "is_full q \<longleftrightarrow> length (cq_list q) = cq_room q" by (rule is_full_dist [OF inv])
  show "push q x = Inr (False, q)" if "is_full q" by (rule push_when_full [OF inv that])
  show "\<exists>q'. push q x = Inr (True, q') \<and> cq_inv q' \<and> cq_list q' = cq_list q @ [x] \<and> cq_room q' = cq_room q"
    if "\<not> is_full q" using push_not_full [OF inv that, of x] by blast
  show "front q = Inr (hd (cq_list q))" if "cq_list q \<noteq> []" by (rule front_nonempty [OF inv that])
  show "pop q = (False, q)" if "cq_list q = []" by (rule pop_when_empty [OF inv that])
  show "fst (pop q) \<and> cq_inv (snd (pop q)) \<and> cq_list (snd (pop q)) = tl (cq_list q)
      \<and> cq_room (snd (pop q)) = cq_room q" if "cq_list q \<noteq> []"
    using pop_nonempty [OF inv that] by simp
qed

section \<open>Properties\<close>

lemma nearer_of_two:
  fixes a b c s r :: nat
  assumes "s \<le> b" "z \<or> a < s" "c \<le> a \<and> \<not> z \<or> b \<le> c"
    and "r = (if \<not> z \<and> s - a \<le> b - s then a else b)"
  shows "\<bar>int s - int r\<bar> \<le> \<bar>int s - int c\<bar>"
  using assms by (auto split: if_splits)

lemma pow2_distance:
  fixes s :: nat
  assumes "s \<le> 2 ^ m" "m = 0 \<or> 2 ^ (m - 1) < s"
    and "r = (if 0 < m \<and> s - 2 ^ (m - 1) \<le> 2 ^ m - s then 2 ^ (m - 1) else 2 ^ m)"
  shows "\<bar>int s - int r\<bar> \<le> \<bar>int s - 2 ^ j\<bar>"
proof -
  have "(2::nat) ^ j \<le> 2 ^ (m - 1) \<and> m \<noteq> 0 \<or> (2::nat) ^ m \<le> 2 ^ j"
    by (cases "j < m") (auto intro: power_increasing)
  with assms have "\<bar>int s - int r\<bar> \<le> \<bar>int s - int (2 ^ j)\<bar>"
    by (intro nearer_of_two [where a = "2 ^ (m - 1)" and b = "2 ^ m" and z = "m = 0"]) auto
  then show ?thesis by simp
qed

text \<open>
  C33: for every requested capacity from 1 to \<open>2 ^ 31\<close>, \<open>round_to_pow2\<close> returns a power of two
  below \<open>2 ^ 32\<close>, and no power of two is closer to the request.
\<close>

theorem round_to_pow2_nearest:
  assumes "0 < unat s" "unat s \<le> 2 ^ 31"
  shows "\<exists>k<32. unat (round_to_pow2 s) = 2 ^ k
    \<and> (\<forall>j. \<bar>int (unat s) - 2 ^ k\<bar> \<le> \<bar>int (unat s) - 2 ^ j\<bar>)"
proof -
  obtain m where m: "unat s \<le> 2 ^ m" "m = 0 \<or> 2 ^ (m - 1) < unat s" "m \<le> 31"
    "unat (round_to_pow2 s) =
       (if 0 < m \<and> unat s - 2 ^ (m - 1) \<le> 2 ^ m - unat s then 2 ^ (m - 1) else 2 ^ m)"
    by (rule round_to_pow2_cases [OF assms])
  define k where "k = (if 0 < m \<and> unat s - 2 ^ (m - 1) \<le> 2 ^ m - unat s then m - 1 else m)"
  have k: "unat (round_to_pow2 s) = 2 ^ k" using m(4) by (simp add: k_def)
  have "\<bar>int (unat s) - int (2 ^ k)\<bar> \<le> \<bar>int (unat s) - 2 ^ j\<bar>" for j
    by (rule pow2_distance [OF m(1,2)]) (simp add: k_def)
  moreover have "k < 32" using m(3) by (auto simp: k_def)
  ultimately show ?thesis using k by auto
qed

theorem round_to_pow2_nearest_witness:
  "0 < unat (5000 :: u64) \<and> unat (5000 :: u64) \<le> 2 ^ 31
    \<and> (\<exists>k<32. unat (round_to_pow2 5000) = 2 ^ k
         \<and> (\<forall>j. \<bar>int (unat (5000 :: u64)) - 2 ^ k\<bar> \<le> \<bar>int (unat (5000 :: u64)) - 2 ^ j\<bar>))"
  using round_to_pow2_nearest [of 5000] by simp

lemma cq_new_inv:
  assumes "0 < unat cap" "unat cap \<le> 2 ^ 31"
  shows "cq_inv (cq_new dflt cap)" "cq_list (cq_new dflt cap) = []"
proof -
  obtain m where "m \<le> 31" "unat (round_to_pow2 cap) =
       (if 0 < m \<and> unat cap - 2 ^ (m - 1) \<le> 2 ^ m - unat cap then 2 ^ (m - 1) else 2 ^ m)"
    by (rule round_to_pow2_cases [OF assms])
  moreover from this have "m < 32" "m - 1 < 32" by auto
  ultimately obtain k where "k < 32" "unat (round_to_pow2 cap) = 2 ^ k"
    by (metis (full_types))
  then show "cq_inv (cq_new dflt cap)" by (auto simp: cq_inv_def cq_new_def Let_def)
  show "cq_list (cq_new dflt cap) = []" by (simp add: cq_list_def cq_new_def Let_def)
qed

text \<open>
  C17: on a well-formed queue \<open>push\<close> never faults; it accepts the element exactly when fewer
  than \<open>capacity - 1\<close> elements are stored, appends it at the end in that case and leaves the
  stored elements alone otherwise; the invariant is kept.
\<close>

theorem push_refines_append:
  assumes "cq_inv q"
  shows "\<exists>q'. push q x = Inr (length (cq_list q) < cq_room q, q') \<and> cq_inv q'
    \<and> cq_list q' = (if length (cq_list q) < cq_room q then cq_list q @ [x] else cq_list q)"
proof -
  obtain b q' where "push q x = Inr (b, q')" "cq_inv q'"
    "cq_list q' = (if length (cq_list q) < cq_room q then cq_list q @ [x] else cq_list q)"
    using assms by (rule cq.push_step)
  with cq.push_accepts_iff [OF assms] show ?thesis by auto
qed

definition small_queue :: "nat circular_queue" where
  "small_queue = \<lparr>buffer = [7, 0, 5, 6], capacity = 4, head = 2, tail = 1\<rparr>"

lemma small_queue_inv: "cq_inv small_queue"
proof -
  have "unat (capacity small_queue) = 2 ^ 2" by (simp add: small_queue_def)
  moreover have "(2::nat) < 32" by simp
  ultimately show ?thesis unfolding cq_inv_def by (auto simp: small_queue_def intro: exI [of _ 2])
qed

theorem push_refines_append_witness:
  "cq_inv small_queue \<and>
   (\<exists>q'. push small_queue 9 = Inr (length (cq_list small_queue) < cq_room small_queue, q') \<and> cq_inv q'
    \<and> cq_list q' = (if length (cq_list small_queue) < cq_room small_queue
                    then cq_list small_queue @ [9] else cq_list small_queue))"
  using push_refines_append [OF small_queue_inv] small_queue_inv by blast

text \<open>
  C16: elements that fit into a well-formed queue come out of it in the order in which they
  went in, after the elements that were there before, and none is lost: pushing \<open>xs\<close> and then
  taking elements with \<open>front\<close> and \<open>pop\<close> yields the old contents followed by \<open>xs\<close> and
  leaves the queue empty.
\<close>

theorem queue_fifo:
  assumes "cq_inv q" "length (cq_list q) + length xs \<le> cq_room q"
  shows "\<exists>q1 q2. push_all push q xs = Inr q1
    \<and> take_front front pop (length (cq_list q) + length xs) q1 = Inr (cq_list q @ xs, q2)
    \<and> is_empty q2"
proof -
  from cq.push_all_fits [OF assms] obtain q1 where q1: "push_all push q xs = Inr q1" "cq_inv q1"
    "cq_list q1 = cq_list q @ xs" by blast
  with cq.take_front_contents [of q1 "length (cq_list q) + length xs"] obtain q2 where
    "take_front front pop (length (cq_list q) + length xs) q1 = Inr (cq_list q @ xs, q2)"
    "cq_inv q2" "cq_list q2 = []" by auto
  with q1(1) show ?thesis by (auto simp: cq.is_empty_iff)
qed

theorem queue_fifo_witness:
  "cq_inv (cq_new 0 (4 :: u64) :: nat circular_queue) \<and>
   (\<exists>q1 q2. push_all push (cq_new 0 4) [1, 2, 3 :: nat] = Inr q1
    \<and> take_front front pop (length (cq_list (cq_new (0 :: nat) 4)) + length [1, 2, 3 :: nat]) q1
        = Inr (cq_list (cq_new 0 4) @ [1, 2, 3], q2) \<and> is_empty q2)"
proof -
  have inv: "cq_inv (cq_new (0 :: nat) 4)" and nil: "cq_list (cq_new (0 :: nat) 4) = []"
    by (rule cq_new_inv; simp)+
  have "round_to_pow2 4 = 4"
    by (simp add: round_to_pow2_def smear_loop.simps Let_def)
  then have "cq_room (cq_new (0 :: nat) 4) = 3" by (simp add: cq_room_def cq_new_def)
  then have "length (cq_list (cq_new (0 :: nat) 4)) + length [1, 2, 3 :: nat] \<le> cq_room (cq_new (0 :: nat) 4)"
    by (simp add: nil)
  with inv show ?thesis using queue_fifo [OF inv] by blast
qed

text \<open>Above \<open>2 ^ 31\<close> the 32-bit arithmetic of \<open>round_to_pow2\<close> wraps to zero, as for a request of 0.\<close>

lemma round_to_pow2_wraps:
  assumes "s = 0 \<or> (2 ^ 31 < unat s \<and> unat s \<le> 2 ^ 32)"
  shows "round_to_pow2 s = 0"
proof -
  define v :: u32 where "v = ucast (s - 1)"
  have "2 ^ 31 \<le> unat v"
    using assms by (auto simp: v_def unat_ucast_mod unat_sub_if')
  moreover have "unat v < 2 ^ 32" using unsigned_less [of v] by simp
  ultimately have "smear_loop 1 v = mask 32" by (intro smear_loop_mask) auto
  then have "smear_loop 1 v + 1 = 0" by (simp add: mask_eq_exp_minus_1)
  then have "round_to_pow2 s = (if s \<le> - s then 0 else 0)"
    unfolding round_to_pow2_def Let_def v_def [symmetric] by simp
  then show ?thesis by simp
qed

text \<open>
  A queue constructed with a requested capacity of 0, or of more than \<open>2 ^ 31\<close> and at most
  \<open>2 ^ 32\<close>, has no slot at all (the 32-bit rounding wraps to 0), and the first \<open>push\<close> writes
  past the end of its empty buffer instead of refusing the element.
\<close>

theorem degenerate_queue_faults:
  assumes "cap = 0 \<or> (2 ^ 31 < unat cap \<and> unat cap \<le> 2 ^ 32)"
  shows "push (cq_new dflt cap) x = Inl OutOfBounds"
proof -
  have "cq_new dflt cap = \<lparr>buffer = [], capacity = 0, head = 0, tail = 0\<rparr>"
    by (simp add: cq_new_def round_to_pow2_wraps [OF assms])
  then show ?thesis
    by (simp add: push_def next_slot_def vec_set_def)
qed

theorem degenerate_queue_faults_witness:
  "2 ^ 31 < unat (3000000000 :: u64) \<and> push (cq_new (0 :: nat) 3000000000) 5 = Inl OutOfBounds"
  using degenerate_queue_faults [of 3000000000 "0 :: nat" 5] by simp

end
