(* ===== verification/Worker.thy ===== *)
theory Worker
  imports Handler Ssl_Ctx Circular_Queue
begin

text \<open>
  The worker (\<open>worker.h\<close>, \<open>worker.cc\<close>): one thread with its epoll set, its socket queue and the
  sessions of its connections. The operating system and OpenSSL are the parameter \<open>sys\<close>, functions
  on an opaque state \<open>'o\<close> that return what the calls return. A loop that depends on these answers may
  run forever, so it is a partial function into \<open>run\<close>: \<open>None\<close> when it does not end, otherwise a
  fault or a result. The worker runs alone here; its interleaving with the other threads is the
  subject of \<open>Notify_Protocol\<close> and \<open>Whole_Program\<close>.

  The functions pass the session of a connection as a value. The pointer that the session map keeps
  is the same object, so the caller writes the session back when the map still has the connection,
  and otherwise the last reference is gone and the session is destroyed (\<open>release_session\<close>).
\<close>

section \<open>System calls\<close>

type_synonym 'a run = "'a outcome option"

definition rbind :: "'a run \<Rightarrow> ('a \<Rightarrow> 'b run) \<Rightarrow> 'b run" where
  "rbind m f = (case m of None \<Rightarrow> None | Some (Inl e) \<Rightarrow> Some (Inl e) | Some (Inr x) \<Rightarrow> f x)"

lemma rbind_simps [simp]:
  "rbind None f = None" "rbind (Some (Inl e)) f = Some (Inl e)" "rbind (Some (Inr x)) f = f x"
  by (simp_all add: rbind_def)

datatype errno = EINTR | EAGAIN | ENOENT | EOTHER

datatype io_read = ReadBytes string | ReadError errno

datatype io_write = Wrote nat | WriteError errno

datatype ssl_error = SSL_ERROR_WANT_READ | SSL_ERROR_WANT_WRITE | SSL_ERROR_SYSCALL errno
  | SSL_ERROR_ZERO_RETURN | SSL_ERROR_OTHER

datatype ssl_read_result = SslRead string | SslReadError ssl_error

datatype ssl_write_result = SslWrote nat | SslWriteError ssl_error

datatype epoll_op = EPOLL_CTL_ADD | EPOLL_CTL_MOD | EPOLL_CTL_DEL

record ('l, 'o) sys =
  sys_read :: "'o \<Rightarrow> int \<Rightarrow> nat \<Rightarrow> io_read \<times> 'o"
  sys_write :: "'o \<Rightarrow> int \<Rightarrow> string \<Rightarrow> io_write \<times> 'o"
  sys_close :: "'o \<Rightarrow> int \<Rightarrow> 'o"
  sys_epoll_ctl :: "'o \<Rightarrow> int \<Rightarrow> epoll_op \<Rightarrow> int \<Rightarrow> u32 \<Rightarrow> errno option \<times> 'o"
  sys_epoll_create :: "'o \<Rightarrow> int \<times> 'o"
  sys_eventfd :: "'o \<Rightarrow> int \<times> 'o"
  sys_epoll_wait :: "'o \<Rightarrow> int \<Rightarrow> (errno + (u32 \<times> int) list) \<times> 'o"
  ssl_new :: "'o \<Rightarrow> ssl_ctx option \<Rightarrow> 'l option \<times> 'o"
  ssl_set_fd :: "'o \<Rightarrow> 'l \<Rightarrow> int \<Rightarrow> 'o"
  ssl_accept :: "'o \<Rightarrow> 'l \<Rightarrow> ssl_error option \<times> 'o"
  ssl_read :: "'o \<Rightarrow> 'l \<Rightarrow> nat \<Rightarrow> ssl_read_result \<times> 'o"
  ssl_write :: "'o \<Rightarrow> 'l \<Rightarrow> string \<Rightarrow> ssl_write_result \<times> 'o"
  ssl_want_read :: "'o \<Rightarrow> 'l \<Rightarrow> bool"
  ssl_want_write :: "'o \<Rightarrow> 'l \<Rightarrow> bool"
  ssl_alpn :: "'o \<Rightarrow> 'l \<Rightarrow> bytes option"
  ssl_shutdown :: "'o \<Rightarrow> 'l \<Rightarrow> 'o"

text \<open>Everything that is not the worker's own code.\<close>

record ('n, 'h, 'l, 'o) platform =
  pf_host :: host
  pf_ng :: "'n nghttp2"
  pf_call :: "('n, 'h, 'l) handler_call"
  pf_sys :: "('l, 'o) sys"
  pf_ssl :: ssl_lib

definition EPOLLIN :: u32 where "EPOLLIN = 0x001"
definition EPOLLOUT :: u32 where "EPOLLOUT = 0x004"
definition EPOLLERR :: u32 where "EPOLLERR = 0x008"
definition EPOLLHUP :: u32 where "EPOLLHUP = 0x010"
definition EPOLLRDHUP :: u32 where "EPOLLRDHUP = 0x2000"
definition EPOLLET :: u32 where "EPOLLET = 0x80000000"
definition BUF_SIZE :: nat where "BUF_SIZE = 2048"

datatype io_result = SUCCESS | AGAIN | SHUTDOWN

section \<open>State\<close>

text \<open>
  The three \<open>std::function\<close> members hold closures over \<open>this\<close>: none yet, closures over this object for
  one of the two modes, or closures over another object that this one was moved from.
\<close>

datatype callbacks = Unbound | BoundHere bool | BoundElsewhere bool

record ('n, 'h, 'l, 'o) worker =
  wk_router :: "'h router_node option"
  wk_callbacks :: callbacks
  wk_signal_fd :: int
  wk_epfd :: int
  wk_use_tls :: bool
  wk_ssl_ctx :: "ssl_ctx option"
  wk_pending_notify :: bool
  wk_socket_queue :: "int circular_queue"
  wk_session_map :: "int \<rightharpoonup> ('n, 'h, 'l) session_data"
  wk_cache :: file_cache
  wk_fs :: file_system
  wk_os :: 'o

definition bind_callbacks_for_mode :: "bool \<Rightarrow> ('n, 'h, 'l, 'o) worker \<Rightarrow> ('n, 'h, 'l, 'o) worker" where
  "bind_callbacks_for_mode tls w = w\<lparr>wk_callbacks := BoundHere tls, wk_use_tls := tls\<rparr>"

definition worker_new :: "'h router_node option \<Rightarrow> bool \<Rightarrow> file_system \<Rightarrow> 'o \<Rightarrow> ('n, 'h, 'l, 'o) worker" where
  "worker_new router tls fs os =
     bind_callbacks_for_mode tls
     \<lparr>wk_router = router, wk_callbacks = Unbound, wk_signal_fd = - 1, wk_epfd = - 1, wk_use_tls = tls, wk_ssl_ctx = None,
      wk_pending_notify = False, wk_socket_queue = cq_new 0 4096, wk_session_map = Map.empty,
      wk_cache = Map.empty, wk_fs = fs, wk_os = os\<rparr>"

lemma worker_new_eq:
  "worker_new router tls fs os =
     \<lparr>wk_router = router, wk_callbacks = BoundHere tls, wk_signal_fd = - 1, wk_epfd = - 1, wk_use_tls = tls,
      wk_ssl_ctx = None, wk_pending_notify = False, wk_socket_queue = cq_new 0 4096,
      wk_session_map = Map.empty, wk_cache = Map.empty, wk_fs = fs, wk_os = os\<rparr>"
  by (simp add: worker_new_def bind_callbacks_for_mode_def)

text \<open>
  Calling one of the functions: the mode it was bound for. An empty function throws; a closure over
  another object is used after that object is gone, because a worker is only moved by a vector that
  destroys the original.
\<close>

definition bound_mode :: "('n, 'h, 'l, 'o) worker \<Rightarrow> bool outcome" where
  "bound_mode w =
     (case wk_callbacks w of
        Unbound \<Rightarrow> Inl EmptyFunction
      | BoundHere tls \<Rightarrow> Inr tls
      | BoundElsewhere tls \<Rightarrow> Inl DanglingPointer)"

lemma bound_mode_simps [simp]:
  "wk_callbacks w = BoundHere tls \<Longrightarrow> bound_mode w = Inr tls"
  by (simp add: bound_mode_def)

section \<open>Moving and destroying a worker\<close>

text \<open>
  The move constructor: the new worker and what is left of the old one. The queue and the map of
  the new worker are constructed empty and then swapped in, its flag is constructed false, and the
  functions are copied, so that their closures still refer to the old object. The file cache and
  the file system are not members and stay with the thread.
\<close>

definition worker_move :: "('n, 'h, 'l, 'o) worker \<Rightarrow> ('n, 'h, 'l, 'o) worker \<times> ('n, 'h, 'l, 'o) worker" where
  "worker_move w =
     (let (queue, old_queue) = cq_swap (cq_new 0 4096) (wk_socket_queue w);
          (sessions, old_sessions) = (wk_session_map w, Map.empty);
          functions = (case wk_callbacks w of BoundHere tls \<Rightarrow> BoundElsewhere tls | c \<Rightarrow> c)
      in (\<lparr>wk_router = wk_router w, wk_callbacks = functions, wk_signal_fd = wk_signal_fd w, wk_epfd = wk_epfd w,
           wk_use_tls = wk_use_tls w, wk_ssl_ctx = wk_ssl_ctx w, wk_pending_notify = False,
           wk_socket_queue = queue, wk_session_map = sessions, wk_cache = wk_cache w, wk_fs = wk_fs w,
           wk_os = wk_os w\<rparr>,
          w\<lparr>wk_router := None, wk_epfd := - 1, wk_signal_fd := - 1, wk_ssl_ctx := None,
            wk_socket_queue := old_queue, wk_session_map := old_sessions\<rparr>))"

text \<open>
  The destructor: the two descriptors are closed and the sessions destroyed, in the order in which
  the hash map holds them, which is the argument \<open>order\<close>. Clients that are still connected are not
  disconnected.
\<close>

definition worker_destroy ::
    "('n, 'h, 'l, 'o) platform \<Rightarrow> int list \<Rightarrow> ('n, 'h, 'l, 'o) worker \<Rightarrow> ('n, 'h, 'l, 'o) worker" where
  "worker_destroy pf order w =
     (let sy = pf_sys pf;
          os1 = (if wk_epfd w > 0 then sys_close sy (wk_os w) (wk_epfd w) else wk_os w);
          os2 = (if wk_signal_fd w > 0 then sys_close sy os1 (wk_signal_fd w) else os1);
          fs1 = fold (\<lambda>sock fs. case wk_session_map w sock of
                        None \<Rightarrow> fs | Some sd \<Rightarrow> destroy_session (pf_host pf) sd fs) order (wk_fs w)
      in w\<lparr>wk_os := os2, wk_ssl_ctx := None, wk_fs := fs1, wk_session_map := Map.empty\<rparr>)"

text \<open>\<open>create_epoll\<close>; \<open>None\<close> is the exception.\<close>

definition create_epoll :: "('l, 'o) sys \<Rightarrow> 'o \<Rightarrow> int option \<times> 'o" where
  "create_epoll sy os =
     (let (epfd, os1) = sys_epoll_create sy os in if epfd \<le> 0 then (None, os1) else (Some epfd, os1))"

section \<open>Events\<close>

unbundle bit_operations_syntax

definition check_close_event :: "u32 \<Rightarrow> bool" where
  "check_close_event ev \<longleftrightarrow> ev AND (EPOLLERR OR EPOLLHUP OR EPOLLRDHUP) \<noteq> 0"

definition set_event ::
    "('n, 'h, 'l, 'o) platform \<Rightarrow> int \<Rightarrow> u32 \<Rightarrow> ('n, 'h, 'l, 'o) worker \<Rightarrow> ('n, 'h, 'l, 'o) worker" where
  "set_event pf sock ev w =
     (let flags = ev OR EPOLLET OR EPOLLRDHUP;
          (err, os1) = sys_epoll_ctl (pf_sys pf) (wk_os w) (wk_epfd w) EPOLL_CTL_MOD sock flags
      in if err = Some ENOENT
         then w\<lparr>wk_os := snd (sys_epoll_ctl (pf_sys pf) os1 (wk_epfd w) EPOLL_CTL_ADD sock flags)\<rparr>
         else w\<lparr>wk_os := os1\<rparr>)"

definition update_event ::
    "('n, 'h, 'l, 'o) platform \<Rightarrow> int \<Rightarrow> u32 \<Rightarrow> ('n, 'h, 'l) session_data \<Rightarrow> ('n, 'h, 'l, 'o) worker
      \<Rightarrow> ('n, 'h, 'l) session_data \<times> ('n, 'h, 'l, 'o) worker" where
  "update_event pf sock ev sd w =
     (if sd_events sd = ev then (sd, w) else (sd\<lparr>sd_events := ev\<rparr>, set_event pf sock ev w))"

definition deref_ssl :: "('n, 'h, 'l) session_data \<Rightarrow> 'l outcome" where
  "deref_ssl sd = (case sd_ssl sd of None \<Rightarrow> Inl NullDeref | Some s \<Rightarrow> Inr s)"

text \<open>The event mask that both \<open>update_events\<close> functions compute from what is wanted.\<close>

definition wanted_events :: "session_state \<Rightarrow> bool \<Rightarrow> bool \<Rightarrow> u32" where
  "wanted_events st want_read want_write =
     (if st = DISCONNECTING then (if want_write then EPOLLOUT else 0)
      else let ev = (if want_read then EPOLLIN else 0) OR (if want_write then EPOLLOUT else 0)
           in if ev = 0 then EPOLLIN else ev)"

definition update_events_h2c ::
    "('n, 'h, 'l, 'o) platform \<Rightarrow> int \<Rightarrow> ('n, 'h, 'l) session_data \<Rightarrow> ('n, 'h, 'l, 'o) worker
      \<Rightarrow> (('n, 'h, 'l) session_data \<times> ('n, 'h, 'l, 'o) worker) outcome" where
  "update_events_h2c pf sock sd w =
     obind (deref_session sd) (\<lambda>n.
       Inr (update_event pf sock
              (wanted_events (sd_state sd) (ng_want_read (pf_ng pf) n)
                 (ng_want_write (pf_ng pf) n \<or> sd_output_buffer sd \<noteq> [])) sd w))"

definition update_events_tls ::
    "('n, 'h, 'l, 'o) platform \<Rightarrow> int \<Rightarrow> ('n, 'h, 'l) session_data \<Rightarrow> ('n, 'h, 'l, 'o) worker
      \<Rightarrow> (('n, 'h, 'l) session_data \<times> ('n, 'h, 'l, 'o) worker) outcome" where
  "update_events_tls pf sock sd w =
     obind (deref_ssl sd) (\<lambda>s. obind (deref_session sd) (\<lambda>n.
       Inr (update_event pf sock
              (wanted_events (sd_state sd) (ssl_want_read (pf_sys pf) (wk_os w) s \<or> ng_want_read (pf_ng pf) n)
                 (ssl_want_write (pf_sys pf) (wk_os w) s \<or> ng_want_write (pf_ng pf) n
                  \<or> sd_output_buffer sd \<noteq> [])) sd w)))"

text \<open>The first of the functions that \<open>bind_callbacks_for_mode\<close> sets.\<close>

definition update_events ::
    "('n, 'h, 'l, 'o) platform \<Rightarrow> int \<Rightarrow> ('n, 'h, 'l) session_data \<Rightarrow> ('n, 'h, 'l, 'o) worker
      \<Rightarrow> (('n, 'h, 'l) session_data \<times> ('n, 'h, 'l, 'o) worker) outcome" where
  "update_events pf sock sd w =
     obind (bound_mode w) (\<lambda>tls.
       if tls then update_events_tls pf sock sd w else update_events_h2c pf sock sd w)"

definition update_ssl_handshake_events ::
    "('n, 'h, 'l, 'o) platform \<Rightarrow> int \<Rightarrow> ('n, 'h, 'l) session_data \<Rightarrow> ('n, 'h, 'l, 'o) worker
      \<Rightarrow> (('n, 'h, 'l) session_data \<times> ('n, 'h, 'l, 'o) worker) outcome" where
  "update_ssl_handshake_events pf sock sd w =
     obind (deref_ssl sd) (\<lambda>s.
       let ev = (if ssl_want_read (pf_sys pf) (wk_os w) s then EPOLLIN else 0)
                OR (if ssl_want_write (pf_sys pf) (wk_os w) s then EPOLLOUT else 0)
       in Inr (update_event pf sock (if ev = 0 then EPOLLIN else ev) sd w))"

section \<open>Connections\<close>

definition should_disconnect :: "session_state \<Rightarrow> bool" where
  "should_disconnect st \<longleftrightarrow> st = DISCONNECTING"

definition should_close_after_disconnect ::
    "'n nghttp2 \<Rightarrow> ('n, 'h, 'l) session_data \<Rightarrow> bool outcome" where
  "should_close_after_disconnect ng sd =
     (if sd_state sd \<noteq> DISCONNECTING then Inr False
      else obind (deref_session sd) (\<lambda>n. Inr (\<not> ng_want_write ng n \<and> sd_output_buffer sd = [])))"

definition disconnect_from_client ::
    "('n, 'h, 'l, 'o) platform \<Rightarrow> int \<Rightarrow> ('n, 'h, 'l) session_data \<Rightarrow> ('n, 'h, 'l, 'o) worker
      \<Rightarrow> ('n, 'h, 'l) session_data \<times> ('n, 'h, 'l, 'o) worker" where
  "disconnect_from_client pf sock sd w =
     (let sy = pf_sys pf;
          (sd1, os1) =
            (case sd_ssl sd of
               Some s \<Rightarrow>
                 if wk_use_tls w then
                   (let (shut, sd') = close_session sd
                    in (sd', if shut then ssl_shutdown sy (wk_os w) s else wk_os w))
                 else (sd, wk_os w)
             | None \<Rightarrow> (sd, wk_os w));
          os2 = snd (sys_epoll_ctl sy os1 (wk_epfd w) EPOLL_CTL_DEL sock 0);
          os3 = sys_close sy os2 sock
      in (sd1, w\<lparr>wk_os := os3, wk_session_map := (wk_session_map w)(sock := None)\<rparr>))"

definition release_session ::
    "('n, 'h, 'l, 'o) platform \<Rightarrow> int \<Rightarrow> ('n, 'h, 'l) session_data \<Rightarrow> ('n, 'h, 'l, 'o) worker
      \<Rightarrow> ('n, 'h, 'l, 'o) worker" where
  "release_session pf sock sd w =
     (case wk_session_map w sock of
        None \<Rightarrow> w\<lparr>wk_fs := destroy_session (pf_host pf) sd (wk_fs w)\<rparr>
      | Some _ \<Rightarrow> w\<lparr>wk_session_map := (wk_session_map w)(sock \<mapsto> sd)\<rparr>)"

definition send_server_connection_header ::
    "'n nghttp2 \<Rightarrow> ('n, 'h, 'l) session_data \<Rightarrow> (int \<times> ('n, 'h, 'l) session_data) outcome" where
  "send_server_connection_header ng sd =
     obind (deref_session sd) (\<lambda>n.
       let (rv, n') = ng_submit_settings ng n [(NGHTTP2_SETTINGS_MAX_CONCURRENT_STREAMS, 100)]
       in Inr (if rv \<noteq> 0 then - 1 else 0, sd\<lparr>sd_session := Some n'\<rparr>))"

definition establish_connection ::
    "'n nghttp2 \<Rightarrow> ('n, 'h, 'l) session_data \<Rightarrow> (session_state \<times> ('n, 'h, 'l) session_data) outcome" where
  "establish_connection ng sd =
     obind (send_server_connection_header ng sd) (\<lambda>(rv, sd').
       Inr (if rv \<noteq> 0 then DISCONNECTING else ESTABLISHED, sd'))"

definition validate_alpn :: "('l, 'o) sys \<Rightarrow> 'o \<Rightarrow> 'l \<Rightarrow> bool" where
  "validate_alpn sy os s = validate_alpn_name (ssl_alpn sy os s)"

definition do_tls_handshake ::
    "('n, 'h, 'l, 'o) platform \<Rightarrow> int \<Rightarrow> ('n, 'h, 'l) session_data \<Rightarrow> ('n, 'h, 'l, 'o) worker
      \<Rightarrow> (session_state \<times> ('n, 'h, 'l) session_data \<times> ('n, 'h, 'l, 'o) worker) outcome" where
  "do_tls_handshake pf sock sd w =
     obind (deref_ssl sd) (\<lambda>s.
       let (err, os1) = ssl_accept (pf_sys pf) (wk_os w) s; w1 = w\<lparr>wk_os := os1\<rparr> in
       case err of
         None \<Rightarrow> Inr (if validate_alpn (pf_sys pf) os1 s then ESTABLISHING else DISCONNECTING, sd, w1)
       | Some e \<Rightarrow>
           if e = SSL_ERROR_WANT_READ \<or> e = SSL_ERROR_WANT_WRITE then
             obind (update_ssl_handshake_events pf sock sd w1) (\<lambda>(sd', w'). Inr (TLS_HANDSHAKING, sd', w'))
           else Inr (DISCONNECTING, sd, w1))"

definition handle_tls_handshake ::
    "('n, 'h, 'l, 'o) platform \<Rightarrow> int \<Rightarrow> ('n, 'h, 'l) session_data \<Rightarrow> ('n, 'h, 'l, 'o) worker
      \<Rightarrow> (('n, 'h, 'l) session_data \<times> ('n, 'h, 'l, 'o) worker) outcome" where
  "handle_tls_handshake pf sock sd w =
     obind (do_tls_handshake pf sock sd w) (\<lambda>(st, sd1, w1).
       if should_disconnect st then Inr (disconnect_from_client pf sock sd1 w1)
       else if st = TLS_HANDSHAKING then Inr (sd1, w1)
       else obind (establish_connection (pf_ng pf) sd1) (\<lambda>(st2, sd2).
              if should_disconnect st2 then Inr (disconnect_from_client pf sock sd2 w1)
              else update_events pf sock (sd2\<lparr>sd_state := st2\<rparr>) w1))"

text \<open>\<open>SSL_new\<close> returns null without a context; \<open>SSL_set_fd\<close> then dereferences it.\<close>

definition handle_tls_accept ::
    "('n, 'h, 'l, 'o) platform \<Rightarrow> int \<Rightarrow> ('n, 'h, 'l) session_data \<Rightarrow> ('n, 'h, 'l, 'o) worker
      \<Rightarrow> (bool \<times> ('n, 'h, 'l) session_data \<times> ('n, 'h, 'l, 'o) worker) outcome" where
  "handle_tls_accept pf sock sd w =
     (let (ssl, os1) = ssl_new (pf_sys pf) (wk_os w) (wk_ssl_ctx w) in
      case ssl of
        None \<Rightarrow> Inl NullDeref
      | Some s \<Rightarrow>
          obind (do_tls_handshake pf sock (sd\<lparr>sd_ssl := Some s\<rparr>) (w\<lparr>wk_os := ssl_set_fd (pf_sys pf) os1 s sock\<rparr>))
            (\<lambda>(st, sd1, w1).
               if st = DISCONNECTING then
                 (let (sd2, w2) = disconnect_from_client pf sock sd1 w1 in Inr (False, sd2, w2))
               else if st = TLS_HANDSHAKING then Inr (False, sd1\<lparr>sd_state := st\<rparr>, w1)
               else Inr (True, sd1, w1)))"

text \<open>\<open>dequeue_sock\<close>: the next socket, or -1.\<close>

definition dequeue_sock :: "('n, 'h, 'l, 'o) worker \<Rightarrow> (int \<times> ('n, 'h, 'l, 'o) worker) outcome" where
  "dequeue_sock w =
     (if \<not> is_empty (wk_socket_queue w) then
        obind (front (wk_socket_queue w)) (\<lambda>s.
          Inr (s, w\<lparr>wk_socket_queue := snd (pop (wk_socket_queue w))\<rparr>))
      else Inr (- 1, w))"

definition worker_is_full :: "('n, 'h, 'l, 'o) worker \<Rightarrow> bool" where
  "worker_is_full w = is_full (wk_socket_queue w)"

text \<open>The work of one round of \<open>handle_new_connections\<close> on a session that was initialised.\<close>

definition admit_connection ::
    "('n, 'h, 'l, 'o) platform \<Rightarrow> int \<Rightarrow> ('n, 'h, 'l) session_data \<Rightarrow> ('n, 'h, 'l, 'o) worker
      \<Rightarrow> (('n, 'h, 'l) session_data \<times> ('n, 'h, 'l, 'o) worker) outcome" where
  "admit_connection pf sock sd w =
     obind (if wk_use_tls w then handle_tls_accept pf sock sd w else Inr (True, sd, w)) (\<lambda>(go, sd1, w1).
       if \<not> go then Inr (sd1, w1)
       else obind (establish_connection (pf_ng pf) sd1) (\<lambda>(st, sd2).
              if st = DISCONNECTING then Inr (disconnect_from_client pf sock sd2 w1)
              else update_events pf sock (sd2\<lparr>sd_state := st\<rparr>) w1))"

text \<open>
  One accepted socket. If \<open>emplace\<close> finds an entry for the descriptor, the map keeps the old object
  and the new session lives only as long as this round.
\<close>

definition new_connection ::
    "('n, 'h, 'l, 'o) platform \<Rightarrow> int \<Rightarrow> ('n, 'h, 'l, 'o) worker \<Rightarrow> ('n, 'h, 'l, 'o) worker outcome" where
  "new_connection pf sock w =
     (let (rv, sd0) = init_session_data (pf_ng pf) new_session_data in
      if rv \<noteq> 0 then Inr (w\<lparr>wk_os := sys_close (pf_sys pf) (wk_os w) sock\<rparr>)
      else let sd = sd0\<lparr>sd_router := wk_router w\<rparr>;
               fresh = (wk_session_map w sock = None);
               w1 = (if fresh then w\<lparr>wk_session_map := (wk_session_map w)(sock \<mapsto> sd)\<rparr> else w)
           in obind (admit_connection pf sock sd w1) (\<lambda>(sd', w').
                Inr (if fresh then release_session pf sock sd' w'
                     else w'\<lparr>wk_fs := destroy_session (pf_host pf) sd' (wk_fs w')\<rparr>)))"

partial_function (option) handle_new_connections ::
    "('n, 'h, 'l, 'o) platform \<Rightarrow> ('n, 'h, 'l, 'o) worker \<Rightarrow> ('n, 'h, 'l, 'o) worker run" where
  "handle_new_connections pf w =
     (case dequeue_sock w of
        Inl e \<Rightarrow> Some (Inl e)
      | Inr (sock, w1) \<Rightarrow>
          if sock < 0 then Some (Inr w1)
          else (case new_connection pf sock w1 of
                  Inl e \<Rightarrow> Some (Inl e)
                | Inr w2 \<Rightarrow> handle_new_connections pf w2))"

end
