(* ===== verification/Worker_IO.thy ===== *)
theory Worker_IO
  imports Worker
begin

text \<open>
  The data path of the worker (\<open>worker.cc\<close>): filling the input buffer from the socket, feeding it to
  nghttp2, collecting and flushing the output, the event handlers, the event loop and the
  acceptor's side of the hand-over. What the loops guarantee is shown in \<open>Worker_Facts\<close> and the
  theories that build on it.
\<close>

section \<open>Input\<close>

partial_function (option) fill_input_buffer_h2c ::
    "('l, 'o) sys \<Rightarrow> int \<Rightarrow> ('n, 'h, 'l) session_data \<Rightarrow> 'o
      \<Rightarrow> (io_result \<times> ('n, 'h, 'l) session_data \<times> 'o) option" where
  "fill_input_buffer_h2c sy sock sd os =
     (case sys_read sy os sock BUF_SIZE of
        (ReadBytes data, os1) \<Rightarrow>
          if data = [] then Some (SHUTDOWN, sd, os1)
          else fill_input_buffer_h2c sy sock (append_to_input_buffer data sd) os1
      | (ReadError e, os1) \<Rightarrow>
          if e = EINTR then fill_input_buffer_h2c sy sock sd os1
          else if e = EAGAIN then Some (AGAIN, sd, os1)
          else Some (SHUTDOWN, sd, os1))"

partial_function (option) fill_input_buffer_tls ::
    "('l, 'o) sys \<Rightarrow> 'l \<Rightarrow> ('n, 'h, 'l) session_data \<Rightarrow> 'o
      \<Rightarrow> (io_result \<times> ('n, 'h, 'l) session_data \<times> 'o) option" where
  "fill_input_buffer_tls sy s sd os =
     (case ssl_read sy os s BUF_SIZE of
        (SslRead data, os1) \<Rightarrow> fill_input_buffer_tls sy s (append_to_input_buffer data sd) os1
      | (SslReadError err, os1) \<Rightarrow>
          (case err of
             SSL_ERROR_WANT_READ \<Rightarrow> Some (AGAIN, sd, os1)
           | SSL_ERROR_WANT_WRITE \<Rightarrow> Some (AGAIN, sd, os1)
           | SSL_ERROR_SYSCALL e \<Rightarrow>
               if e = EAGAIN then Some (AGAIN, sd, os1)
               else if e = EINTR then fill_input_buffer_tls sy s sd os1
               else Some (SHUTDOWN, sd, os1)
           | SSL_ERROR_ZERO_RETURN \<Rightarrow> Some (SHUTDOWN, sd, os1)
           | SSL_ERROR_OTHER \<Rightarrow> Some (SHUTDOWN, sd, os1)))"

definition fill_input_buffer ::
    "('n, 'h, 'l, 'o) platform \<Rightarrow> int \<Rightarrow> ('n, 'h, 'l) session_data \<Rightarrow> ('n, 'h, 'l, 'o) worker
      \<Rightarrow> (io_result \<times> ('n, 'h, 'l) session_data \<times> ('n, 'h, 'l, 'o) worker) run" where
  "fill_input_buffer pf sock sd w =
     rbind (Some (bound_mode w)) (\<lambda>tls.
       if tls then
         rbind (Some (deref_ssl sd)) (\<lambda>s.
           map_option (\<lambda>(r, sd', os'). Inr (r, sd', w\<lparr>wk_os := os'\<rparr>))
             (fill_input_buffer_tls (pf_sys pf) s sd (wk_os w)))
       else map_option (\<lambda>(r, sd', os'). Inr (r, sd', w\<lparr>wk_os := os'\<rparr>))
              (fill_input_buffer_h2c (pf_sys pf) sock sd (wk_os w)))"

text \<open>
  \<open>feed_input_buffer\<close> on the session together with the cache and the files that the callbacks can
  change.
\<close>

partial_function (option) feed_input_buffer ::
    "('n, 'h, 'l, 'o) platform \<Rightarrow> ('n, 'h, 'l) req_context
      \<Rightarrow> (io_result \<times> ('n, 'h, 'l) req_context) run" where
  "feed_input_buffer pf cx =
     (if sd_input_buffer (cx_session cx) = [] then Some (Inr (SUCCESS, cx))
      else case sd_session (cx_session cx) of
             None \<Rightarrow> Some (Inl NullDeref)
           | Some n \<Rightarrow>
               (case run_lib (run_callback (pf_host pf) (pf_ng pf) (pf_call pf))
                       (ng_mem_recv (pf_ng pf) n (sd_input_buffer (cx_session cx))) cx of
                  Inl e \<Rightarrow> Some (Inl e)
                | Inr (fed_len, cx1) \<Rightarrow>
                    if fed_len < 0 then Some (Inr (SHUTDOWN, cx1))
                    else (case consume_input_buffer (nat fed_len) (cx_session cx1) of
                            Inl e \<Rightarrow> Some (Inl e)
                          | Inr sd \<Rightarrow> feed_input_buffer pf (cx1\<lparr>cx_session := sd\<rparr>))))"

section \<open>Output\<close>

text \<open>
  The length that \<open>nghttp2_session_mem_send2\<close> returns is stored in a \<open>size_t\<close>: an error, which is
  negative, becomes a huge length and the append reads past the data.
\<close>

partial_function (option) fill_output_buffer ::
    "('n, 'h, 'l, 'o) platform \<Rightarrow> ('n, 'h, 'l) req_context \<Rightarrow> ('n, 'h, 'l) req_context run" where
  "fill_output_buffer pf cx =
     (case sd_session (cx_session cx) of
        None \<Rightarrow> Some (Inl NullDeref)
      | Some n \<Rightarrow>
          if \<not> ng_want_write (pf_ng pf) n then Some (Inr cx)
          else (case run_lib (run_send_callback (pf_host pf) (pf_ng pf)) (ng_mem_send (pf_ng pf) n) cx of
                  Inl e \<Rightarrow> Some (Inl e)
                | Inr ((len, data), cx1) \<Rightarrow>
                    if len = 0 then Some (Inr cx1)
                    else if len < 0 \<or> length data < nat len then Some (Inl OutOfBounds)
                    else fill_output_buffer pf
                           (cx1\<lparr>cx_session := append_to_output_buffer (take (nat len) data) (cx_session cx1)\<rparr>)))"

partial_function (option) flush_output_buffer_h2c ::
    "('l, 'o) sys \<Rightarrow> int \<Rightarrow> ('n, 'h, 'l) session_data \<Rightarrow> 'o
      \<Rightarrow> (io_result \<times> ('n, 'h, 'l) session_data \<times> 'o) run" where
  "flush_output_buffer_h2c sy sock sd os =
     (if sd_output_buffer sd = [] then Some (Inr (SUCCESS, sd, os))
      else case sys_write sy os sock (sd_output_buffer sd) of
             (WriteError e, os1) \<Rightarrow>
               if e = EINTR then flush_output_buffer_h2c sy sock sd os1
               else if e = EAGAIN then Some (Inr (AGAIN, sd, os1))
               else Some (Inr (SHUTDOWN, sd, os1))
           | (Wrote n, os1) \<Rightarrow>
               (case consume_output_buffer n sd of
                  Inl e \<Rightarrow> Some (Inl e)
                | Inr sd1 \<Rightarrow> flush_output_buffer_h2c sy sock sd1 os1))"

partial_function (option) flush_output_buffer_tls ::
    "('l, 'o) sys \<Rightarrow> 'l \<Rightarrow> ('n, 'h, 'l) session_data \<Rightarrow> 'o
      \<Rightarrow> (io_result \<times> ('n, 'h, 'l) session_data \<times> 'o) run" where
  "flush_output_buffer_tls sy s sd os =
     (if sd_output_buffer sd = [] then Some (Inr (SUCCESS, sd, os))
      else case ssl_write sy os s (sd_output_buffer sd) of
             (SslWriteError err, os1) \<Rightarrow>
               (case err of
                  SSL_ERROR_WANT_READ \<Rightarrow> Some (Inr (AGAIN, sd, os1))
                | SSL_ERROR_WANT_WRITE \<Rightarrow> Some (Inr (AGAIN, sd, os1))
                | SSL_ERROR_SYSCALL e \<Rightarrow>
                    if e = EAGAIN then Some (Inr (AGAIN, sd, os1))
                    else if e = EINTR then flush_output_buffer_tls sy s sd os1
                    else Some (Inr (SHUTDOWN, sd, os1))
                | SSL_ERROR_ZERO_RETURN \<Rightarrow> Some (Inr (SHUTDOWN, sd, os1))
                | SSL_ERROR_OTHER \<Rightarrow> Some (Inr (SHUTDOWN, sd, os1)))
           | (SslWrote n, os1) \<Rightarrow>
               (case consume_output_buffer n sd of
                  Inl e \<Rightarrow> Some (Inl e)
                | Inr sd1 \<Rightarrow> flush_output_buffer_tls sy s sd1 os1))"

definition flush_output_buffer ::
    "('n, 'h, 'l, 'o) platform \<Rightarrow> int \<Rightarrow> ('n, 'h, 'l) session_data \<Rightarrow> ('n, 'h, 'l, 'o) worker
      \<Rightarrow> (io_result \<times> ('n, 'h, 'l) session_data \<times> ('n, 'h, 'l, 'o) worker) run" where
  "flush_output_buffer pf sock sd w =
     rbind (Some (bound_mode w)) (\<lambda>tls.
       if tls then
         rbind (Some (deref_ssl sd)) (\<lambda>s.
           map_option (\<lambda>res. obind res (\<lambda>(r, sd', os'). Inr (r, sd', w\<lparr>wk_os := os'\<rparr>)))
             (flush_output_buffer_tls (pf_sys pf) s sd (wk_os w)))
       else map_option (\<lambda>res. obind res (\<lambda>(r, sd', os'). Inr (r, sd', w\<lparr>wk_os := os'\<rparr>)))
              (flush_output_buffer_h2c (pf_sys pf) sock sd (wk_os w)))"

section \<open>Events\<close>

definition worker_context ::
    "('n, 'h, 'l) session_data \<Rightarrow> ('n, 'h, 'l, 'o) worker \<Rightarrow> ('n, 'h, 'l) req_context" where
  "worker_context sd w = \<lparr>cx_session = sd, cx_cache = wk_cache w, cx_fs = wk_fs w\<rparr>"

text \<open>What \<open>handle_read\<close> and \<open>handle_write\<close> do at their end.\<close>

definition finish_io ::
    "('n, 'h, 'l, 'o) platform \<Rightarrow> int \<Rightarrow> io_result \<Rightarrow> ('n, 'h, 'l) session_data \<Rightarrow> ('n, 'h, 'l, 'o) worker
      \<Rightarrow> (io_result \<times> ('n, 'h, 'l) session_data \<times> ('n, 'h, 'l, 'o) worker) run" where
  "finish_io pf sock result sd w =
     Some (obind (update_events pf sock sd w) (\<lambda>(sd', w').
       obind (should_close_after_disconnect (pf_ng pf) sd') (\<lambda>c.
         Inr (if c then SHUTDOWN else result, sd', w'))))"

definition handle_read ::
    "('n, 'h, 'l, 'o) platform \<Rightarrow> int \<Rightarrow> ('n, 'h, 'l) session_data \<Rightarrow> ('n, 'h, 'l, 'o) worker
      \<Rightarrow> (io_result \<times> ('n, 'h, 'l) session_data \<times> ('n, 'h, 'l, 'o) worker) run" where
  "handle_read pf sock sd w =
     rbind (fill_input_buffer pf sock sd w) (\<lambda>(input_result, sd1, w1).
       if input_result = SHUTDOWN then Some (Inr (SHUTDOWN, sd1, w1))
       else rbind (feed_input_buffer pf (worker_context sd1 w1)) (\<lambda>(feed_result, cx).
              let sd2 = cx_session cx; w2 = w1\<lparr>wk_cache := cx_cache cx, wk_fs := cx_fs cx\<rparr> in
              if feed_result = SHUTDOWN then Some (Inr (SHUTDOWN, sd2, w2))
              else finish_io pf sock SUCCESS sd2 w2))"

definition handle_write ::
    "('n, 'h, 'l, 'o) platform \<Rightarrow> int \<Rightarrow> ('n, 'h, 'l) session_data \<Rightarrow> ('n, 'h, 'l, 'o) worker
      \<Rightarrow> (io_result \<times> ('n, 'h, 'l) session_data \<times> ('n, 'h, 'l, 'o) worker) run" where
  "handle_write pf sock sd w =
     rbind (fill_output_buffer pf (worker_context sd w)) (\<lambda>cx.
       let sd1 = cx_session cx; w1 = w\<lparr>wk_cache := cx_cache cx, wk_fs := cx_fs cx\<rparr> in
       rbind (flush_output_buffer pf sock sd1 w1) (\<lambda>(result, sd2, w2).
         if result = SHUTDOWN then Some (Inr (SHUTDOWN, sd2, w2))
         else finish_io pf sock result sd2 w2))"

definition handle_events ::
    "('n, 'h, 'l, 'o) platform \<Rightarrow> u32 \<Rightarrow> int \<Rightarrow> ('n, 'h, 'l) session_data \<Rightarrow> ('n, 'h, 'l, 'o) worker
      \<Rightarrow> (('n, 'h, 'l) session_data \<times> ('n, 'h, 'l, 'o) worker) run" where
  "handle_events pf ev sock sd w =
     (let has_close_event = check_close_event ev in
      rbind (if ev AND EPOLLIN \<noteq> 0 \<or> has_close_event then handle_read pf sock sd w
             else Some (Inr (SUCCESS, sd, w))) (\<lambda>(r1, sd1, w1).
        rbind (if r1 = SUCCESS then
                 (case sd_session sd1 of
                    None \<Rightarrow> Some (Inl NullDeref)
                  | Some n \<Rightarrow>
                      if ev AND EPOLLOUT \<noteq> 0 \<or> sd_output_buffer sd1 \<noteq> [] \<or> ng_want_write (pf_ng pf) n
                      then handle_write pf sock sd1 w1 else Some (Inr (r1, sd1, w1)))
               else Some (Inr (r1, sd1, w1))) (\<lambda>(r2, sd2, w2).
          Some (Inr (if r2 = SHUTDOWN \<or> has_close_event then disconnect_from_client pf sock sd2 w2
                     else (sd2, w2))))))"

section \<open>The event loop\<close>

definition startup ::
    "('n, 'h, 'l, 'o) platform \<Rightarrow> ('n, 'h, 'l, 'o) worker \<Rightarrow> bool \<times> ('n, 'h, 'l, 'o) worker" where
  "startup pf w =
     (let sy = pf_sys pf; (epfd, os1) = sys_epoll_create sy (wk_os w);
          w1 = w\<lparr>wk_epfd := epfd, wk_os := os1\<rparr> in
      if epfd < 0 then (False, w1)
      else let (sfd, os2) = sys_eventfd sy os1; w2 = w1\<lparr>wk_signal_fd := sfd, wk_os := os2\<rparr> in
           if sfd < 0 then (False, w2)
           else (True, w2\<lparr>wk_os := snd (sys_epoll_ctl sy os2 epfd EPOLL_CTL_ADD sfd EPOLLIN)\<rparr>))"

text \<open>\<open>while (read(signal_fd, ...) == 8);\<close>\<close>

partial_function (option) flush_signal :: "('l, 'o) sys \<Rightarrow> int \<Rightarrow> 'o \<Rightarrow> 'o option" where
  "flush_signal sy fd os =
     (case sys_read sy os fd 8 of
        (ReadBytes data, os1) \<Rightarrow> if length data = 8 then flush_signal sy fd os1 else Some os1
      | (ReadError e, os1) \<Rightarrow> Some os1)"

text \<open>
  One round of the loop on the signal, up to the store that clears the flag; and the decision that
  follows it, on whatever the acceptor has made of the queue and the flag in between: whether to go
  round again.
\<close>

definition signal_round ::
    "('n, 'h, 'l, 'o) platform \<Rightarrow> ('n, 'h, 'l, 'o) worker \<Rightarrow> ('n, 'h, 'l, 'o) worker run" where
  "signal_round pf w =
     (case flush_signal (pf_sys pf) (wk_signal_fd w) (wk_os w) of
        None \<Rightarrow> None
      | Some os1 \<Rightarrow>
          rbind (handle_new_connections pf (w\<lparr>wk_os := os1\<rparr>)) (\<lambda>w1. Some (Inr (w1\<lparr>wk_pending_notify := False\<rparr>))))"

definition signal_again :: "('n, 'h, 'l, 'o) worker \<Rightarrow> bool \<times> ('n, 'h, 'l, 'o) worker" where
  "signal_again w =
     (if is_empty (wk_socket_queue w) then (False, w)
      else if wk_pending_notify w then (False, w)
      else (True, w\<lparr>wk_pending_notify := True\<rparr>))"

partial_function (option) handle_signal ::
    "('n, 'h, 'l, 'o) platform \<Rightarrow> ('n, 'h, 'l, 'o) worker \<Rightarrow> ('n, 'h, 'l, 'o) worker run" where
  "handle_signal pf w =
     (case signal_round pf w of
        None \<Rightarrow> None
      | Some (Inl e) \<Rightarrow> Some (Inl e)
      | Some (Inr w1) \<Rightarrow>
          if fst (signal_again w1) then handle_signal pf (snd (signal_again w1))
          else Some (Inr (snd (signal_again w1))))"

definition handle_client_event ::
    "('n, 'h, 'l, 'o) platform \<Rightarrow> u32 \<Rightarrow> int \<Rightarrow> ('n, 'h, 'l, 'o) worker \<Rightarrow> ('n, 'h, 'l, 'o) worker run" where
  "handle_client_event pf ev sock w =
     (case wk_session_map w sock of
        None \<Rightarrow> Some (Inr w)
      | Some sd \<Rightarrow>
          rbind (if sd_state sd = TLS_HANDSHAKING then Some (handle_tls_handshake pf sock sd w)
                 else handle_events pf ev sock sd w) (\<lambda>(sd', w').
            Some (Inr (release_session pf sock sd' w'))))"

fun handle_event_list ::
    "('n, 'h, 'l, 'o) platform \<Rightarrow> (u32 \<times> int) list \<Rightarrow> ('n, 'h, 'l, 'o) worker \<Rightarrow> ('n, 'h, 'l, 'o) worker run" where
  "handle_event_list pf [] w = Some (Inr w)"
| "handle_event_list pf ((ev, fd) # evs) w =
     rbind (if fd = wk_signal_fd w then handle_signal pf w else handle_client_event pf ev fd w)
       (handle_event_list pf evs)"

partial_function (option) event_loop ::
    "('n, 'h, 'l, 'o) platform \<Rightarrow> ('n, 'h, 'l, 'o) worker \<Rightarrow> ('n, 'h, 'l, 'o) worker run" where
  "event_loop pf w =
     (case sys_epoll_wait (pf_sys pf) (wk_os w) (wk_epfd w) of
        (Inl e, os1) \<Rightarrow>
          if e = EINTR then event_loop pf (w\<lparr>wk_os := os1\<rparr>) else Some (Inr (w\<lparr>wk_os := os1\<rparr>))
      | (Inr evs, os1) \<Rightarrow>
          (case handle_event_list pf evs (w\<lparr>wk_os := os1\<rparr>) of
             None \<Rightarrow> None
           | Some (Inl e) \<Rightarrow> Some (Inl e)
           | Some (Inr w1) \<Rightarrow> event_loop pf w1))"

definition worker_run ::
    "('n, 'h, 'l, 'o) platform \<Rightarrow> string \<Rightarrow> string \<Rightarrow> ('n, 'h, 'l, 'o) worker \<Rightarrow> ('n, 'h, 'l, 'o) worker run" where
  "worker_run pf key_path cert_path w =
     (let (ok, w1) = startup pf w in
      if \<not> ok then Some (Inr w1)
      else event_loop pf
             (if wk_use_tls w1 then w1\<lparr>wk_ssl_ctx := fst (create_ssl_ctx (pf_ssl pf) key_path cert_path)\<rparr> else w1))"

text \<open>
  \<open>enqueue_sock\<close>, called by the acceptor thread: whether the queue took the socket, and the worker.
  An interrupted write to the eventfd is repeated, any other error is only reported.
\<close>

partial_function (option) write_signal :: "('l, 'o) sys \<Rightarrow> int \<Rightarrow> 'o \<Rightarrow> 'o option" where
  "write_signal sy fd os =
     (case sys_write sy os fd (CHR 0x01 # replicate 7 (CHR 0x00)) of
        (Wrote n, os1) \<Rightarrow> Some os1
      | (WriteError e, os1) \<Rightarrow> if e = EINTR then write_signal sy fd os1 else Some os1)"

definition enqueue_sock ::
    "('n, 'h, 'l, 'o) platform \<Rightarrow> int \<Rightarrow> ('n, 'h, 'l, 'o) worker \<Rightarrow> (bool \<times> ('n, 'h, 'l, 'o) worker) run" where
  "enqueue_sock pf sock w =
     rbind (Some (push (wk_socket_queue w) sock)) (\<lambda>(ok, q).
       if \<not> ok then Some (Inr (False, w\<lparr>wk_socket_queue := q\<rparr>))
       else let w1 = w\<lparr>wk_socket_queue := q\<rparr> in
            if wk_pending_notify w1 then Some (Inr (True, w1))
            else (case write_signal (pf_sys pf) (wk_signal_fd w1) (wk_os w1) of
                    None \<Rightarrow> None
                  | Some os' \<Rightarrow> Some (Inr (True, w1\<lparr>wk_pending_notify := True, wk_os := os'\<rparr>))))"

end
