(* ===== verification/Worker_Facts.thy ===== *)
theory Worker_Facts
  imports Worker_IO
begin

text \<open>
  Correctness of the worker: the loops of the data path end and move every byte exactly once, a
  TLS connection is served only after h2 was negotiated, and the error paths end where they end.
\<close>

section \<open>Reading\<close>

text \<open>The results of successive reads of a socket, from one system state to another.\<close>

fun read_trace :: "('l, 'o) sys \<Rightarrow> int \<Rightarrow> 'o \<Rightarrow> io_read list \<Rightarrow> 'o \<Rightarrow> bool" where
  "read_trace sy sock os [] os' \<longleftrightarrow> os = os'"
| "read_trace sy sock os (r # rs) os' \<longleftrightarrow>
     (\<exists>os1. sys_read sy os sock BUF_SIZE = (r, os1) \<and> read_trace sy sock os1 rs os')"

fun read_goes_on :: "io_read \<Rightarrow> bool" where
  "read_goes_on (ReadBytes data) \<longleftrightarrow> data \<noteq> []"
| "read_goes_on (ReadError e) \<longleftrightarrow> e = EINTR"

fun read_bytes :: "io_read \<Rightarrow> string" where
  "read_bytes (ReadBytes data) = data"
| "read_bytes (ReadError e) = []"

definition read_result :: "io_read \<Rightarrow> io_result" where
  "read_result r = (if r = ReadError EAGAIN then AGAIN else SHUTDOWN)"

lemma append_input_simps [simp]:
  "sd_input_buffer (append_to_input_buffer d sd) = sd_input_buffer sd @ d"
  "append_to_input_buffer d (append_to_input_buffer c sd) = append_to_input_buffer (c @ d) sd"
  "append_to_input_buffer [] sd = sd"
  by (simp_all add: append_to_input_buffer_def)

lemma fill_input_trace:
  fixes sd :: "('n, 'h, 'l) session_data"
  assumes "read_trace sy sock os (rs @ [r]) os'" "\<forall>x \<in> set rs. read_goes_on x" "\<not> read_goes_on r"
  shows "fill_input_buffer_h2c sy sock sd os =
    Some (read_result r, append_to_input_buffer (concat (map read_bytes rs)) sd, os')"
  using assms(1,2)
proof (induction rs arbitrary: os sd)
  case Nil
  then show ?case using assms(3)
    by (cases r) (auto simp: fill_input_buffer_h2c.simps read_result_def split: if_splits)
next
  case (Cons x rs)
  then obtain os1 where x: "sys_read sy os sock BUF_SIZE = (x, os1)"
    and rest: "read_trace sy sock os1 (rs @ [r]) os'" by auto
  have ih: "fill_input_buffer_h2c sy sock sd1 os1 =
      Some (read_result r, append_to_input_buffer (concat (map read_bytes rs)) sd1, os')" for sd1 :: "('n, 'h, 'l) session_data"
    using Cons.IH [OF rest] Cons.prems(2) by simp
  show ?case
  proof (cases x)
    case (ReadBytes data)
    with Cons.prems(2) have "data \<noteq> []" by simp
    with x ReadBytes ih show ?thesis by (subst fill_input_buffer_h2c.simps) simp
  next
    case (ReadError e)
    with Cons.prems(2) have "e = EINTR" by simp
    with x ReadError ih show ?thesis by (subst fill_input_buffer_h2c.simps) simp
  qed
qed

section \<open>Writing\<close>

text \<open>
  What is documented of a stream socket: a write takes a prefix of the data, an error takes nothing,
  and the kernel does not interrupt writes, or accept zero bytes, for ever. \<open>sent\<close> is what the peer
  will receive, \<open>patience\<close> bounds the number of fruitless calls in a row.
\<close>

definition write_contract :: "('o \<Rightarrow> string \<Rightarrow> io_write \<times> 'o) \<Rightarrow> ('o \<Rightarrow> string) \<Rightarrow> ('o \<Rightarrow> nat) \<Rightarrow> bool" where
  "write_contract wr sent patience \<longleftrightarrow>
     (\<forall>os buf. buf \<noteq> [] \<longrightarrow>
        (case wr os buf of
           (Wrote n, os') \<Rightarrow>
             n \<le> length buf \<and> sent os' = sent os @ take n buf \<and> (n = 0 \<longrightarrow> patience os' < patience os)
         | (WriteError e, os') \<Rightarrow> sent os' = sent os \<and> (e = EINTR \<longrightarrow> patience os' < patience os)))"

text \<open>The part of it that makes the loop end.\<close>

definition write_progress :: "('o \<Rightarrow> string \<Rightarrow> io_write \<times> 'o) \<Rightarrow> ('o \<Rightarrow> nat) \<Rightarrow> bool" where
  "write_progress wr patience \<longleftrightarrow>
     (\<forall>os buf. buf \<noteq> [] \<longrightarrow>
        (case wr os buf of
           (Wrote n, os') \<Rightarrow> n \<le> length buf \<and> (n = 0 \<longrightarrow> patience os' < patience os)
         | (WriteError e, os') \<Rightarrow> e = EINTR \<longrightarrow> patience os' < patience os))"

lemma write_progressD:
  assumes "write_progress wr patience" "buf \<noteq> []"
  shows "wr os buf = (Wrote n, os') \<Longrightarrow> n \<le> length buf \<and> (n = 0 \<longrightarrow> patience os' < patience os)"
    and "wr os buf = (WriteError EINTR, os') \<Longrightarrow> patience os' < patience os"
  using assms unfolding write_progress_def by (metis (mono_tags, lifting) case_prod_conv io_write.simps)+

lemma write_contractD:
  assumes "write_contract wr sent patience" "buf \<noteq> []"
  shows "wr os buf = (Wrote n, os') \<Longrightarrow> n \<le> length buf \<and> sent os' = sent os @ take n buf"
    and "wr os buf = (WriteError e, os') \<Longrightarrow> sent os' = sent os"
  using assms unfolding write_contract_def by (metis (mono_tags, lifting) case_prod_conv io_write.simps)+

lemma write_contract_progress: "write_contract wr sent patience \<Longrightarrow> write_progress wr patience"
  unfolding write_contract_def write_progress_def by (simp add: case_prod_beta split: io_write.splits) (metis less_irrefl)

lemma flush_h2c_ends:
  assumes "write_progress (\<lambda>os buf. sys_write sy os sock buf) patience"
  shows "\<exists>r kept os'. flush_output_buffer_h2c sy sock sd os = Some (Inr (r, sd\<lparr>sd_output_buffer := kept\<rparr>, os'))"
proof (induction "(length (sd_output_buffer sd), patience os)" arbitrary: sd os
    rule: wf_induct_rule [OF wf_lex_prod [OF wf_less_than wf_less_than]])
  case 1
  let ?buf = "sd_output_buffer sd"
  note eq = flush_output_buffer_h2c.simps [of sy sock sd os]
  show ?case
  proof (cases "?buf = []")
    case True
    then have "flush_output_buffer_h2c sy sock sd os = Some (Inr (SUCCESS, sd\<lparr>sd_output_buffer := ?buf\<rparr>, os))"
      by (simp add: eq)
    then show ?thesis by blast
  next
    case False
    obtain r os1 where wr: "sys_write sy os sock ?buf = (r, os1)" by fastforce
    show ?thesis
    proof (cases r)
      case (Wrote n)
      with write_progressD(1) [OF assms False] wr have n: "n \<le> length ?buf" "n = 0 \<longrightarrow> patience os1 < patience os"
        by auto
      have "\<exists>r kept os'. flush_output_buffer_h2c sy sock (sd\<lparr>sd_output_buffer := drop n ?buf\<rparr>) os1 =
          Some (Inr (r, sd\<lparr>sd_output_buffer := drop n ?buf, sd_output_buffer := kept\<rparr>, os'))"
        by (rule 1) (use n False in auto)
      with False wr Wrote n(1) show ?thesis by (simp add: eq consume_output_buffer_def)
    next
      case (WriteError e)
      show ?thesis
      proof (cases "e = EINTR")
        case True
        with write_progressD(2) [OF assms False] wr WriteError 1 [of sd os1] False show ?thesis
          by (simp add: eq)
      next
        case noint: False
        with False wr WriteError have "flush_output_buffer_h2c sy sock sd os =
            Some (Inr (if e = EAGAIN then AGAIN else SHUTDOWN, sd\<lparr>sd_output_buffer := ?buf\<rparr>, os1))"
          by (simp add: eq)
        then show ?thesis by blast
      qed
    qed
  qed
qed

text \<open>Induction on the rounds that a loop has run when it returns.\<close>

lemmas flush_h2c_induct = flush_output_buffer_h2c.raw_induct [rotated, consumes 1, case_names step]

lemma flush_h2c_sends:
  "flush_output_buffer_h2c sy sock sd os = Some res \<Longrightarrow>
   write_contract (\<lambda>os buf. sys_write sy os sock buf) sent patience \<longrightarrow>
   (\<forall>r sd' os'. res = Inr (r, sd', os') \<longrightarrow>
      sent os' @ sd_output_buffer sd' = sent os @ sd_output_buffer sd \<and> (r = SUCCESS \<longleftrightarrow> sd_output_buffer sd' = []))"
proof (induction rule: flush_h2c_induct)
  case (step f sy sock sd os res)
  show ?case
  proof (intro impI)
    assume c: "write_contract (\<lambda>os buf. sys_write sy os sock buf) sent patience"
    let ?buf = "sd_output_buffer sd"
    obtain r os1 where wr: "sys_write sy os sock ?buf = (r, os1)" by fastforce
    show "\<forall>r sd' os'. res = Inr (r, sd', os') \<longrightarrow>
      sent os' @ sd_output_buffer sd' = sent os @ ?buf \<and> (r = SUCCESS \<longleftrightarrow> sd_output_buffer sd' = [])"
    proof (cases "?buf = []")
      case True
      with step(2) show ?thesis by auto
    next
      case False
      show ?thesis
      proof (cases r)
        case (Wrote n)
        with write_contractD(1) [OF c False] wr have n: "n \<le> length ?buf" "sent os1 = sent os @ take n ?buf" by auto
        with step(2) False wr Wrote have "f sy sock (sd\<lparr>sd_output_buffer := drop n ?buf\<rparr>) os1 = Some res"
          by (simp add: consume_output_buffer_def)
        from step(1) [OF this] c n show ?thesis by simp
      next
        case (WriteError e)
        with write_contractD(2) [OF c False] wr have "sent os1 = sent os" by auto
        with step False wr WriteError c show ?thesis by (auto split: if_splits)
      qed
    qed
  qed
qed

text \<open>What a flush leaves: the bytes sent and the bytes kept are the bytes there were.\<close>

lemma flush_h2c_ok:
  assumes "write_contract (\<lambda>os buf. sys_write sy os sock buf) sent patience"
  shows "\<exists>r kept os'. flush_output_buffer_h2c sy sock sd os = Some (Inr (r, sd\<lparr>sd_output_buffer := kept\<rparr>, os'))
    \<and> sent os' @ kept = sent os @ sd_output_buffer sd \<and> (r = SUCCESS \<longleftrightarrow> kept = [])"
proof -
  from flush_h2c_ends [OF write_contract_progress [OF assms]] obtain r kept os' where
    f: "flush_output_buffer_h2c sy sock sd os = Some (Inr (r, sd\<lparr>sd_output_buffer := kept\<rparr>, os'))" by blast
  from flush_h2c_sends [OF f] assms f show ?thesis by auto
qed

section \<open>Feeding nghttp2\<close>

text \<open>
  The part of a session that the callbacks leave alone, except that a GOAWAY frame makes the
  session disconnect.
\<close>

definition io_part :: "('n, 'h, 'l) session_data
    \<Rightarrow> string \<times> string \<times> u32 \<times> 'l option \<times> bool \<times> 'h router_node option \<times> session_state" where
  "io_part sd = (sd_input_buffer sd, sd_output_buffer sd, sd_events sd, sd_ssl sd, sd_is_closed sd,
     sd_router sd, sd_state sd)"

definition leaves_io :: "('n, 'h, 'l) session_data \<Rightarrow> ('n, 'h, 'l) session_data \<Rightarrow> bool" where
  "leaves_io sd sd' \<longleftrightarrow> io_part sd' = io_part sd \<or> io_part sd' = io_part (sd\<lparr>sd_state := DISCONNECTING\<rparr>)"

lemma io_part_simps [simp]:
  "io_part (store_stream p st sd) = io_part sd"
  "io_part (sd\<lparr>sd_session := n\<rparr>) = io_part sd"
  "io_part (sd\<lparr>sd_streams := ss\<rparr>) = io_part sd"
  by (simp_all add: io_part_def store_stream_def)

lemma leaves_io_refl [simp]: "leaves_io sd sd"
  by (simp add: leaves_io_def)

lemma leaves_io_eq: "io_part sd' = io_part sd \<Longrightarrow> leaves_io sd sd'"
  by (simp add: leaves_io_def)

lemma leaves_io_cong: "io_part a = io_part b \<Longrightarrow> leaves_io a c \<longleftrightarrow> leaves_io b c"
  by (auto simp: leaves_io_def io_part_def)

lemma leaves_io_trans: "leaves_io a b \<Longrightarrow> leaves_io b c \<Longrightarrow> leaves_io a c"
  by (auto simp: leaves_io_def io_part_def)

lemma leaves_io_parts:
  assumes "leaves_io sd sd'"
  shows "sd_input_buffer sd' = sd_input_buffer sd" "sd_output_buffer sd' = sd_output_buffer sd"
    "sd_ssl sd' = sd_ssl sd" "sd_router sd' = sd_router sd" "sd_state sd' \<in> {sd_state sd, DISCONNECTING}"
  using assms by (auto simp: leaves_io_def io_part_def)

lemma submit_io: "submit ng p hdrs prd sd = Inr (rv, sd') \<Longrightarrow> io_part sd' = io_part sd"
  by (auto simp: submit_def obind_eq_Inr case_prod_beta Let_def)

lemma replies_io:
  "reply_ok ng p sd = Inr (rv, sd') \<Longrightarrow> io_part sd' = io_part sd"
  "reply_404 ng p sd = Inr (rv, sd') \<Longrightarrow> io_part sd' = io_part sd"
  "reply_ok_with_file ng p sd = Inr (rv, sd') \<Longrightarrow> io_part sd' = io_part sd"
  by (auto simp: reply_ok_def reply_404_def reply_ok_with_file_def error_reply_def send_response_def
      obind_eq_Inr dest!: submit_io)

lemma in_session_io:
  assumes "in_session f cx = Inr (rv, cx')"
    "\<And>rv sd'. f (cx_session cx) = Inr (rv, sd') \<Longrightarrow> io_part sd' = io_part (cx_session cx)"
  shows "io_part (cx_session cx') = io_part (cx_session cx)"
  using assms by (auto simp: in_session_def obind_eq_Inr)

lemma in_session_replies_io:
  "in_session (reply_ok ng p) cx = Inr (rv, cx') \<Longrightarrow> io_part (cx_session cx') = io_part (cx_session cx)"
  "in_session (reply_404 ng p) cx = Inr (rv, cx') \<Longrightarrow> io_part (cx_session cx') = io_part (cx_session cx)"
  "in_session (reply_ok_with_file ng p) cx = Inr (rv, cx') \<Longrightarrow> io_part (cx_session cx') = io_part (cx_session cx)"
  by (erule in_session_io, erule replies_io)+

lemma downloader_io:
  assumes "downloader ho ng p rel cx = Inr (rv, cx')"
  shows "io_part (cx_session cx') = io_part (cx_session cx)"
proof -
  obtain f cache where l: "load_file_from_filecache (ho_maps ho) (cx_fs cx) rel (cx_cache cx) = (f, cache)"
    by fastforce
  from assms show ?thesis
    by (cases f) (auto simp: downloader_def l obind_eq_Inr Let_def dest!: in_session_replies_io split: if_splits)
qed

lemma uploader_io:
  assumes "uploader ho ng p rel cx = Inr (rv, cx')"
  shows "io_part (cx_session cx') = io_part (cx_session cx)"
proof -
  from assms obtain st where st: "deref_stream p (cx_session cx) = Inr st"
    by (auto simp: uploader_def obind_eq_Inr)
  show ?thesis
  proof (cases "st_mime_parser st")
    case None
    with assms st show ?thesis by (auto simp: uploader_def dest!: in_session_replies_io)
  next
    case (Some mp)
    obtain c mp' fs' where w: "parser_write (ho_files ho) (ho_addr ho p) (ho_tid ho)
        (st_upload_file_buffer st) mp (cx_fs cx) = (c, mp', fs')" by (metis surj_pair)
    obtain f cache where l: "load_file_from_filecache (ho_maps ho) fs' (get_filename mp') (cx_cache cx) = (f, cache)"
      by fastforce
    from assms show ?thesis
      by (cases f) (auto simp: uploader_def st Some w l Let_def dest!: in_session_replies_io split: if_splits)
  qed
qed

lemma app_call_io:
  "app_call ho ng h p param cx = Inr (rv, cx') \<Longrightarrow> io_part (cx_session cx') = io_part (cx_session cx)"
  by (cases h) (auto dest: downloader_io uploader_io)

lemma clear_io: "clear_upload_file_buffer p sd = Inr sd' \<Longrightarrow> io_part sd' = io_part sd"
  by (auto simp: clear_upload_file_buffer_def obind_eq_Inr)

lemma on_request_recv_io:
  assumes "on_request_recv ng (app_call ho ng) p cx = Inr (rv, cx')"
  shows "io_part (cx_session cx') = io_part (cx_session cx)"
  using assms
  by (auto simp: on_request_recv_def obind_eq_Inr dest!: clear_io app_call_io replies_io
      split: option.splits)

lemma update_stream_io:
  "update_stream ng i f cx = Inr (rv, cx') \<Longrightarrow> io_part (cx_session cx') = io_part (cx_session cx)"
  by (auto simp: update_stream_def obind_eq_Inr case_prod_beta Let_def split: option.split_asm)

lemma frame_recv_io:
  "on_frame_recv_callback ng (app_call ho ng) frame cx = Inr (rv, cx') \<Longrightarrow>
   leaves_io (cx_session cx) (cx_session cx')"
  by (auto simp: on_frame_recv_callback_def Let_def obind_eq_Inr intro: leaves_io_eq [OF on_request_recv_io]
      split: if_splits option.splits) (simp_all add: leaves_io_def io_part_def)

lemma delete_stream_io [simp]: "io_part (cx_session (delete_stream_data ho p cx)) = io_part (cx_session cx)"
  by (simp add: delete_stream_data_def split: option.split)

lemma stream_close_io:
  "on_stream_close_callback ho ng i cx = Inr (rv, cx') \<Longrightarrow> io_part (cx_session cx') = io_part (cx_session cx)"
  by (auto simp: on_stream_close_callback_def obind_eq_Inr split: option.split_asm)

lemma begin_headers_io:
  "on_begin_headers_callback ng frame cx = Inr (rv, cx') \<Longrightarrow> io_part (cx_session cx') = io_part (cx_session cx)"
  by (auto simp: on_begin_headers_callback_def add_stream_data_to_session_def Let_def obind_eq_Inr
      split: if_splits)

lemma run_callback_io:
  "run_callback ho ng (app_call ho ng) q cx = Inr (rv, cx') \<Longrightarrow> leaves_io (cx_session cx) (cx_session cx')"
  by (cases q)
    (auto simp: run_callback_def on_header_callback_def on_data_chunk_recv_callback_def
      dest: frame_recv_io stream_close_io begin_headers_io update_stream_io intro: leaves_io_eq split: if_splits)

lemma run_send_callback_io:
  "run_send_callback ho ng q cx = Inr (rv, cx') \<Longrightarrow> leaves_io (cx_session cx) (cx_session cx')"
  by (cases q)
    (auto simp: run_send_callback_def data_read_callback_def obind_eq_Inr dest: stream_close_io
      intro!: leaves_io_eq split: data_read.splits data_provider.splits option.split)

text \<open>A library call all of whose possible results satisfy a predicate.\<close>

primrec all_returns :: "('a \<Rightarrow> 'n \<Rightarrow> bool) \<Rightarrow> ('q, 'r, 'n, 'a) lib_call \<Rightarrow> bool" where
  "all_returns P (LibReturn a n) \<longleftrightarrow> P a n"
| "all_returns P (LibCallback q n k) \<longleftrightarrow> (\<forall>r n'. all_returns P (k r n'))"

lemma run_lib_returns:
  "all_returns P lib \<Longrightarrow> run_lib cb lib cx = Inr (a, cx') \<Longrightarrow>
   \<exists>n. sd_session (cx_session cx') = Some n \<and> P a n"
proof (induction lib arbitrary: cx)
  case (LibCallback q n k)
  from LibCallback.prems(2) obtain r n' cx1 where "run_lib cb (k r n') cx1 = Inr (a, cx')"
    by (auto simp: obind_eq_Inr)
  with LibCallback.IH [OF rangeI rangeI, of r n' cx1] LibCallback.prems(1) show ?case by simp
qed auto

lemma run_lib_leaves:
  assumes "\<And>q cx r cx'. cb q cx = Inr (r, cx') \<Longrightarrow> leaves_io (cx_session cx) (cx_session cx')"
    and "run_lib cb lib cx = Inr (a, cx')"
  shows "leaves_io (cx_session cx) (cx_session cx')"
  using assms(2)
proof (induction lib arbitrary: cx)
  case (LibCallback q n k)
  from LibCallback.prems obtain r cx1 n' where
    cb: "cb q (cx\<lparr>cx_session := (cx_session cx)\<lparr>sd_session := Some n\<rparr>\<rparr>) = Inr (r, cx1)"
    and rest: "run_lib cb (k r n') cx1 = Inr (a, cx')" by (auto simp: obind_eq_Inr)
  from leaves_io_trans [OF assms(1) [OF cb] LibCallback.IH [OF rangeI rangeI rest]]
  show ?case by (simp add: leaves_io_cong [of "(cx_session cx)\<lparr>sd_session := Some n\<rparr>" "cx_session cx"])
qed (auto intro!: leaves_io_eq)

lemma run_recv_leaves:
  "run_lib (run_callback ho ng (app_call ho ng)) lib cx = Inr (a, cx') \<Longrightarrow>
   leaves_io (cx_session cx) (cx_session cx')"
  by (rule run_lib_leaves, rule run_callback_io)

lemma run_send_leaves:
  "run_lib (run_send_callback ho ng) lib cx = Inr (a, cx') \<Longrightarrow> leaves_io (cx_session cx) (cx_session cx')"
  by (rule run_lib_leaves, rule run_send_callback_io)

text \<open>
  What is documented of \<open>nghttp2_session_mem_recv2\<close>: it returns a negative error or the number of
  bytes it processed, at least one and not more than it was given.
\<close>

definition recv_contract :: "'n nghttp2 \<Rightarrow> bool" where
  "recv_contract ng \<longleftrightarrow>
     (\<forall>n buf. buf \<noteq> [] \<longrightarrow> all_returns (\<lambda>fed n. fed \<noteq> 0 \<and> fed \<le> int (length buf)) (ng_mem_recv ng n buf))"

lemma feed_returns:
  assumes "recv_contract (pf_ng pf)" "pf_call pf = app_call (pf_host pf) (pf_ng pf)"
  shows "\<exists>res. feed_input_buffer pf cx = Some res
    \<and> (\<forall>cx'. res = Inr (SUCCESS, cx') \<longrightarrow> sd_input_buffer (cx_session cx') = [])"
proof (induction "length (sd_input_buffer (cx_session cx))" arbitrary: cx rule: less_induct)
  case less
  let ?buf = "sd_input_buffer (cx_session cx)"
  show ?case
  proof (cases "?buf = [] \<or> sd_session (cx_session cx) = None")
    case True
    then show ?thesis by (auto simp: feed_input_buffer.simps [of pf cx])
  next
    case False
    then obtain n where n: "sd_session (cx_session cx) = Some n" by auto
    let ?run = "run_lib (run_callback (pf_host pf) (pf_ng pf) (pf_call pf)) (ng_mem_recv (pf_ng pf) n ?buf) cx"
    show ?thesis
    proof (cases ?run)
      case (Inl e)
      with False n show ?thesis by (simp add: feed_input_buffer.simps [of pf cx])
    next
      case (Inr b)
      obtain fed cx1 where b: "b = (fed, cx1)" by fastforce
      have "all_returns (\<lambda>fed n. fed \<noteq> 0 \<and> fed \<le> int (length ?buf)) (ng_mem_recv (pf_ng pf) n ?buf)"
        using assms(1) False by (simp add: recv_contract_def)
      from run_lib_returns [OF this] Inr b have fed: "fed \<noteq> 0" "fed \<le> int (length ?buf)" by auto
      have same: "sd_input_buffer (cx_session cx1) = ?buf"
        using Inr b assms(2) by (auto dest!: run_recv_leaves leaves_io_parts(1))
      show ?thesis
      proof (cases "fed < 0")
        case True
        with False n Inr b show ?thesis by (simp add: feed_input_buffer.simps [of pf cx])
      next
        case pos: False
        let ?cx = "cx1\<lparr>cx_session := (cx_session cx1)\<lparr>sd_input_buffer := drop (nat fed) ?buf\<rparr>\<rparr>"
        have "feed_input_buffer pf cx = feed_input_buffer pf ?cx"
          using False n Inr b pos fed same
          by (simp add: feed_input_buffer.simps [of pf cx] consume_input_buffer_def nat_le_iff)
        moreover have "length (sd_input_buffer (cx_session ?cx)) < length ?buf"
          using fed pos False by simp
        ultimately show ?thesis using less.hyps [of ?cx] by simp
      qed
    qed
  qed
qed

section \<open>Session states\<close>

lemma update_event_state: "sd_state (fst (update_event pf sock ev sd w)) = sd_state sd"
  by (simp add: update_event_def)

lemma update_events_state:
  "update_events pf sock sd w = Inr (sd', w') \<Longrightarrow> sd_state sd' = sd_state sd"
  by (auto simp: update_events_def update_events_tls_def update_events_h2c_def obind_eq_Inr
      split: if_splits) (metis fst_conv update_event_state)+

lemma handshake_events_state:
  "update_ssl_handshake_events pf sock sd w = Inr (sd', w') \<Longrightarrow> sd_state sd' = sd_state sd"
  by (auto simp: update_ssl_handshake_events_def obind_eq_Inr Let_def) (metis fst_conv update_event_state)+

lemma disconnect_state: "sd_state (fst (disconnect_from_client pf sock sd w)) = sd_state sd"
  by (simp add: disconnect_from_client_def close_session_def Let_def case_prod_beta split: option.split)

lemma validate_alpn_iff: "validate_alpn sy os s \<longleftrightarrow> ssl_alpn sy os s = Some [0x68, 0x32]"
proof -
  have "length name = 2 \<Longrightarrow> take 2 name = name" for name :: bytes by simp
  then show ?thesis
    by (auto simp: validate_alpn_def validate_alpn_name_def split: option.splits)
qed

definition negotiated_h2 :: "('n, 'h, 'l, 'o) platform \<Rightarrow> 'l \<Rightarrow> 'o \<Rightarrow> bool" where
  "negotiated_h2 pf s os \<longleftrightarrow>
     (\<exists>os'. ssl_accept (pf_sys pf) os s = (None, os') \<and> ssl_alpn (pf_sys pf) os' s = Some [0x68, 0x32])"

lemma handshake_result:
  assumes "do_tls_handshake pf sock sd w = Inr (st, sd1, w1)" "sd_ssl sd = Some s"
  shows "sd_state sd1 = sd_state sd \<and> (st \<noteq> DISCONNECTING \<longrightarrow> st \<noteq> TLS_HANDSHAKING \<longrightarrow> negotiated_h2 pf s (wk_os w))"
proof -
  obtain err os1 where a: "ssl_accept (pf_sys pf) (wk_os w) s = (err, os1)" by fastforce
  show ?thesis
  proof (cases err)
    case None
    with assms a show ?thesis
      by (auto simp: do_tls_handshake_def deref_ssl_def negotiated_h2_def validate_alpn_iff Let_def split: if_splits)
  next
    case (Some e)
    with assms a show ?thesis
      by (auto simp: do_tls_handshake_def deref_ssl_def obind_eq_Inr Let_def split: if_splits
          dest: handshake_events_state)
  qed
qed

lemma establish_state: "establish_connection ng sd = Inr (st, sd') \<Longrightarrow> sd_state sd' = sd_state sd"
  by (auto simp: establish_connection_def send_server_connection_header_def obind_eq_Inr Let_def case_prod_beta)

lemma handle_tls_handshake_h2:
  assumes "handle_tls_handshake pf sock sd w = Inr (sd', w')" "sd_state sd' \<noteq> sd_state sd" "sd_ssl sd = Some s"
  shows "negotiated_h2 pf s (wk_os w)"
proof -
  from assms(1) obtain st sd1 w1 where
    d: "do_tls_handshake pf sock sd w = Inr (st, sd1, w1)" by (auto simp: handle_tls_handshake_def obind_eq_Inr)
  note r = handshake_result [OF d assms(3)]
  show ?thesis
  proof (cases "st = DISCONNECTING \<or> st = TLS_HANDSHAKING")
    case True
    with assms(1) d have "sd_state sd' = sd_state sd1"
      using disconnect_state [of pf sock sd1 w1]
      by (auto simp: handle_tls_handshake_def should_disconnect_def)
    with r assms(2) show ?thesis by simp
  qed (use r in blast)
qed

section \<open>Properties\<close>

type_synonym demo_os_state = "io_read list \<times> string"

definition demo_sys :: "(unit, demo_os_state) sys" where
  "demo_sys = \<lparr>
     sys_read = (\<lambda>os fd n. case fst os of [] \<Rightarrow> (ReadError EAGAIN, os) | r # rs \<Rightarrow> (r, (rs, snd os))),
     sys_write = (\<lambda>os fd buf. (Wrote (min 3 (length buf)), (fst os, snd os @ take 3 buf))),
     sys_close = (\<lambda>os fd. os), sys_epoll_ctl = (\<lambda>os ep op fd ev. (None, os)),
     sys_epoll_create = (\<lambda>os. (3, os)), sys_eventfd = (\<lambda>os. (4, os)),
     sys_epoll_wait = (\<lambda>os ep. (Inl EOTHER, os)),
     ssl_new = (\<lambda>os ctx. (map_option (\<lambda>_. ()) ctx, os)), ssl_set_fd = (\<lambda>os s fd. os),
     ssl_accept = (\<lambda>os s. (None, os)), ssl_read = (\<lambda>os s n. (SslReadError SSL_ERROR_WANT_READ, os)),
     ssl_write = (\<lambda>os s buf. (SslWrote (length buf), os)), ssl_want_read = (\<lambda>os s. False),
     ssl_want_write = (\<lambda>os s. False), ssl_alpn = (\<lambda>os s. Some [0x68, 0x32]), ssl_shutdown = (\<lambda>os s. os)\<rparr>"

definition demo_ssl_lib :: "ssl_lib" where
  "demo_ssl_lib = \<lparr>lib_openssl3 = True, lib_ctx_new = True, lib_set_curves = True, lib_ec_key = True,
     lib_use_key = (\<lambda>_. False), lib_use_cert = (\<lambda>_. False)\<rparr>"

definition demo_pf :: "(demo_session, app_handler, unit, demo_os_state) platform" where
  "demo_pf = \<lparr>pf_host = demo_host, pf_ng = demo_ng, pf_call = app_call demo_host demo_ng,
     pf_sys = demo_sys, pf_ssl = demo_ssl_lib\<rparr>"

definition demo_worker :: "bool \<Rightarrow> io_read list \<Rightarrow> (demo_session, app_handler, unit, demo_os_state) worker" where
  "demo_worker tls rs = worker_new (Some app_routes) tls Map.empty (rs, [])"

definition demo_sd :: "(demo_session, app_handler, unit) session_data" where
  "demo_sd = new_session_data\<lparr>sd_session := Some (\<lambda>_. None, [])\<rparr>"

text \<open>
  C19: feeding the input to nghttp2 ends, whatever the callbacks and the handlers do with it, when
  nghttp2 consumes at least one byte per call or fails; a success leaves no byte unfed.
\<close>

theorem feeding_ends:
  assumes "recv_contract (pf_ng pf)" "pf_call pf = app_call (pf_host pf) (pf_ng pf)"
  shows "\<exists>res. feed_input_buffer pf cx = Some res
    \<and> (\<forall>cx'. res = Inr (SUCCESS, cx') \<longrightarrow> sd_input_buffer (cx_session cx') = [])"
  by (rule feed_returns [OF assms])

theorem feeding_ends_witness:
  "\<exists>res. feed_input_buffer demo_pf (worker_context (demo_sd\<lparr>sd_input_buffer := ''abc''\<rparr>) (demo_worker False [])) = Some res"
proof -
  have "recv_contract (pf_ng demo_pf)" by (simp add: recv_contract_def demo_pf_def demo_ng_def)
  from feeding_ends [OF this] show ?thesis by (auto simp: demo_pf_def)
qed

text \<open>
  C29: a TLS connection leaves the handshake state only when OpenSSL has completed the handshake
  and the negotiated protocol is h2.
\<close>

theorem handshake_requires_h2:
  assumes "handle_tls_handshake pf sock sd w = Inr (sd', w')" "sd_state sd = TLS_HANDSHAKING"
    and "sd_state sd' \<noteq> TLS_HANDSHAKING" "sd_ssl sd = Some s"
  shows "\<exists>os'. ssl_accept (pf_sys pf) (wk_os w) s = (None, os')
    \<and> ssl_alpn (pf_sys pf) os' s = Some [0x68, 0x32]"
  using handle_tls_handshake_h2 [OF assms(1) _ assms(4)] assms(2,3) by (simp add: negotiated_h2_def)

definition demo_tls_sd :: "(demo_session, app_handler, unit) session_data" where
  "demo_tls_sd = demo_sd\<lparr>sd_ssl := Some (), sd_state := TLS_HANDSHAKING\<rparr>"

theorem handshake_requires_h2_witness:
  "\<exists>sd' w'. handle_tls_handshake demo_pf 7 demo_tls_sd (demo_worker True []) = Inr (sd', w')
    \<and> sd_state sd' = ESTABLISHED
    \<and> (\<exists>os'. ssl_accept demo_sys (wk_os (demo_worker True [])) () = (None, os')
         \<and> ssl_alpn demo_sys os' () = Some [0x68, 0x32])"
proof -
  have "\<exists>sd' w'. handle_tls_handshake demo_pf 7 demo_tls_sd (demo_worker True []) = Inr (sd', w')
      \<and> sd_state sd' = ESTABLISHED"
    by (simp add: handle_tls_handshake_def do_tls_handshake_def deref_ssl_def demo_tls_sd_def demo_sd_def
        new_session_data_def demo_pf_def demo_sys_def validate_alpn_def validate_alpn_name_def
        should_disconnect_def establish_connection_def send_server_connection_header_def deref_session_def
        demo_ng_def update_events_def update_events_tls_def demo_worker_def worker_new_eq update_event_def Let_def)
  then obtain sd' w' where r: "handle_tls_handshake demo_pf 7 demo_tls_sd (demo_worker True []) = Inr (sd', w')"
    "sd_state sd' = ESTABLISHED" by blast
  from handshake_requires_h2 [OF r(1), of "()"] r show ?thesis
    by (auto simp: demo_tls_sd_def demo_pf_def)
qed

text \<open>
  The worker does not look at the result of \<open>SSL_new\<close>: when it is a null pointer, the new connection
  makes the worker use it. \<open>SSL_new\<close> returns one when it fails, and always when it is given a null
  context, which is what \<open>create_ssl_ctx\<close> returns (and leaks the context) for a key or a certificate that
  cannot be loaded; the worker goes on without a context.
\<close>

theorem null_ssl_crashes_worker:
  assumes "wk_use_tls w" "ng_callbacks_new (pf_ng pf) = 0" "fst (ng_server_new (pf_ng pf)) = 0"
    and "\<forall>os. fst (ssl_new (pf_sys pf) os None) = None"
  shows "(fst (ssl_new (pf_sys pf) (wk_os w) (wk_ssl_ctx w)) = None \<longrightarrow> new_connection pf sock w = Inl NullDeref)
    \<and> (wk_ssl_ctx w = fst (create_ssl_ctx (pf_ssl pf) key_path cert_path)
        \<and> (\<not> lib_use_key (pf_ssl pf) (c_str key_path) \<or> \<not> lib_use_cert (pf_ssl pf) (c_str cert_path))
        \<longrightarrow> new_connection pf sock w = Inl NullDeref)"
proof -
  have null: "new_connection pf sock w = Inl NullDeref" if "fst (ssl_new (pf_sys pf) (wk_os w) (wk_ssl_ctx w)) = None"
    using that assms(1-3)
    by (auto simp: new_connection_def init_session_data_def admit_connection_def handle_tls_accept_def Let_def
        case_prod_beta)
  have "fst (ssl_new (pf_sys pf) (wk_os w) (wk_ssl_ctx w)) = None"
    if "wk_ssl_ctx w = fst (create_ssl_ctx (pf_ssl pf) key_path cert_path)"
      "\<not> lib_use_key (pf_ssl pf) (c_str key_path) \<or> \<not> lib_use_cert (pf_ssl pf) (c_str cert_path)"
    using that assms(4) by (auto simp: create_ssl_ctx_def)
  with null show ?thesis by simp
qed

theorem null_ssl_crashes_worker_witness:
  "new_connection demo_pf 7 (demo_worker True []) = Inl NullDeref"
proof -
  have "fst (ssl_new (pf_sys demo_pf) (wk_os (demo_worker True [])) (wk_ssl_ctx (demo_worker True []))) = None"
    by (simp add: demo_pf_def demo_sys_def demo_worker_def worker_new_eq)
  with null_ssl_crashes_worker [of "demo_worker True []" demo_pf 7] show ?thesis
    by (simp add: demo_pf_def demo_worker_def worker_new_eq demo_sys_def demo_ng_def)
qed

text \<open>
  When nghttp2 reports an error from \<open>nghttp2_session_mem_send2\<close>, the negative result is stored in
  an unsigned variable, passes the test for "nothing to send", and the append copies far past the
  data instead of closing the connection.
\<close>

theorem send_error_overruns:
  assumes "sd_session (cx_session cx) = Some n" "ng_want_write (pf_ng pf) n"
    and "run_lib (run_send_callback (pf_host pf) (pf_ng pf)) (ng_mem_send (pf_ng pf) n) cx = Inr ((len, data), cx')"
    and "len < 0"
  shows "fill_output_buffer pf cx = Some (Inl OutOfBounds)"
  using assms by (subst fill_output_buffer.simps) simp

theorem send_error_overruns_witness:
  "fill_output_buffer (demo_pf\<lparr>pf_ng := demo_ng\<lparr>ng_want_write := (\<lambda>_. True), ng_mem_send := (\<lambda>n. LibReturn (- 901, []) n)\<rparr>\<rparr>)
     (worker_context demo_sd (demo_worker False [])) = Some (Inl OutOfBounds)"
  by (rule send_error_overruns [of _ "(\<lambda>_. None, [])" _ "- 901" "[]" "worker_context demo_sd (demo_worker False [])"])
    (simp_all add: demo_sd_def new_session_data_def worker_context_def)

end
