(* ===== verification/Worker_Tls.thy ===== *)
theory Worker_Tls
  imports Worker_Facts
begin

text \<open>
  The TLS variants of the data path (\<open>fill_input_buffer_tls\<close>, \<open>flush_output_buffer_tls\<close> in
  \<open>worker.cc\<close>) are the cleartext ones on another descriptor: on a socket whose reads and writes are
  those of OpenSSL, with its error codes read as error numbers. What is shown for cleartext
  connections therefore holds for TLS connections.
\<close>

section \<open>The TLS connection as a socket\<close>

fun ssl_errno :: "ssl_error \<Rightarrow> errno" where
  "ssl_errno SSL_ERROR_WANT_READ = EAGAIN"
| "ssl_errno SSL_ERROR_WANT_WRITE = EAGAIN"
| "ssl_errno (SSL_ERROR_SYSCALL e) = e"
| "ssl_errno SSL_ERROR_ZERO_RETURN = EOTHER"
| "ssl_errno SSL_ERROR_OTHER = EOTHER"

fun plain_read :: "ssl_read_result \<times> 'o \<Rightarrow> io_read \<times> 'o" where
  "plain_read (SslRead data, os) = (ReadBytes data, os)"
| "plain_read (SslReadError e, os) = (ReadError (ssl_errno e), os)"

fun plain_write :: "ssl_write_result \<times> 'o \<Rightarrow> io_write \<times> 'o" where
  "plain_write (SslWrote n, os) = (Wrote n, os)"
| "plain_write (SslWriteError e, os) = (WriteError (ssl_errno e), os)"

definition tunnel :: "('l, 'o) sys \<Rightarrow> 'l \<Rightarrow> ('l, 'o) sys" where
  "tunnel sy s = sy\<lparr>sys_read := (\<lambda>os fd n. plain_read (ssl_read sy os s n)),
     sys_write := (\<lambda>os fd buf. plain_write (ssl_write sy os s buf))\<rparr>"

text \<open>\<open>SSL_read\<close> reports a positive length or an error.\<close>

definition ssl_reads_bytes :: "('l, 'o) sys \<Rightarrow> bool" where
  "ssl_reads_bytes sy \<longleftrightarrow> (\<forall>os s n os'. ssl_read sy os s n \<noteq> (SslRead [], os'))"

lemma option_eqI: "(\<And>y. x = Some y \<Longrightarrow> x' = Some y) \<Longrightarrow> (\<And>y. x' = Some y \<Longrightarrow> x = Some y) \<Longrightarrow> x = x'"
  by (metis not_None_eq)

text \<open>Induction on the rounds that a loop has run when it returns.\<close>

lemmas fill_tls_induct = fill_input_buffer_tls.raw_induct [rotated, consumes 1, case_names step]
lemmas fill_h2c_induct = fill_input_buffer_h2c.raw_induct [rotated, consumes 1, case_names step]
lemmas flush_tls_induct = flush_output_buffer_tls.raw_induct [rotated, consumes 1, case_names step]

lemma fill_tls_h2c:
  "fill_input_buffer_tls sy s sd os = Some res \<Longrightarrow> ssl_reads_bytes sy \<longrightarrow>
   fill_input_buffer_h2c (tunnel sy s) sock sd os = Some res"
proof (induction rule: fill_tls_induct)
  case (step f sy s sd os res)
  show ?case
  proof
    assume b: "ssl_reads_bytes sy"
    obtain r os1 where r: "ssl_read sy os s BUF_SIZE = (r, os1)" by fastforce
    show "fill_input_buffer_h2c (tunnel sy s) sock sd os = Some res"
    proof (cases r)
      case (SslRead data)
      with b r have "data \<noteq> []" by (auto simp: ssl_reads_bytes_def)
      with step b r SslRead show ?thesis
        by (subst fill_input_buffer_h2c.simps) (simp add: tunnel_def)
    next
      case (SslReadError e)
      with step b r show ?thesis
        by (subst fill_input_buffer_h2c.simps) (cases e; auto simp: tunnel_def split: if_splits)
    qed
  qed
qed

lemma fill_h2c_tls:
  "fill_input_buffer_h2c sy' sock sd os = Some res \<Longrightarrow> ssl_reads_bytes sy \<longrightarrow> sy' = tunnel sy s \<longrightarrow>
   fill_input_buffer_tls sy s sd os = Some res"
proof (induction rule: fill_h2c_induct)
  case (step f sy' sock sd os res)
  show ?case
  proof (intro impI)
    assume b: "ssl_reads_bytes sy" and t: "sy' = tunnel sy s"
    obtain r os1 where r: "ssl_read sy os s BUF_SIZE = (r, os1)" by fastforce
    show "fill_input_buffer_tls sy s sd os = Some res"
    proof (cases r)
      case (SslRead data)
      with b r have "data \<noteq> []" by (auto simp: ssl_reads_bytes_def)
      with step b t r SslRead show ?thesis
        by (subst fill_input_buffer_tls.simps) (simp add: tunnel_def)
    next
      case (SslReadError e)
      with step b t r show ?thesis
        by (subst fill_input_buffer_tls.simps) (cases e; auto simp: tunnel_def split: if_splits)
    qed
  qed
qed

lemma fill_tls_eq:
  "ssl_reads_bytes sy \<Longrightarrow> fill_input_buffer_tls sy s sd os = fill_input_buffer_h2c (tunnel sy s) sock sd os"
  by (rule option_eqI) (auto dest: fill_tls_h2c fill_h2c_tls)

lemma flush_tls_h2c:
  "flush_output_buffer_tls sy s sd os = Some res \<Longrightarrow> flush_output_buffer_h2c (tunnel sy s) sock sd os = Some res"
proof (induction rule: flush_tls_induct)
  case (step f sy s sd os res)
  obtain r os1 where r: "ssl_write sy os s (sd_output_buffer sd) = (r, os1)" by fastforce
  show ?case
  proof (cases r)
    case (SslWrote n)
    with step r show ?thesis
      by (subst flush_output_buffer_h2c.simps) (auto simp: tunnel_def split: if_splits sum.splits)
  next
    case (SslWriteError e)
    with step r show ?thesis
      by (subst flush_output_buffer_h2c.simps) (cases e; auto simp: tunnel_def split: if_splits)
  qed
qed

lemma flush_h2c_tls:
  "flush_output_buffer_h2c sy' sock sd os = Some res \<Longrightarrow> sy' = tunnel sy s \<longrightarrow>
   flush_output_buffer_tls sy s sd os = Some res"
proof (induction rule: flush_h2c_induct)
  case (step f sy' sock sd os res)
  obtain r os1 where r: "ssl_write sy os s (sd_output_buffer sd) = (r, os1)" by fastforce
  show ?case
  proof (cases r)
    case (SslWrote n)
    with step r show ?thesis
      by (subst flush_output_buffer_tls.simps) (auto simp: tunnel_def split: if_splits sum.splits)
  next
    case (SslWriteError e)
    with step r show ?thesis
      by (subst flush_output_buffer_tls.simps) (cases e; auto simp: tunnel_def split: if_splits)
  qed
qed

lemma flush_tls_eq:
  "flush_output_buffer_tls sy s sd os = flush_output_buffer_h2c (tunnel sy s) sock sd os"
  by (rule option_eqI) (auto dest: flush_tls_h2c flush_h2c_tls)

section \<open>Both modes at once\<close>

text \<open>The socket that a connection reads and writes, in either mode.\<close>

definition channel ::
    "('n, 'h, 'l, 'o) platform \<Rightarrow> ('n, 'h, 'l) session_data \<Rightarrow> ('n, 'h, 'l, 'o) worker \<Rightarrow> ('l, 'o) sys" where
  "channel pf sd w =
     (case sd_ssl sd of
        None \<Rightarrow> pf_sys pf
      | Some s \<Rightarrow> if wk_use_tls w then tunnel (pf_sys pf) s else pf_sys pf)"

definition connected :: "('n, 'h, 'l, 'o) worker \<Rightarrow> ('n, 'h, 'l) session_data \<Rightarrow> bool" where
  "connected w sd \<longleftrightarrow> wk_callbacks w = BoundHere (wk_use_tls w) \<and> (wk_use_tls w \<longrightarrow> sd_ssl sd \<noteq> None)"

lemma fill_channel:
  assumes "connected w sd" "ssl_reads_bytes (pf_sys pf)"
  shows "fill_input_buffer pf sock sd w =
    map_option (\<lambda>(r, sd', os'). Inr (r, sd', w\<lparr>wk_os := os'\<rparr>))
      (fill_input_buffer_h2c (channel pf sd w) sock sd (wk_os w))"
  using assms(1)
  by (cases "sd_ssl sd") (auto simp: fill_input_buffer_def deref_ssl_def channel_def connected_def fill_tls_eq [OF assms(2), where sock = sock])

lemma flush_channel:
  assumes "connected w sd"
  shows "flush_output_buffer pf sock sd w =
    map_option (\<lambda>res. obind res (\<lambda>(r, sd', os'). Inr (r, sd', w\<lparr>wk_os := os'\<rparr>)))
      (flush_output_buffer_h2c (channel pf sd w) sock sd (wk_os w))"
  using assms
  by (cases "sd_ssl sd") (auto simp: flush_output_buffer_def deref_ssl_def channel_def connected_def flush_tls_eq [where sock = sock])

section \<open>Properties\<close>

text \<open>A system whose TLS connections deliver a list of results and take three bytes at a time.\<close>

definition demo_tls_sys :: "(unit, demo_os_state) sys" where
  "demo_tls_sys = demo_sys\<lparr>
     ssl_read := (\<lambda>os s n. case fst os of
        [] \<Rightarrow> (SslReadError SSL_ERROR_WANT_READ, os)
      | ReadBytes d # rs \<Rightarrow> (if d = [] then SslReadError SSL_ERROR_ZERO_RETURN else SslRead d, (rs, snd os))
      | ReadError e # rs \<Rightarrow> (SslReadError (SSL_ERROR_SYSCALL e), (rs, snd os))),
     ssl_write := (\<lambda>os s buf. (SslWrote (min 3 (length buf)), (fst os, snd os @ take 3 buf)))\<rparr>"

definition demo_tls_pf :: "(demo_session, app_handler, unit, demo_os_state) platform" where
  "demo_tls_pf = demo_pf\<lparr>pf_sys := demo_tls_sys\<rparr>"

lemma demo_tls_reads: "ssl_reads_bytes (pf_sys demo_tls_pf)"
  by (auto simp: ssl_reads_bytes_def demo_tls_pf_def demo_tls_sys_def split: list.splits io_read.splits if_splits)

lemma demo_tls_connected: "connected (demo_worker True rs) demo_tls_sd"
  by (simp add: connected_def demo_tls_sd_def demo_worker_def worker_new_eq)

lemma demo_tls_channel: "channel demo_tls_pf demo_tls_sd (demo_worker True rs) = tunnel demo_tls_sys ()"
  by (simp add: channel_def demo_tls_sd_def demo_tls_pf_def demo_worker_def worker_new_eq)

text \<open>
  C21: reading and flushing a TLS connection are the cleartext functions on the socket that
  OpenSSL offers: the same bytes are moved, the loops end in the same cases and with the same
  result, when the codes of \<open>SSL_get_error\<close> are read as error numbers.
\<close>

theorem tls_path_is_cleartext_path:
  assumes "ssl_reads_bytes sy"
  shows "fill_input_buffer_tls sy s sd os = fill_input_buffer_h2c (tunnel sy s) sock sd os
    \<and> flush_output_buffer_tls sy s sd os = flush_output_buffer_h2c (tunnel sy s) sock sd os"
  by (intro conjI fill_tls_eq [OF assms] flush_tls_eq)

theorem tls_path_is_cleartext_path_witness:
  "fill_input_buffer_tls demo_tls_sys () demo_sd ([ReadBytes ''ab''], []) =
     fill_input_buffer_h2c (tunnel demo_tls_sys ()) 7 demo_sd ([ReadBytes ''ab''], [])
   \<and> flush_output_buffer_tls demo_tls_sys () demo_sd ([ReadBytes ''ab''], []) =
     flush_output_buffer_h2c (tunnel demo_tls_sys ()) 7 demo_sd ([ReadBytes ''ab''], [])"
  by (rule tls_path_is_cleartext_path) (use demo_tls_reads in \<open>simp add: demo_tls_pf_def\<close>)

text \<open>
  C20: when the reads of a connection, cleartext or TLS, deliver some chunks, possibly with
  interruptions in between, and then a last result, \<open>fill_input_buffer\<close> returns; it has appended
  exactly the chunks, in order, and reports "again" when the last result was that nothing is left,
  "shutdown" otherwise.
\<close>

theorem input_collected:
  assumes "connected w sd" "ssl_reads_bytes (pf_sys pf)"
    and "read_trace (channel pf sd w) sock (wk_os w) (rs @ [r]) os'" "\<forall>x \<in> set rs. read_goes_on x"
    and "\<not> read_goes_on r"
  shows "fill_input_buffer pf sock sd w =
    Some (Inr (if r = ReadError EAGAIN then AGAIN else SHUTDOWN,
          sd\<lparr>sd_input_buffer := sd_input_buffer sd @ concat (map read_bytes rs)\<rparr>, w\<lparr>wk_os := os'\<rparr>))"
  using fill_input_trace [OF assms(3-5), where sd = sd]
  by (simp add: fill_channel [OF assms(1,2)] read_result_def append_to_input_buffer_def)

theorem input_collected_witness:
  "fill_input_buffer demo_tls_pf 7 demo_tls_sd (demo_worker True [ReadBytes ''ab'', ReadError EINTR, ReadBytes ''c'']) =
     Some (Inr (AGAIN, demo_tls_sd\<lparr>sd_input_buffer := ''abc''\<rparr>, demo_worker True []))"
  using input_collected [OF demo_tls_connected demo_tls_reads, of "[ReadBytes ''ab'', ReadError EINTR, ReadBytes ''c'']" 7
      "[ReadBytes ''ab'', ReadError EINTR, ReadBytes ''c'']" "ReadError EAGAIN" "([], [])"]
  by (simp add: demo_tls_channel)
    (simp add: tunnel_def demo_tls_sys_def demo_sys_def demo_tls_sd_def demo_sd_def new_session_data_def
      demo_worker_def worker_new_eq)

text \<open>
  C18: flushing a connection, cleartext or TLS, ends when its socket makes progress, and no byte is
  lost, duplicated or reordered: what was sent followed by what is kept is what there was to send,
  and the result is "success" exactly when nothing is kept.
\<close>

theorem flush_conserves_output:
  assumes "connected w sd" "write_contract (\<lambda>os buf. sys_write (channel pf sd w) os sock buf) sent patience"
  shows "\<exists>r kept os'. flush_output_buffer pf sock sd w =
      Some (Inr (r, sd\<lparr>sd_output_buffer := kept\<rparr>, w\<lparr>wk_os := os'\<rparr>))
    \<and> sent os' @ kept = sent (wk_os w) @ sd_output_buffer sd \<and> (r = SUCCESS \<longleftrightarrow> kept = [])"
proof -
  from flush_h2c_ok [OF assms(2), of sd "wk_os w"] obtain r kept os' where
    "flush_output_buffer_h2c (channel pf sd w) sock sd (wk_os w) = Some (Inr (r, sd\<lparr>sd_output_buffer := kept\<rparr>, os'))"
    "sent os' @ kept = sent (wk_os w) @ sd_output_buffer sd" "r = SUCCESS \<longleftrightarrow> kept = []"
    by blast
  then show ?thesis by (auto simp: flush_channel [OF assms(1)])
qed

theorem flush_conserves_output_witness:
  "\<exists>r kept os'. flush_output_buffer demo_tls_pf 7 (demo_tls_sd\<lparr>sd_output_buffer := ''hello''\<rparr>) (demo_worker True []) =
      Some (Inr (r, demo_tls_sd\<lparr>sd_output_buffer := kept\<rparr>, (demo_worker True [])\<lparr>wk_os := os'\<rparr>))
    \<and> snd os' @ kept = ''hello''"
proof -
  let ?sd = "demo_tls_sd\<lparr>sd_output_buffer := ''hello''\<rparr>" and ?w = "demo_worker True []"
  have "channel demo_tls_pf ?sd ?w = tunnel demo_tls_sys ()" using demo_tls_channel [of "[]"]
    by (simp add: channel_def)
  then have "write_contract (\<lambda>os buf. sys_write (channel demo_tls_pf ?sd ?w) os 7 buf) snd (\<lambda>_. 0)"
    by (simp add: write_contract_def tunnel_def demo_tls_sys_def min_def)
  from flush_conserves_output [OF _ this] show ?thesis
    by (auto simp: connected_def demo_tls_sd_def demo_worker_def worker_new_eq)
qed

text \<open>
  When the peer sends data and closes its side before the worker reads, the data is read into
  the input buffer but never given to nghttp2: the end of file makes \<open>handle_read\<close> stop first, and the
  connection is dropped with the request in it.
\<close>

theorem fin_discards_input:
  assumes "connected w sd" "ssl_reads_bytes (pf_sys pf)" "ev AND EPOLLIN \<noteq> 0 \<or> check_close_event ev"
    and "read_trace (channel pf sd w) sock (wk_os w) (rs @ [r]) os'" "\<forall>x \<in> set rs. read_goes_on x"
    and "r = ReadBytes [] \<or> r = ReadError EOTHER"
  shows "handle_events pf ev sock sd w =
    Some (Inr (disconnect_from_client pf sock
      (append_to_input_buffer (concat (map read_bytes rs)) sd) (w\<lparr>wk_os := os'\<rparr>)))"
proof -
  have "\<not> read_goes_on r" "r \<noteq> ReadError EAGAIN" using assms(6) by auto
  with fill_input_trace [OF assms(4,5), where sd = sd]
  have "handle_read pf sock sd w =
      Some (Inr (SHUTDOWN, append_to_input_buffer (concat (map read_bytes rs)) sd, w\<lparr>wk_os := os'\<rparr>))"
    by (simp add: handle_read_def fill_channel [OF assms(1,2)] read_result_def)
  with assms(3) show ?thesis by (simp add: handle_events_def Let_def)
qed

theorem fin_discards_input_witness:
  "handle_events demo_tls_pf EPOLLIN 7 demo_tls_sd (demo_worker True [ReadBytes ''request'', ReadBytes []]) =
     Some (Inr (disconnect_from_client demo_tls_pf 7 (append_to_input_buffer ''request'' demo_tls_sd) (demo_worker True [])))"
  using fin_discards_input [OF demo_tls_connected demo_tls_reads, of EPOLLIN "[ReadBytes ''request'', ReadBytes []]" 7
      "[ReadBytes ''request'']" "ReadError EOTHER" "([], [])"]
  by (simp add: demo_tls_channel EPOLLIN_def)
    (simp add: tunnel_def demo_tls_sys_def demo_sys_def demo_worker_def worker_new_eq)

end
