(* ===== verification/Worker_Safety.thy ===== *)
theory Worker_Safety
  imports Worker_Tls
begin

text \<open>
  The worker as a whole: what holds of the sessions in its map between two batches of events, that
  every batch of events is handled in finitely many steps, whatever the events are, and that no
  handler uses a null pointer or a stream that was deleted.
\<close>

section \<open>Runs that end well\<close>

text \<open>A run that ends, with a result that satisfies \<open>Q\<close>, or with a fault that is not one of a pointer.\<close>

definition ends :: "('a \<Rightarrow> bool) \<Rightarrow> 'a run \<Rightarrow> bool" where
  "ends Q m \<longleftrightarrow> (case m of None \<Rightarrow> False | Some (Inl e) \<Rightarrow> \<not> pointer_fault e | Some (Inr x) \<Rightarrow> Q x)"

lemma ends_simps [simp]:
  "\<not> ends Q None" "ends Q (Some (Inl e)) \<longleftrightarrow> \<not> pointer_fault e" "ends Q (Some (Inr x)) \<longleftrightarrow> Q x"
  by (simp_all add: ends_def)

lemma pointer_fault_simps [simp]:
  "pointer_fault DanglingPointer" "pointer_fault NullDeref" "\<not> pointer_fault OutOfBounds"
  by (simp_all add: pointer_fault_def)

lemma ends_cases:
  assumes "ends Q m"
  obtains (fault) e where "m = Some (Inl e)" "\<not> pointer_fault e" | (result) x where "m = Some (Inr x)" "Q x"
  using assms by (auto simp: ends_def split: option.splits sum.splits)

lemma ends_rbind: "ends P m \<Longrightarrow> (\<And>x. P x \<Longrightarrow> ends Q (f x)) \<Longrightarrow> ends Q (rbind m f)"
  by (erule ends_cases) auto

lemma ends_obind: "ends P (Some m) \<Longrightarrow> (\<And>x. P x \<Longrightarrow> ends Q (Some (f x))) \<Longrightarrow> ends Q (Some (obind m f))"
  by (erule ends_cases) auto

lemma ends_mono: "ends P m \<Longrightarrow> (\<And>x. P x \<Longrightarrow> Q x) \<Longrightarrow> ends Q m"
  by (erule ends_cases) auto

section \<open>What the platform promises\<close>

text \<open>
  A descriptor, or a TLS connection, does not deliver data or interrupt for ever within one
  uninterrupted series of calls; \<open>patience\<close> bounds the calls that are left.
\<close>

definition progress :: "('l, 'o) sys \<Rightarrow> ('o \<Rightarrow> nat) \<Rightarrow> bool" where
  "progress sy patience \<longleftrightarrow>
     (\<forall>os fd k r os'. sys_read sy os fd k = (r, os') \<longrightarrow> read_goes_on r \<longrightarrow> patience os' < patience os)
     \<and> (\<forall>fd. write_progress (\<lambda>os buf. sys_write sy os fd buf) patience)"

text \<open>
  The answers that the send callbacks give: a read that asks for some bytes gives some or reports the
  end, and closing a stream succeeds. They leave the state of nghttp2 as it is.
\<close>

definition send_answered :: "send_callback \<Rightarrow> send_answer \<Rightarrow> bool" where
  "send_answered q r \<longleftrightarrow>
     (case (q, r) of
        (OnDataRead (DataRead prd len), Inl (n, bytes, eof)) \<Rightarrow> len \<noteq> 0 \<and> n = 0 \<longrightarrow> eof
      | (OnSentStreamClose i, Inr rv) \<Rightarrow> rv = 0
      | _ \<Rightarrow> False)"

text \<open>
  Each \<open>nghttp2_session_mem_send2\<close> that produces bytes leaves less to send, when its callbacks answer like
  this and leave its state alone; \<open>work\<close> measures what is left. (Nothing is received in between, so what
  can be sent is bounded by the frames that are queued and by the windows of the flow control.)
\<close>

primrec send_returns :: "('a \<Rightarrow> 'n \<Rightarrow> bool) \<Rightarrow> (send_callback, send_answer, 'n, 'a) lib_call \<Rightarrow> bool" where
  "send_returns P (LibReturn a n) \<longleftrightarrow> P a n"
| "send_returns P (LibCallback q n k) \<longleftrightarrow> (\<forall>r. send_answered q r \<longrightarrow> send_returns P (k r n))"

definition send_contract :: "'n nghttp2 \<Rightarrow> ('n \<Rightarrow> nat) \<Rightarrow> bool" where
  "send_contract ng work \<longleftrightarrow>
     (\<forall>n. send_returns (\<lambda>(len, data) n'. 0 < len \<longrightarrow> work n' < work n) (ng_mem_send ng n))"

lemma file_read_answer:
  assumes "file_read_callback len (Some ctx) = Inr ((n, bytes, eof), source)" "len \<noteq> 0" "n = 0"
  shows eof
proof -
  let ?off = "scast (ctx_offset ctx) :: u64"
  from assms(1,3) have m: "min len (ctx_size ctx - ?off) = 0"
    and e: "eof = ((scast (ucast (?off + min len (ctx_size ctx - ?off)) :: 32 word) :: u64) = ctx_size ctx)"
    by (auto simp: file_read_callback_def Let_def obind_eq_Inr uint_0_iff)
  from m assms(2) have "ctx_size ctx = ?off" by (auto simp: min_def split: if_splits)
  moreover have "(ucast ?off :: 32 word) = ctx_offset ctx"
  proof (rule bit_word_eqI)
    fix k assume "k < LENGTH(32)"
    then have "k < 31 \<or> k = 31" by auto
    then show "bit (ucast ?off :: 32 word) k = bit (ctx_offset ctx) k" by (auto simp: bit_simps min_def)
  qed
  ultimately show ?thesis using e m by simp
qed

lemma delete_stream_session:
  "sd_session (cx_session (delete_stream_data ho p cx)) = sd_session (cx_session cx)"
  by (simp add: delete_stream_data_def split: option.split)

lemma send_callback_answer:
  assumes "run_send_callback ho ng q cx = Inr (r, cx')"
  shows "send_answered q r \<and> sd_session (cx_session cx') = sd_session (cx_session cx)"
proof (cases q)
  case (OnDataRead d)
  obtain prd len where d: "d = DataRead prd len" by (cases d)
  show ?thesis
  proof (cases prd)
    case ErrorProvider
    with assms OnDataRead d show ?thesis
      by (auto simp: run_send_callback_def data_read_callback_def send_answered_def error_read_callback_def Let_def)
  next
    case (FileProvider p)
    with assms OnDataRead d show ?thesis
      by (auto simp: run_send_callback_def data_read_callback_def send_answered_def obind_eq_Inr store_stream_def
          dest: file_read_answer split: option.split)
  qed
next
  case (OnSentStreamClose i)
  with assms show ?thesis
    by (auto simp: run_send_callback_def on_stream_close_callback_def send_answered_def obind_eq_Inr
        delete_stream_session split: option.splits)
qed

lemma run_send_returns:
  "send_returns P lib \<Longrightarrow> run_lib (run_send_callback ho ng) lib cx = Inr (a, cx') \<Longrightarrow>
   \<exists>n. sd_session (cx_session cx') = Some n \<and> P a n"
proof (induction lib arbitrary: cx)
  case (LibCallback q n k)
  from LibCallback.prems(2) obtain r cx1 n' where
    cb: "run_send_callback ho ng q (cx\<lparr>cx_session := (cx_session cx)\<lparr>sd_session := Some n\<rparr>\<rparr>) = Inr (r, cx1)"
    and n': "deref_session (cx_session cx1) = Inr n'"
    and rest: "run_lib (run_send_callback ho ng) (k r n') cx1 = Inr (a, cx')" by (auto simp: obind_eq_Inr)
  from send_callback_answer [OF cb] n' have "send_answered q r" "n' = n" by (simp_all add: deref_session_def)
  with LibCallback.prems(1) LibCallback.IH [OF rangeI rangeI _ rest] show ?case by simp
qed auto

text \<open>
  \<open>SSL_new\<close> succeeds for every context that was created. The worker relies on it: it does not look at
  the result (see \<open>null_ssl_crashes_worker\<close>).
\<close>

definition ssl_new_succeeds :: "('l, 'o) sys \<Rightarrow> bool" where
  "ssl_new_succeeds sy \<longleftrightarrow> (\<forall>os c. fst (ssl_new sy os (Some c)) \<noteq> None)"

definition platform_laws ::
    "('n, app_handler, 'l, 'o) platform \<Rightarrow> ('n \<Rightarrow> u32 \<Rightarrow> data_provider option) \<Rightarrow> ('o \<Rightarrow> nat) \<Rightarrow> ('n \<Rightarrow> nat) \<Rightarrow> bool" where
  "platform_laws pf prov patience work \<longleftrightarrow>
     mmap_nonnull (ho_maps (pf_host pf)) \<and> ng_laws (pf_ng pf) prov
     \<and> pf_call pf = app_call (pf_host pf) (pf_ng pf)
     \<and> (\<forall>n buf. lib_streams_ok (view (pf_ng pf) prov) recv_closes recv_allowed (ng_mem_recv (pf_ng pf) n buf)
          (view (pf_ng pf) prov n))
     \<and> (\<forall>n. lib_streams_ok (view (pf_ng pf) prov) send_closes send_allowed (ng_mem_send (pf_ng pf) n)
          (view (pf_ng pf) prov n))
     \<and> recv_contract (pf_ng pf) \<and> send_contract (pf_ng pf) work
     \<and> progress (pf_sys pf) patience \<and> (\<forall>s. progress (tunnel (pf_sys pf) s) patience)
     \<and> ssl_reads_bytes (pf_sys pf)"

definition platform_ok ::
    "('n, app_handler, 'l, 'o) platform \<Rightarrow> ('n \<Rightarrow> u32 \<Rightarrow> data_provider option) \<Rightarrow> ('o \<Rightarrow> nat) \<Rightarrow> ('n \<Rightarrow> nat) \<Rightarrow> bool" where
  "platform_ok pf prov patience work \<longleftrightarrow> platform_laws pf prov patience work \<and> ssl_new_succeeds (pf_sys pf)"

lemma platform_okD:
  assumes "platform_ok pf prov patience work"
  shows "mmap_nonnull (ho_maps (pf_host pf))" "ng_laws (pf_ng pf) prov"
    "pf_call pf = app_call (pf_host pf) (pf_ng pf)"
    "lib_streams_ok (view (pf_ng pf) prov) recv_closes recv_allowed (ng_mem_recv (pf_ng pf) n buf) (view (pf_ng pf) prov n)"
    "lib_streams_ok (view (pf_ng pf) prov) send_closes send_allowed (ng_mem_send (pf_ng pf) n) (view (pf_ng pf) prov n)"
    "recv_contract (pf_ng pf)" "send_contract (pf_ng pf) work"
    "progress (pf_sys pf) patience" "progress (tunnel (pf_sys pf) s) patience" "ssl_reads_bytes (pf_sys pf)"
    "fst (ssl_new (pf_sys pf) os (Some c)) \<noteq> None"
  using assms unfolding platform_ok_def platform_laws_def ssl_new_succeeds_def by blast+

abbreviation pf_view :: "('n, 'h, 'l, 'o) platform \<Rightarrow> ('n \<Rightarrow> u32 \<Rightarrow> data_provider option) \<Rightarrow> 'n \<Rightarrow> stream_view" where
  "pf_view pf prov \<equiv> view (pf_ng pf) prov"

section \<open>A session on its way through the handlers\<close>

lemma session_ok_fields [simp]:
  "session_ok V (sd\<lparr>sd_input_buffer := b\<rparr>) = session_ok V sd"
  "session_ok V (sd\<lparr>sd_output_buffer := b\<rparr>) = session_ok V sd"
  "session_ok V (sd\<lparr>sd_events := ev\<rparr>) = session_ok V sd"
  "session_ok V (sd\<lparr>sd_ssl := s\<rparr>) = session_ok V sd"
  "session_ok V (sd\<lparr>sd_router := r\<rparr>) = session_ok V sd"
  "session_ok V (sd\<lparr>sd_state := st\<rparr>) = session_ok V sd"
  "session_ok V (sd\<lparr>sd_is_closed := c\<rparr>) = session_ok V sd"
  by (simp_all add: session_ok_def streams_ok_def ids_def ctxs_ok_def cong: option.case_cong)

text \<open>The same connection later: it has its TLS object and router, and may have begun to disconnect.\<close>

definition evolves :: "('n, 'h, 'l) session_data \<Rightarrow> ('n, 'h, 'l) session_data \<Rightarrow> bool" where
  "evolves sd sd' \<longleftrightarrow>
     sd_ssl sd' = sd_ssl sd \<and> sd_router sd' = sd_router sd \<and> sd_state sd' \<in> {sd_state sd, DISCONNECTING}"

lemma evolves_refl [simp]: "evolves sd sd"
  by (simp add: evolves_def)

lemma evolves_trans: "evolves a b \<Longrightarrow> evolves b c \<Longrightarrow> evolves a c"
  by (auto simp: evolves_def)

lemma evolves_fields [simp]:
  "evolves sd (sd'\<lparr>sd_input_buffer := b\<rparr>) = evolves sd sd'"
  "evolves sd (sd'\<lparr>sd_output_buffer := b\<rparr>) = evolves sd sd'"
  "evolves sd (sd'\<lparr>sd_events := ev\<rparr>) = evolves sd sd'"
  "evolves sd (sd'\<lparr>sd_is_closed := c\<rparr>) = evolves sd sd'"
  by (simp_all add: evolves_def)

lemma leaves_evolves: "leaves_io sd sd' \<Longrightarrow> evolves sd sd'"
  by (auto simp: evolves_def dest: leaves_io_parts)

definition conn_ok :: "('n \<Rightarrow> stream_view) \<Rightarrow> ('n, 'h, 'l) session_data \<Rightarrow> ('n, 'h, 'l) session_data \<Rightarrow> bool" where
  "conn_ok V sd sd' \<longleftrightarrow> session_ok V sd' \<and> evolves sd sd'"

lemma conn_ok_trans: "conn_ok V a b \<Longrightarrow> conn_ok V b c \<Longrightarrow> conn_ok V a c"
  by (auto simp: conn_ok_def intro: evolves_trans)

lemma fill_h2c_ends:
  assumes "progress sy patience"
  shows "\<exists>r b os'. fill_input_buffer_h2c sy sock sd os = Some (r, sd\<lparr>sd_input_buffer := b\<rparr>, os')"
proof (induction "patience os" arbitrary: os sd rule: less_induct)
  case less
  note eq = fill_input_buffer_h2c.simps [of sy sock sd os]
  obtain r os1 where r: "sys_read sy os sock BUF_SIZE = (r, os1)" by fastforce
  show ?case
  proof (cases "read_goes_on r")
    case True
    with assms r have "patience os1 < patience os" by (auto simp: progress_def)
    from less [OF this, of "append_to_input_buffer (read_bytes r) sd"] obtain r' b os' where
      "fill_input_buffer_h2c sy sock (append_to_input_buffer (read_bytes r) sd) os1 =
        Some (r', (append_to_input_buffer (read_bytes r) sd)\<lparr>sd_input_buffer := b\<rparr>, os')" by blast
    with True r show ?thesis by (cases r) (auto simp: eq append_to_input_buffer_def)
  next
    case False
    with r have "fill_input_buffer_h2c sy sock sd os = Some (read_result r, sd\<lparr>sd_input_buffer := sd_input_buffer sd\<rparr>, os1)"
      by (cases r) (auto simp: eq read_result_def split: if_splits)
    then show ?thesis by blast
  qed
qed

lemma channel_progress: "platform_ok pf prov patience work \<Longrightarrow> progress (channel pf sd w) patience"
  by (simp add: channel_def platform_okD split: option.split)

lemma fill_input_ends:
  assumes "platform_ok pf prov patience work" "connected w sd" "session_ok V sd"
  shows "ends (\<lambda>(r, sd', w'). conn_ok V sd sd' \<and> (\<exists>os. w' = w\<lparr>wk_os := os\<rparr>)) (fill_input_buffer pf sock sd w)"
proof -
  note fill = fill_channel [OF assms(2) platform_okD(10) [OF assms(1)]]
  from fill_h2c_ends [OF channel_progress [OF assms(1)], of sd w sock sd "wk_os w"] assms(3) show ?thesis
    by (auto simp: fill conn_ok_def)
qed

lemma flush_output_ends:
  assumes "platform_ok pf prov patience work" "connected w sd" "session_ok V sd"
  shows "ends (\<lambda>(r, sd', w'). conn_ok V sd sd' \<and> (\<exists>os. w' = w\<lparr>wk_os := os\<rparr>)) (flush_output_buffer pf sock sd w)"
proof -
  have "write_progress (\<lambda>os buf. sys_write (channel pf sd w) os sock buf) patience"
    using channel_progress [OF assms(1)] by (auto simp: progress_def)
  from flush_h2c_ends [OF this, of sd "wk_os w"] assms(3) show ?thesis
    by (auto simp: flush_channel [OF assms(2)] conn_ok_def)
qed

lemma feed_input_ends:
  assumes "platform_ok pf prov patience work" "session_ok (pf_view pf prov) (cx_session cx)"
  shows "ends (\<lambda>(r, cx'). conn_ok (pf_view pf prov) (cx_session cx) (cx_session cx')) (feed_input_buffer pf cx)"
  using assms(2)
proof (induction "length (sd_input_buffer (cx_session cx))" arbitrary: cx rule: less_induct)
  case less
  let ?buf = "sd_input_buffer (cx_session cx)" and ?V = "pf_view pf prov"
  note eq = feed_input_buffer.simps [of pf cx]
  from less.prems obtain n where n: "sd_session (cx_session cx) = Some n" by (rule session_okE)
  let ?run = "run_lib (run_callback (pf_host pf) (pf_ng pf) (pf_call pf)) (ng_mem_recv (pf_ng pf) n ?buf) cx"
  note p = platform_okD [OF assms(1)]
  have ok: "case ?run of Inl e \<Rightarrow> \<not> pointer_fault e | Inr (a, cx') \<Rightarrow> session_ok ?V (cx_session cx')"
    unfolding p(3) by (rule rh.run_recv_ok [OF p(1,2) n less.prems p(4)])
  show ?case
  proof (cases "?buf = []")
    case True
    with less.prems show ?thesis by (simp add: eq conn_ok_def)
  next
    case False
    show ?thesis
    proof (cases ?run)
      case (Inl e)
      with ok False n show ?thesis by (simp add: eq)
    next
      case (Inr b)
      obtain fed cx1 where b: "b = (fed, cx1)" by fastforce
      with Inr ok have s1: "session_ok ?V (cx_session cx1)" by simp
      have l: "leaves_io (cx_session cx) (cx_session cx1)" using Inr b by (simp add: p(3) run_recv_leaves)
      then have c1: "conn_ok ?V (cx_session cx) (cx_session cx1)" using s1 by (simp add: conn_ok_def leaves_evolves)
      show ?thesis
      proof (cases "fed < 0")
        case True
        with False n Inr b c1 show ?thesis by (simp add: eq)
      next
        case pos: False
        have "all_returns (\<lambda>fed n. fed \<noteq> 0 \<and> fed \<le> int (length ?buf)) (ng_mem_recv (pf_ng pf) n ?buf)"
          using p(6) False by (simp add: recv_contract_def)
        from run_lib_returns [OF this] Inr b have fed: "fed \<noteq> 0" "fed \<le> int (length ?buf)" by auto
        let ?cx = "cx1\<lparr>cx_session := (cx_session cx1)\<lparr>sd_input_buffer := drop (nat fed) ?buf\<rparr>\<rparr>"
        have step: "feed_input_buffer pf cx = feed_input_buffer pf ?cx"
          using False n Inr b pos fed leaves_io_parts(1) [OF l]
          by (simp add: eq consume_input_buffer_def nat_le_iff)
        have "ends (\<lambda>(r, cx'). conn_ok ?V (cx_session ?cx) (cx_session cx')) (feed_input_buffer pf ?cx)"
          by (rule less.hyps) (use fed pos False s1 in simp_all)
        then show ?thesis unfolding step
          by (rule ends_mono) (use c1 in \<open>auto simp: conn_ok_def evolves_def\<close>)
      qed
    qed
  qed
qed

lemma fill_output_ends:
  assumes "platform_ok pf prov patience work" "session_ok (pf_view pf prov) (cx_session cx)"
  shows "ends (\<lambda>cx'. conn_ok (pf_view pf prov) (cx_session cx) (cx_session cx')) (fill_output_buffer pf cx)"
  using assms(2)
proof (induction "case sd_session (cx_session cx) of None \<Rightarrow> 0 | Some n \<Rightarrow> work n" arbitrary: cx rule: less_induct)
  case less
  let ?V = "pf_view pf prov"
  note eq = fill_output_buffer.simps [of pf cx] and p = platform_okD [OF assms(1)]
  from less.prems obtain n where n: "sd_session (cx_session cx) = Some n" by (rule session_okE)
  let ?run = "run_lib (run_send_callback (pf_host pf) (pf_ng pf)) (ng_mem_send (pf_ng pf) n) cx"
  have ok: "case ?run of Inl e \<Rightarrow> \<not> pointer_fault e | Inr (a, cx') \<Rightarrow> session_ok ?V (cx_session cx')"
    by (rule run_send_ok [OF n less.prems p(5)])
  show ?case
  proof (cases "ng_want_write (pf_ng pf) n")
    case False
    with less.prems n show ?thesis by (simp add: eq conn_ok_def)
  next
    case True
    show ?thesis
    proof (cases ?run)
      case (Inl e)
      with ok True n show ?thesis by (simp add: eq)
    next
      case (Inr b)
      obtain len data cx1 where b: "b = ((len, data), cx1)" by (metis surj_pair)
      with Inr ok have s1: "session_ok ?V (cx_session cx1)" by simp
      have c1: "conn_ok ?V (cx_session cx) (cx_session cx1)"
        using s1 leaves_evolves [OF run_send_leaves [OF Inr [unfolded b]]] by (simp add: conn_ok_def)
      show ?thesis
      proof (cases "len \<le> 0 \<or> length data < nat len")
        case stop: True
        with True n Inr b c1 show ?thesis by (auto simp: eq)
      next
        case pos: False
        let ?cx = "cx1\<lparr>cx_session := append_to_output_buffer (take (nat len) data) (cx_session cx1)\<rparr>"
        have "send_returns (\<lambda>(len, data) n'. 0 < len \<longrightarrow> work n' < work n) (ng_mem_send (pf_ng pf) n)"
          using p(7) by (simp add: send_contract_def)
        from run_send_returns [OF this Inr [unfolded b]] pos obtain n1 where
          "sd_session (cx_session cx1) = Some n1" "work n1 < work n" by auto
        with n s1 have e: "ends (\<lambda>cx'. conn_ok ?V (cx_session ?cx) (cx_session cx')) (fill_output_buffer pf ?cx)"
          by (intro less.hyps) (simp_all add: append_to_output_buffer_def)
        have step: "fill_output_buffer pf cx = fill_output_buffer pf ?cx"
          using True n Inr b pos by (simp add: eq)
        from e show ?thesis unfolding step
          by (rule ends_mono) (use c1 in \<open>auto simp: append_to_output_buffer_def conn_ok_def evolves_def\<close>)
      qed
    qed
  qed
qed

section \<open>The invariant of the worker\<close>

definition worker_core :: "('n, 'h, 'l, 'o) worker
    \<Rightarrow> 'h router_node option \<times> callbacks \<times> int \<times> int \<times> bool \<times> ssl_ctx option \<times> bool \<times> int circular_queue" where
  "worker_core w = (wk_router w, wk_callbacks w, wk_signal_fd w, wk_epfd w, wk_use_tls w, wk_ssl_ctx w,
     wk_pending_notify w, wk_socket_queue w)"

text \<open>
  A session that may stand in the map between two events: only a TLS session can be in the middle
  of a handshake, and none is in the states \<open>CONNECTING\<close> and \<open>ESTABLISHING\<close>.
\<close>

definition good_session :: "('n \<Rightarrow> stream_view) \<Rightarrow> ('n, 'h, 'l, 'o) worker \<Rightarrow> ('n, 'h, 'l) session_data \<Rightarrow> bool" where
  "good_session V w sd \<longleftrightarrow>
     session_ok V sd \<and> connected w sd \<and> sd_router sd = wk_router w
     \<and> (sd_state sd = ESTABLISHED \<or> sd_state sd = DISCONNECTING \<or> wk_use_tls w \<and> sd_state sd = TLS_HANDSHAKING)"

definition worker_ok :: "('n \<Rightarrow> stream_view) \<Rightarrow> ('n, 'h, 'l, 'o) worker \<Rightarrow> bool" where
  "worker_ok V w \<longleftrightarrow>
     wk_callbacks w = BoundHere (wk_use_tls w) \<and> (wk_use_tls w \<longrightarrow> wk_ssl_ctx w \<noteq> None)
     \<and> cq_inv (wk_socket_queue w) \<and> (\<forall>s \<in> set (cq_list (wk_socket_queue w)). 0 \<le> s)
     \<and> (\<forall>sock sd. wk_session_map w sock = Some sd \<longrightarrow> good_session V w sd)"

text \<open>What handling an event of a connection leaves: its session, still in the map or taken out.\<close>

definition handled ::
    "('n \<Rightarrow> stream_view) \<Rightarrow> int \<Rightarrow> ('n, 'h, 'l, 'o) worker \<Rightarrow> ('n, 'h, 'l) session_data \<times> ('n, 'h, 'l, 'o) worker \<Rightarrow> bool" where
  "handled V sock w = (\<lambda>(sd', w').
     worker_core w' = worker_core w
     \<and> (wk_session_map w' = (wk_session_map w)(sock := None)
        \<or> wk_session_map w' = wk_session_map w \<and> good_session V w sd'))"

lemma worker_core_simps [simp]:
  "worker_core (w\<lparr>wk_os := os\<rparr>) = worker_core w" "worker_core (w\<lparr>wk_cache := c\<rparr>) = worker_core w"
  "worker_core (w\<lparr>wk_fs := fs\<rparr>) = worker_core w" "worker_core (w\<lparr>wk_session_map := m\<rparr>) = worker_core w"
  by (simp_all add: worker_core_def)

lemma connected_core: "worker_core w' = worker_core w \<Longrightarrow> connected w' sd = connected w sd"
  by (simp add: connected_def worker_core_def)

lemma good_session_core: "worker_core w' = worker_core w \<Longrightarrow> good_session V w' sd = good_session V w sd"
  using connected_core [of w' w sd] by (auto simp: good_session_def worker_core_def)

lemma worker_ok_map:
  assumes "worker_ok V w" "worker_core w' = worker_core w"
    and "\<And>sock sd. wk_session_map w' sock = Some sd \<Longrightarrow> good_session V w sd"
  shows "worker_ok V w'"
  using assms by (simp add: worker_ok_def good_session_core [OF assms(2)]) (simp add: worker_core_def)

lemma worker_ok_fields [simp]:
  "worker_ok V (w\<lparr>wk_os := os\<rparr>) = worker_ok V w" "worker_ok V (w\<lparr>wk_fs := fs\<rparr>) = worker_ok V w"
  "worker_ok V (w\<lparr>wk_cache := c\<rparr>) = worker_ok V w"
  "worker_ok V (w\<lparr>wk_pending_notify := b\<rparr>) = worker_ok V w"
  by (simp_all add: worker_ok_def good_session_def connected_def)

lemma release_core [simp]: "worker_core (release_session pf sock sd w) = worker_core w"
  by (simp add: release_session_def split: option.split)

text \<open>Writing a handled session back keeps the other sessions as they were.\<close>

lemma release_ok:
  fixes w w0 :: "('n, 'h, 'l, 'o) worker"
  assumes "handled V sock w (sd', w')" "worker_ok V w0" "worker_core w = worker_core w0"
    and "\<And>s sd. s \<noteq> sock \<Longrightarrow> wk_session_map w s = Some sd \<Longrightarrow> good_session V w sd"
  shows "worker_ok V (release_session pf sock sd' w')"
proof (rule worker_ok_map [OF assms(2)])
  show "worker_core (release_session pf sock sd' w') = worker_core w0"
    using assms(1,3) by (simp add: handled_def)
  fix s sd assume "wk_session_map (release_session pf sock sd' w') s = Some sd"
  with assms(1,4) show "good_session V w0 sd"
    by (cases "s = sock")
      (auto simp: handled_def release_session_def good_session_core [OF assms(3)] split: option.splits if_splits)
qed

section \<open>Handling an event\<close>

lemma update_event_form:
  "\<exists>e os. update_event pf sock ev sd w = (sd\<lparr>sd_events := e\<rparr>, w\<lparr>wk_os := os\<rparr>)"
proof -
  have "\<exists>os. set_event pf sock ev w = w\<lparr>wk_os := os\<rparr>"
    by (auto simp: set_event_def Let_def case_prod_beta)
  moreover have "(sd, w) = (sd\<lparr>sd_events := sd_events sd\<rparr>, w\<lparr>wk_os := wk_os w\<rparr>)" by simp
  ultimately show ?thesis unfolding update_event_def by metis
qed

lemma session_ok_deref: "session_ok V sd \<Longrightarrow> \<exists>n. deref_session sd = Inr n \<and> sd_session sd = Some n"
  by (auto simp: deref_session_def elim: session_okE)

lemma update_events_form:
  assumes "session_ok V sd" "connected w sd"
  shows "\<exists>e os. update_events pf sock sd w = Inr (sd\<lparr>sd_events := e\<rparr>, w\<lparr>wk_os := os\<rparr>)"
  using session_ok_deref [OF assms(1)] assms(2) update_event_form [of pf sock _ sd w]
  by (auto simp: update_events_def update_events_tls_def update_events_h2c_def deref_ssl_def connected_def)

lemma handshake_events_form:
  assumes "sd_ssl sd \<noteq> None"
  shows "\<exists>e os. update_ssl_handshake_events pf sock sd w = Inr (sd\<lparr>sd_events := e\<rparr>, w\<lparr>wk_os := os\<rparr>)"
  using assms update_event_form [of pf sock _ sd w]
  by (auto simp: update_ssl_handshake_events_def deref_ssl_def Let_def)

lemma disconnect_form:
  "\<exists>c os. disconnect_from_client pf sock sd w =
     (sd\<lparr>sd_is_closed := c\<rparr>, w\<lparr>wk_os := os, wk_session_map := (wk_session_map w)(sock := None)\<rparr>)"
  unfolding disconnect_from_client_def close_session_def Let_def
  by (auto simp: case_prod_beta split: option.split) (rule exI [of _ "sd_is_closed sd"], simp)+

lemma disconnect_handled:
  "worker_core w' = worker_core w \<Longrightarrow> wk_session_map w' = wk_session_map w \<Longrightarrow>
   handled V sock w (disconnect_from_client pf sock sd w')"
  using disconnect_form [of pf sock sd w'] by (auto simp: handled_def)

lemma should_close_form: "session_ok V sd \<Longrightarrow> \<exists>b. should_close_after_disconnect ng sd = Inr b"
  using session_ok_deref [of V sd] by (auto simp: should_close_after_disconnect_def)

text \<open>The session and the worker in the middle of an event: the map still has the connection.\<close>

definition in_event ::
    "('n \<Rightarrow> stream_view) \<Rightarrow> ('n, 'h, 'l) session_data \<Rightarrow> ('n, 'h, 'l, 'o) worker
      \<Rightarrow> io_result \<times> ('n, 'h, 'l) session_data \<times> ('n, 'h, 'l, 'o) worker \<Rightarrow> bool" where
  "in_event V sd w = (\<lambda>(r, sd', w').
     conn_ok V sd sd' \<and> worker_core w' = worker_core w \<and> wk_session_map w' = wk_session_map w)"

lemma in_eventI:
  "conn_ok V sd sd1 \<Longrightarrow> conn_ok V sd1 sd2 \<Longrightarrow> worker_core w' = worker_core w \<Longrightarrow>
   wk_session_map w' = wk_session_map w \<Longrightarrow> in_event V sd w (r, sd2, w')"
  by (simp add: in_event_def conn_ok_trans)

lemma conn_connected: "conn_ok V sd sd' \<Longrightarrow> worker_core w' = worker_core w \<Longrightarrow> connected w sd \<Longrightarrow> connected w' sd'"
  by (simp add: conn_ok_def evolves_def connected_def worker_core_def)

lemma finish_io_ends:
  assumes "in_event V sd w (r, sd1, w1)" "connected w sd"
  shows "ends (in_event V sd w) (finish_io pf sock r sd1 w1)"
proof -
  from assms have s: "session_ok V sd1" and c: "connected w1 sd1"
    by (auto simp: in_event_def conn_ok_def intro: conn_connected)
  obtain e os where u: "update_events pf sock sd1 w1 = Inr (sd1\<lparr>sd_events := e\<rparr>, w1\<lparr>wk_os := os\<rparr>)"
    using update_events_form [OF s c] by blast
  obtain b where "should_close_after_disconnect (pf_ng pf) (sd1\<lparr>sd_events := e\<rparr>) = Inr b"
    using should_close_form [of V "sd1\<lparr>sd_events := e\<rparr>"] s by auto
  with u assms(1) show ?thesis by (auto simp: finish_io_def in_event_def conn_ok_def)
qed

lemma handle_read_ends:
  assumes "platform_ok pf prov patience work" "session_ok (pf_view pf prov) sd" "connected w sd"
  shows "ends (in_event (pf_view pf prov) sd w) (handle_read pf sock sd w)"
  unfolding handle_read_def
proof (rule ends_rbind [OF fill_input_ends [OF assms(1,3,2)]], clarify)
  let ?V = "pf_view pf prov"
  fix r sd1 os
  assume c1: "conn_ok ?V sd sd1"
  let ?w1 = "w\<lparr>wk_os := os\<rparr>"
  have feed: "ends (\<lambda>(r, cx'). conn_ok ?V sd1 (cx_session cx')) (feed_input_buffer pf (worker_context sd1 ?w1))"
    using feed_input_ends [OF assms(1), of "worker_context sd1 ?w1"] c1 by (simp add: worker_context_def conn_ok_def)
  have stop: "in_event ?V sd w (SHUTDOWN, sd1, ?w1)" using c1 by (simp add: in_event_def)
  show "ends (in_event ?V sd w)
      (if r = SHUTDOWN then Some (Inr (SHUTDOWN, sd1, ?w1))
       else rbind (feed_input_buffer pf (worker_context sd1 ?w1)) (\<lambda>(feed_result, cx).
              let sd2 = cx_session cx; w2 = ?w1\<lparr>wk_cache := cx_cache cx, wk_fs := cx_fs cx\<rparr> in
              if feed_result = SHUTDOWN then Some (Inr (SHUTDOWN, sd2, w2))
              else finish_io pf sock SUCCESS sd2 w2))"
    using stop by (auto simp: Let_def intro!: ends_rbind [OF feed] finish_io_ends [OF _ assms(3)] in_eventI [OF c1])
qed

lemma handle_write_ends:
  assumes "platform_ok pf prov patience work" "session_ok (pf_view pf prov) sd" "connected w sd"
  shows "ends (in_event (pf_view pf prov) sd w) (handle_write pf sock sd w)"
  unfolding handle_write_def
proof (rule ends_rbind)
  let ?V = "pf_view pf prov"
  show "ends (\<lambda>cx. conn_ok ?V sd (cx_session cx)) (fill_output_buffer pf (worker_context sd w))"
    using fill_output_ends [OF assms(1), of "worker_context sd w"] assms(2) by (simp add: worker_context_def)
  fix cx assume c1: "conn_ok ?V sd (cx_session cx)"
  let ?sd = "cx_session cx" and ?w = "w\<lparr>wk_cache := cx_cache cx, wk_fs := cx_fs cx\<rparr>"
  have "connected ?w ?sd" by (rule conn_connected [OF c1 _ assms(3)]) simp
  with c1 have flush: "ends (\<lambda>(r, sd', w'). conn_ok ?V ?sd sd' \<and> (\<exists>os. w' = ?w\<lparr>wk_os := os\<rparr>))
      (flush_output_buffer pf sock ?sd ?w)"
    by (intro flush_output_ends [OF assms(1)]) (simp_all add: conn_ok_def)
  show "ends (in_event ?V sd w) (let sd1 = ?sd; w1 = ?w in
      rbind (flush_output_buffer pf sock sd1 w1) (\<lambda>(result, sd2, w2).
        if result = SHUTDOWN then Some (Inr (SHUTDOWN, sd2, w2)) else finish_io pf sock result sd2 w2))"
    unfolding Let_def
    by (auto intro!: ends_rbind [OF flush] finish_io_ends [OF _ assms(3)] in_eventI [OF c1])
qed

lemma good_evolves: "good_session V w sd \<Longrightarrow> conn_ok V sd sd' \<Longrightarrow> sd_state sd \<noteq> TLS_HANDSHAKING \<Longrightarrow> good_session V w sd'"
  by (auto simp: good_session_def conn_ok_def evolves_def connected_def)

lemma in_event_step:
  assumes "in_event V sd w (r1, sd1, w1)" "ends (in_event V sd1 w1) m"
  shows "ends (in_event V sd w) m"
  using assms by (elim ends_mono) (auto simp: in_event_def intro: conn_ok_trans)

lemma handle_events_ends:
  assumes "platform_ok pf prov patience work" "good_session (pf_view pf prov) w sd" "sd_state sd \<noteq> TLS_HANDSHAKING"
  shows "ends (handled (pf_view pf prov) sock w) (handle_events pf ev sock sd w)"
  unfolding handle_events_def Let_def
proof (rule ends_rbind)
  let ?V = "pf_view pf prov"
  from assms(2) have s: "session_ok ?V sd" and c: "connected w sd" by (simp_all add: good_session_def)
  from handle_read_ends [OF assms(1) s c] s
  show "ends (in_event ?V sd w)
      (if ev AND EPOLLIN \<noteq> 0 \<or> check_close_event ev then handle_read pf sock sd w else Some (Inr (SUCCESS, sd, w)))"
    by (simp add: in_event_def conn_ok_def)
  fix x assume i1: "in_event ?V sd w x"
  obtain r1 sd1 w1 where x: "x = (r1, sd1, w1)" by (metis surj_pair)
  from i1 x c have s1: "session_ok ?V sd1" and c1: "connected w1 sd1"
    by (auto simp: in_event_def conn_ok_def intro: conn_connected)
  obtain n where n: "sd_session sd1 = Some n" using s1 by (rule session_okE)
  have m: "ends (in_event ?V sd w) (if r1 = SUCCESS then
         (case sd_session sd1 of None \<Rightarrow> Some (Inl NullDeref)
          | Some n \<Rightarrow> if ev AND EPOLLOUT \<noteq> 0 \<or> sd_output_buffer sd1 \<noteq> [] \<or> ng_want_write (pf_ng pf) n
              then handle_write pf sock sd1 w1 else Some (Inr (r1, sd1, w1)))
       else Some (Inr (r1, sd1, w1)))"
    using i1 n in_event_step [OF i1 [unfolded x] handle_write_ends [OF assms(1) s1 c1]]
    by (cases "r1 = SUCCESS") (auto simp: x)
  show "ends (handled ?V sock w) (case x of (r1, sd1, w1) \<Rightarrow>
      rbind (if r1 = SUCCESS then
         (case sd_session sd1 of None \<Rightarrow> Some (Inl NullDeref)
          | Some n \<Rightarrow> if ev AND EPOLLOUT \<noteq> 0 \<or> sd_output_buffer sd1 \<noteq> [] \<or> ng_want_write (pf_ng pf) n
              then handle_write pf sock sd1 w1 else Some (Inr (r1, sd1, w1)))
       else Some (Inr (r1, sd1, w1))) (\<lambda>(r2, sd2, w2).
         Some (Inr (if r2 = SHUTDOWN \<or> check_close_event ev then disconnect_from_client pf sock sd2 w2
                    else (sd2, w2)))))"
    unfolding x prod.case
  proof (rule ends_rbind [OF m], clarify)
    fix r2 sd2 w2 assume "in_event ?V sd w (r2, sd2, w2)"
    then show "ends (handled ?V sock w) (Some (Inr (if r2 = SHUTDOWN \<or> check_close_event ev
        then disconnect_from_client pf sock sd2 w2 else (sd2, w2))))"
      using good_evolves [OF assms(2) _ assms(3)] disconnect_handled [of w2 w ?V sock pf sd2]
      by (auto simp: in_event_def handled_def)
  qed
qed

section \<open>Setting up a connection\<close>

lemma establish_form:
  assumes "ng_laws ng prov" "session_ok (view ng prov) sd"
  shows "\<exists>st n. establish_connection ng sd = Inr (st, sd\<lparr>sd_session := Some n\<rparr>) \<and> st \<in> {DISCONNECTING, ESTABLISHED}
    \<and> session_ok (view ng prov) (sd\<lparr>sd_session := Some n\<rparr>)"
proof -
  from assms(2) obtain n where n: "sd_session sd = Some n" and ok: "streams_ok (view ng prov n) sd" by (rule session_okE)
  let ?n = "snd (ng_submit_settings ng n [(NGHTTP2_SETTINGS_MAX_CONCURRENT_STREAMS, 100)])"
  have "view ng prov ?n = view ng prov n" using assms(1) by (simp add: ng_laws_def)
  with ok have "session_ok (view ng prov) (sd\<lparr>sd_session := Some ?n\<rparr>)" by (simp add: session_ok_def)
  with n show ?thesis
    by (auto simp: establish_connection_def send_server_connection_header_def deref_session_def Let_def case_prod_beta)
qed

text \<open>Establishing a session whose handshake, if any, is complete.\<close>

lemma establish_handled:
  assumes "ng_laws (pf_ng pf) prov" "session_ok (pf_view pf prov) sd1" "connected w1 sd1" "sd_router sd1 = wk_router w"
    and "worker_core w1 = worker_core w" "wk_session_map w1 = wk_session_map w"
  shows "ends (handled (pf_view pf prov) sock w) (Some (obind (establish_connection (pf_ng pf) sd1) (\<lambda>(st, sd2).
      if st = DISCONNECTING then Inr (disconnect_from_client pf sock sd2 w1)
      else update_events pf sock (sd2\<lparr>sd_state := st\<rparr>) w1)))"
proof -
  let ?V = "pf_view pf prov"
  from establish_form [OF assms(1,2)] obtain st n where
    e: "establish_connection (pf_ng pf) sd1 = Inr (st, sd1\<lparr>sd_session := Some n\<rparr>)" "st \<in> {DISCONNECTING, ESTABLISHED}"
    and s: "session_ok ?V (sd1\<lparr>sd_session := Some n\<rparr>)" by blast
  let ?sd = "sd1\<lparr>sd_session := Some n, sd_state := st\<rparr>"
  from s assms(3) have "session_ok ?V ?sd" "connected w1 ?sd" by (simp_all add: connected_def)
  from update_events_form [OF this] obtain ev os where
    u: "update_events pf sock ?sd w1 = Inr (?sd\<lparr>sd_events := ev\<rparr>, w1\<lparr>wk_os := os\<rparr>)" by blast
  have "good_session ?V w (?sd\<lparr>sd_events := ev\<rparr>)" if "st = ESTABLISHED"
    using that s assms(3,4) by (simp add: good_session_def connected_core [OF assms(5)]) (simp add: connected_def)
  with e u assms(5,6) disconnect_handled [OF assms(5,6)] show ?thesis by (auto simp: handled_def)
qed

lemma do_handshake_form:
  assumes "sd_ssl sd \<noteq> None"
  shows "\<exists>st e os. do_tls_handshake pf sock sd w = Inr (st, sd\<lparr>sd_events := e\<rparr>, w\<lparr>wk_os := os\<rparr>)
    \<and> st \<in> {ESTABLISHING, DISCONNECTING, TLS_HANDSHAKING}"
proof -
  from assms obtain s where s: "sd_ssl sd = Some s" by blast
  obtain err os1 where a: "ssl_accept (pf_sys pf) (wk_os w) s = (err, os1)" by fastforce
  have same: "sd = sd\<lparr>sd_events := sd_events sd\<rparr>" by simp
  show ?thesis
  proof (cases "\<exists>e. err = Some e \<and> (e = SSL_ERROR_WANT_READ \<or> e = SSL_ERROR_WANT_WRITE)")
    case True
    with s a handshake_events_form [OF assms, of pf sock "w\<lparr>wk_os := os1\<rparr>"] show ?thesis
      by (auto simp: do_tls_handshake_def deref_ssl_def Let_def)
  next
    case False
    then obtain st where "do_tls_handshake pf sock sd w = Inr (st, sd, w\<lparr>wk_os := os1\<rparr>)" "st \<in> {ESTABLISHING, DISCONNECTING}"
      using s a by (cases err) (auto simp: do_tls_handshake_def deref_ssl_def Let_def)
    with same show ?thesis by (intro exI [of _ st] exI [of _ "sd_events sd"] exI [of _ os1]) auto
  qed
qed

lemma handle_tls_handshake_ends:
  assumes "platform_ok pf prov patience work" "good_session (pf_view pf prov) w sd" "sd_state sd = TLS_HANDSHAKING"
  shows "ends (handled (pf_view pf prov) sock w) (Some (handle_tls_handshake pf sock sd w))"
proof -
  let ?V = "pf_view pf prov"
  from assms(2,3) have s: "session_ok ?V sd" "sd_ssl sd \<noteq> None" "connected w sd" "sd_router sd = wk_router w"
    by (auto simp: good_session_def connected_def)
  from do_handshake_form [OF s(2), of pf sock w] obtain st e os where
    d: "do_tls_handshake pf sock sd w = Inr (st, sd\<lparr>sd_events := e\<rparr>, w\<lparr>wk_os := os\<rparr>)"
    "st \<in> {ESTABLISHING, DISCONNECTING, TLS_HANDSHAKING}" by blast
  let ?sd = "sd\<lparr>sd_events := e\<rparr>" and ?w = "w\<lparr>wk_os := os\<rparr>"
  have dis: "handled ?V sock w (disconnect_from_client pf sock ?sd ?w)" by (rule disconnect_handled) simp_all
  have good: "handled ?V sock w (?sd, ?w)" using assms(2) by (simp add: handled_def good_session_def connected_def)
  have est: "ends (handled ?V sock w) (Some (obind (establish_connection (pf_ng pf) ?sd) (\<lambda>(st2, sd2).
      if st2 = DISCONNECTING then Inr (disconnect_from_client pf sock sd2 ?w)
      else update_events pf sock (sd2\<lparr>sd_state := st2\<rparr>) ?w)))"
    by (rule establish_handled [OF platform_okD(2) [OF assms(1)]]) (use s in \<open>simp_all add: connected_def\<close>)
  from d dis good est show ?thesis
    by (auto simp: handle_tls_handshake_def should_disconnect_def)
qed

lemma handle_tls_accept_cases:
  assumes "platform_ok pf prov patience work" "wk_ssl_ctx w \<noteq> None"
  obtains (complete) s e os where
      "handle_tls_accept pf sock sd w = Inr (True, sd\<lparr>sd_ssl := Some s, sd_events := e\<rparr>, w\<lparr>wk_os := os\<rparr>)"
  | (wait) s e os where
      "handle_tls_accept pf sock sd w =
         Inr (False, sd\<lparr>sd_ssl := Some s, sd_events := e, sd_state := TLS_HANDSHAKING\<rparr>, w\<lparr>wk_os := os\<rparr>)"
  | (failed) sd' os where
      "handle_tls_accept pf sock sd w = Inr (False, disconnect_from_client pf sock sd' (w\<lparr>wk_os := os\<rparr>))"
proof -
  from assms(2) obtain c where c: "wk_ssl_ctx w = Some c" by blast
  obtain s os1 where n: "ssl_new (pf_sys pf) (wk_os w) (wk_ssl_ctx w) = (Some s, os1)"
    using platform_okD(11) [OF assms(1), of "wk_os w" c] c by (metis not_None_eq prod.collapse)
  let ?sd = "sd\<lparr>sd_ssl := Some s\<rparr>" and ?w = "w\<lparr>wk_os := ssl_set_fd (pf_sys pf) os1 s sock\<rparr>"
  from do_handshake_form [of ?sd pf sock ?w] obtain st e os where
    d: "do_tls_handshake pf sock ?sd ?w = Inr (st, ?sd\<lparr>sd_events := e\<rparr>, ?w\<lparr>wk_os := os\<rparr>)"
    "st \<in> {ESTABLISHING, DISCONNECTING, TLS_HANDSHAKING}" by auto
  have eq: "handle_tls_accept pf sock sd w =
      (if st = DISCONNECTING then Inr (False, disconnect_from_client pf sock (?sd\<lparr>sd_events := e\<rparr>) (w\<lparr>wk_os := os\<rparr>))
       else if st = TLS_HANDSHAKING then Inr (False, ?sd\<lparr>sd_events := e, sd_state := TLS_HANDSHAKING\<rparr>, w\<lparr>wk_os := os\<rparr>)
       else Inr (True, ?sd\<lparr>sd_events := e\<rparr>, w\<lparr>wk_os := os\<rparr>))"
    using n d(1) by (simp add: handle_tls_accept_def Let_def case_prod_beta)
  consider "st = DISCONNECTING" | "st = TLS_HANDSHAKING" | "st = ESTABLISHING" using d(2) by blast
  then show ?thesis
  proof cases
    case 1
    with eq show ?thesis by (intro failed) simp
  next
    case 2
    with eq show ?thesis by (intro wait) simp
  next
    case 3
    with eq show ?thesis by (intro complete) simp
  qed
qed

lemma admit_ends:
  assumes "platform_ok pf prov patience work" "session_ok (pf_view pf prov) sd" "sd_router sd = wk_router w"
    and "wk_use_tls w \<longrightarrow> wk_ssl_ctx w \<noteq> None" "wk_callbacks w = BoundHere (wk_use_tls w)"
  shows "ends (handled (pf_view pf prov) sock w) (Some (admit_connection pf sock sd w))"
proof -
  let ?V = "pf_view pf prov"
  have est: "ends (handled ?V sock w) (Some (obind (establish_connection (pf_ng pf) sd1) (\<lambda>(st, sd2).
      if st = DISCONNECTING then Inr (disconnect_from_client pf sock sd2 (w\<lparr>wk_os := os\<rparr>))
      else update_events pf sock (sd2\<lparr>sd_state := st\<rparr>) (w\<lparr>wk_os := os\<rparr>))))"
    if "session_ok ?V sd1" "connected w sd1" "sd_router sd1 = wk_router w" for sd1 os
    by (rule establish_handled [OF platform_okD(2) [OF assms(1)]]) (use that in \<open>simp_all add: connected_def\<close>)
  show ?thesis
  proof (cases "wk_use_tls w")
    case False
    have "w\<lparr>wk_os := wk_os w\<rparr> = w" by simp
    with False est [of sd "wk_os w"] assms(2,3,5) show ?thesis by (simp only: admit_connection_def connected_def) simp
  next
    case True
    with assms(4) have "wk_ssl_ctx w \<noteq> None" by simp
    from assms(1) this show ?thesis
    proof (cases rule: handle_tls_accept_cases [where sock = sock and sd = sd])
      case (complete s e os)
      with True est [of "sd\<lparr>sd_ssl := Some s, sd_events := e\<rparr>" os] assms(2,3,5) show ?thesis
        by (simp add: admit_connection_def connected_def)
    next
      case (wait s e os)
      with True assms(2,3,5) show ?thesis
        by (simp add: admit_connection_def handled_def good_session_def connected_def)
    next
      case (failed sd' os)
      with True disconnect_handled [of "w\<lparr>wk_os := os\<rparr>" w ?V sock pf sd'] show ?thesis
        by (auto simp: admit_connection_def split: prod.split)
    qed
  qed
qed

lemma new_session_ok:
  assumes "ng_laws ng prov" "init_session_data ng new_session_data = (0, sd)"
  shows "session_ok (view ng prov) sd"
  using assms
  by (auto simp: init_session_data_def ng_laws_def new_session_data_def session_ok_def streams_ok_def ids_def ctxs_ok_def
      case_prod_beta split: if_splits)

lemma new_connection_ends:
  fixes pf :: "('n, app_handler, 'l, 'o) platform"
  assumes "platform_ok pf prov patience work" "worker_ok (pf_view pf prov) w"
  shows "ends (\<lambda>w'. worker_ok (pf_view pf prov) w' \<and> worker_core w' = worker_core w) (Some (new_connection pf sock w))"
proof -
  let ?V = "pf_view pf prov"
  obtain rv and sd0 :: "('n, app_handler, 'l) session_data" where i: "init_session_data (pf_ng pf) new_session_data = (rv, sd0)" by fastforce
  let ?sd = "sd0\<lparr>sd_router := wk_router w\<rparr>"
  let ?w = "if wk_session_map w sock = None then w\<lparr>wk_session_map := (wk_session_map w)(sock \<mapsto> ?sd)\<rparr> else w"
  show ?thesis
  proof (cases "rv = 0")
    case False
    with assms(2) i show ?thesis by (simp add: new_connection_def)
  next
    case True
    have "session_ok ?V ?sd" using new_session_ok [OF platform_okD(2) [OF assms(1)]] i True by simp
    moreover have "wk_use_tls ?w \<longrightarrow> wk_ssl_ctx ?w \<noteq> None" "wk_callbacks ?w = BoundHere (wk_use_tls ?w)"
      using assms(2) by (simp_all add: worker_ok_def)
    ultimately have a: "ends (handled ?V sock ?w) (Some (admit_connection pf sock ?sd ?w))"
      by (intro admit_ends [OF assms(1)]) simp_all
    have others: "good_session ?V ?w sd" if "s \<noteq> sock" "wk_session_map ?w s = Some sd" for s sd
      using that assms(2) by (simp add: worker_ok_def good_session_def connected_def split: if_splits)
    have rest: "ends (\<lambda>w'. worker_ok ?V w' \<and> worker_core w' = worker_core w)
        (Some (Inr (if wk_session_map w sock = None then release_session pf sock sd' w'
          else w'\<lparr>wk_fs := destroy_session (pf_host pf) sd' (wk_fs w')\<rparr>)))"
      if h: "handled ?V sock ?w (sd', w')" for sd' w'
    proof -
      have core: "worker_core w' = worker_core w" using h by (simp add: handled_def split: if_splits)
      have "worker_ok ?V (release_session pf sock sd' w')"
        by (rule release_ok [OF h assms(2) _ others]) simp_all
      moreover have "worker_ok ?V w'" if "wk_session_map w sock \<noteq> None"
        by (rule worker_ok_map [OF assms(2) core])
          (use h that assms(2) in \<open>auto simp: handled_def worker_ok_def split: if_splits\<close>)
      ultimately show ?thesis using core by simp
    qed
    have "new_connection pf sock w = obind (admit_connection pf sock ?sd ?w) (\<lambda>(sd', w').
        Inr (if wk_session_map w sock = None then release_session pf sock sd' w'
             else w'\<lparr>wk_fs := destroy_session (pf_host pf) sd' (wk_fs w')\<rparr>))"
      using i True by (simp add: new_connection_def Let_def)
    then show ?thesis using ends_obind [OF a, of _ "\<lambda>(sd', w').
        Inr (if wk_session_map w sock = None then release_session pf sock sd' w'
             else w'\<lparr>wk_fs := destroy_session (pf_host pf) sd' (wk_fs w')\<rparr>)"] rest by (simp add: split_paired_all)
  qed
qed

section \<open>The events of a batch\<close>

lemma dequeue_form:
  assumes "cq_inv (wk_socket_queue w)"
  shows "dequeue_sock w = Inr (if cq_list (wk_socket_queue w) = [] then (- 1, w)
      else (hd (cq_list (wk_socket_queue w)), w\<lparr>wk_socket_queue := snd (pop (wk_socket_queue w))\<rparr>))"
  using cq.is_empty_iff [OF assms] cq.front_ok [OF assms] by (simp add: dequeue_sock_def)

lemma handle_new_connections_ends:
  assumes "platform_ok pf prov patience work" "worker_ok (pf_view pf prov) w"
  shows "ends (\<lambda>w'. worker_ok (pf_view pf prov) w' \<and> cq_list (wk_socket_queue w') = []) (handle_new_connections pf w)"
  using assms(2)
proof (induction "length (cq_list (wk_socket_queue w))" arbitrary: w rule: less_induct)
  case less
  let ?V = "pf_view pf prov" and ?q = "wk_socket_queue w"
  note eq = handle_new_connections.simps [of pf w]
  from less.prems have inv: "cq_inv ?q" "\<forall>s \<in> set (cq_list ?q). 0 \<le> s" by (simp_all add: worker_ok_def)
  show ?case
  proof (cases "cq_list ?q = []")
    case True
    with less.prems dequeue_form [OF inv(1)] show ?thesis by (simp add: eq)
  next
    case False
    let ?s = "hd (cq_list ?q)" and ?w = "w\<lparr>wk_socket_queue := snd (pop ?q)\<rparr>"
    have s: "0 \<le> ?s" using False inv(2) by simp
    note pop = cq.pop_ok [OF inv(1) False]
    have w1: "worker_ok ?V ?w"
      using less.prems pop by (auto simp: worker_ok_def good_session_def connected_def dest: list.set_sel(2) [OF False])
    from new_connection_ends [OF assms(1) w1, of ?s] show ?thesis
    proof (cases rule: ends_cases)
      case (fault e)
      with False s dequeue_form [OF inv(1)] show ?thesis by (simp add: eq)
    next
      case (result w2)
      then have "wk_socket_queue w2 = snd (pop ?q)" by (simp add: worker_core_def)
      with pop False have "length (cq_list (wk_socket_queue w2)) < length (cq_list ?q)" by simp
      from less.hyps [OF this] result False s dequeue_form [OF inv(1)] show ?thesis by (simp add: eq)
    qed
  qed
qed

lemma flush_signal_ends: "progress sy patience \<Longrightarrow> \<exists>os'. flush_signal sy fd os = Some os'"
proof (induction "patience os" arbitrary: os rule: less_induct)
  case less
  obtain r os1 where r: "sys_read sy os fd 8 = (r, os1)" by fastforce
  note eq = flush_signal.simps [of sy fd os]
  show ?case
  proof (cases "\<exists>data. r = ReadBytes data \<and> length data = 8")
    case True
    then have "read_goes_on r" by auto
    with less.prems r have "patience os1 < patience os" unfolding progress_def by blast
    with less True r show ?thesis by (auto simp: eq)
  next
    case False
    with r show ?thesis by (cases r) (auto simp: eq)
  qed
qed

lemma handle_signal_ends:
  assumes "platform_ok pf prov patience work" "worker_ok (pf_view pf prov) w"
  shows "ends (worker_ok (pf_view pf prov)) (handle_signal pf w)"
proof -
  let ?V = "pf_view pf prov"
  obtain os1 where f: "flush_signal (pf_sys pf) (wk_signal_fd w) (wk_os w) = Some os1"
    using flush_signal_ends [OF platform_okD(8) [OF assms(1)]] by blast
  have "worker_ok ?V (w\<lparr>wk_os := os1\<rparr>)" using assms(2) by simp
  from handle_new_connections_ends [OF assms(1) this] show ?thesis
  proof (cases rule: ends_cases)
    case (fault e)
    with f show ?thesis by (simp add: handle_signal.simps [of pf w] signal_round_def)
  next
    case (result w1)
    then have "cq_inv (wk_socket_queue w1)" by (simp add: worker_ok_def)
    with result have "is_empty (wk_socket_queue w1)" by (simp add: cq.is_empty_iff)
    with f result show ?thesis by (simp add: handle_signal.simps [of pf w] signal_round_def signal_again_def)
  qed
qed

lemma handle_client_event_ends:
  assumes "platform_ok pf prov patience work" "worker_ok (pf_view pf prov) w"
  shows "ends (worker_ok (pf_view pf prov)) (handle_client_event pf ev sock w)"
proof (cases "wk_session_map w sock")
  case None
  with assms(2) show ?thesis by (simp add: handle_client_event_def)
next
  case (Some sd)
  let ?V = "pf_view pf prov"
  have good: "good_session ?V w sd'" if "wk_session_map w s = Some sd'" for s sd'
    using assms(2) that by (simp add: worker_ok_def)
  have "ends (handled ?V sock w) (if sd_state sd = TLS_HANDSHAKING then Some (handle_tls_handshake pf sock sd w)
      else handle_events pf ev sock sd w)"
    using handle_tls_handshake_ends [OF assms(1) good [OF Some]] handle_events_ends [OF assms(1) good [OF Some]] by simp
  moreover have "ends (worker_ok ?V) (case x of (sd', w') \<Rightarrow> Some (Inr (release_session pf sock sd' w')))"
    if "handled ?V sock w x" for x
    using that release_ok [OF _ assms(2) refl good] by (cases x) simp
  ultimately show ?thesis using Some by (auto simp: handle_client_event_def intro: ends_rbind)
qed

lemma handle_event_list_ends:
  assumes "platform_ok pf prov patience work" "worker_ok (pf_view pf prov) w"
  shows "ends (worker_ok (pf_view pf prov)) (handle_event_list pf evs w)"
  using assms(2)
proof (induction evs arbitrary: w)
  case (Cons x evs)
  obtain ev fd where x: "x = (ev, fd)" by fastforce
  have "ends (worker_ok (pf_view pf prov)) (if fd = wk_signal_fd w then handle_signal pf w else handle_client_event pf ev fd w)"
    using handle_signal_ends [OF assms(1) Cons.prems] handle_client_event_ends [OF assms(1) Cons.prems] by simp
  then show ?case unfolding x handle_event_list.simps by (rule ends_rbind) (rule Cons.IH)
qed simp

text \<open>
  A worker as it runs: it is created, its thread starts up, and from then on it handles the batches
  that \<open>epoll_wait\<close> reports, whose wait may be interrupted; the acceptor hands sockets to it at any
  time. The flag says whether the thread has started up.
\<close>

inductive worker_reach ::
    "('n, 'h, 'l, 'o) platform \<Rightarrow> string \<Rightarrow> string \<Rightarrow> ('n, 'h, 'l, 'o) worker \<Rightarrow> bool \<Rightarrow> ('n, 'h, 'l, 'o) worker \<Rightarrow> bool"
  for pf key_path cert_path w0 where
  created: "worker_reach pf key_path cert_path w0 False w0"
| socket: "worker_reach pf key_path cert_path w0 up w \<Longrightarrow> 0 \<le> sock \<Longrightarrow>
    enqueue_sock pf sock (w\<lparr>wk_os := os\<rparr>) = Some (Inr (ok, w')) \<Longrightarrow> worker_reach pf key_path cert_path w0 up w'"
| started: "worker_reach pf key_path cert_path w0 False w \<Longrightarrow> startup pf (w\<lparr>wk_os := os\<rparr>) = (True, w1) \<Longrightarrow>
    worker_reach pf key_path cert_path w0 True
      (if wk_use_tls w1 then w1\<lparr>wk_ssl_ctx := fst (create_ssl_ctx (pf_ssl pf) key_path cert_path)\<rparr> else w1)"
| batch: "worker_reach pf key_path cert_path w0 True w \<Longrightarrow>
    sys_epoll_wait (pf_sys pf) (wk_os w) (wk_epfd w) = (Inr evs, os) \<Longrightarrow>
    handle_event_list pf evs (w\<lparr>wk_os := os\<rparr>) = Some (Inr w') \<Longrightarrow> worker_reach pf key_path cert_path w0 True w'"
| interrupted: "worker_reach pf key_path cert_path w0 True w \<Longrightarrow>
    sys_epoll_wait (pf_sys pf) (wk_os w) (wk_epfd w) = (Inl EINTR, os) \<Longrightarrow>
    worker_reach pf key_path cert_path w0 True (w\<lparr>wk_os := os\<rparr>)"

text \<open>Before its thread has started up a worker has no sessions, only a queue.\<close>

definition idle_ok :: "('n \<Rightarrow> stream_view) \<Rightarrow> ('n, 'h, 'l, 'o) worker \<Rightarrow> bool" where
  "idle_ok V w \<longleftrightarrow>
     wk_session_map w = Map.empty \<and> (\<forall>ctx. worker_ok V (w\<lparr>wk_ssl_ctx := Some ctx\<rparr>))"

text \<open>What the invariant depends on, besides the queue.\<close>

definition worker_rest :: "('n, 'h, 'l, 'o) worker
    \<Rightarrow> 'h router_node option \<times> callbacks \<times> bool \<times> ssl_ctx option \<times> (int \<rightharpoonup> ('n, 'h, 'l) session_data)" where
  "worker_rest w = (wk_router w, wk_callbacks w, wk_use_tls w, wk_ssl_ctx w, wk_session_map w)"

lemma worker_ok_cong:
  assumes "worker_rest w' = worker_rest w" "cq_inv (wk_socket_queue w')"
    and "\<forall>s \<in> set (cq_list (wk_socket_queue w')). 0 \<le> s"
  shows "worker_ok V w \<Longrightarrow> worker_ok V w'" "idle_ok V w \<Longrightarrow> idle_ok V w'"
  using assms by (auto simp: worker_rest_def worker_ok_def idle_ok_def good_session_def connected_def)

lemma enqueue_form:
  assumes "cq_inv (wk_socket_queue w)" "enqueue_sock pf sock w = Some (Inr (ok, w'))"
  shows "worker_rest w' = worker_rest w \<and> cq_inv (wk_socket_queue w')
    \<and> set (cq_list (wk_socket_queue w')) \<subseteq> insert sock (set (cq_list (wk_socket_queue w)))"
proof -
  obtain b q' where p: "push (wk_socket_queue w) sock = Inr (b, q')" "cq_inv q'"
    "cq_list q' = (if length (cq_list (wk_socket_queue w)) < cq_room (wk_socket_queue w)
       then cq_list (wk_socket_queue w) @ [sock] else cq_list (wk_socket_queue w))"
    using cq.push_step [OF assms(1), of sock] by metis
  have "worker_rest w' = worker_rest w \<and> wk_socket_queue w' = q'"
    using assms(2) p(1) by (auto simp: enqueue_sock_def worker_rest_def Let_def split: if_splits option.splits)
  with p show ?thesis by auto
qed

lemma enqueue_worker_ok:
  assumes "0 \<le> sock" "enqueue_sock pf sock w = Some (Inr (ok, w'))"
  shows "worker_ok V w \<Longrightarrow> worker_ok V w'" "idle_ok V w \<Longrightarrow> wk_use_tls w' = wk_use_tls w \<and> idle_ok V w'"
proof -
  have inv: "cq_inv (wk_socket_queue w) \<and> (\<forall>s \<in> set (cq_list (wk_socket_queue w)). 0 \<le> s)"
    if "worker_ok V w \<or> idle_ok V w" using that by (auto simp: worker_ok_def idle_ok_def)
  have form: "worker_rest w' = worker_rest w" "cq_inv (wk_socket_queue w')"
    "\<forall>s \<in> set (cq_list (wk_socket_queue w')). 0 \<le> s" if "worker_ok V w \<or> idle_ok V w"
    using enqueue_form [OF _ assms(2)] inv [OF that] assms(1) by auto
  show "worker_ok V w \<Longrightarrow> worker_ok V w'" using worker_ok_cong(1) [OF form] by blast
  show "idle_ok V w \<Longrightarrow> wk_use_tls w' = wk_use_tls w \<and> idle_ok V w'"
    using worker_ok_cong(2) [OF form] form(1) by (simp add: worker_rest_def)
qed

lemma startup_form:
  "startup pf w = (ok, w1) \<Longrightarrow> worker_rest w1 = worker_rest w \<and> wk_socket_queue w1 = wk_socket_queue w"
  by (auto simp: startup_def worker_rest_def Let_def case_prod_beta split: if_splits)

lemma reach_ok:
  assumes "worker_reach pf key_path cert_path w0 up w" "platform_ok pf prov patience work"
    and "idle_ok (pf_view pf prov) w0"
    and "wk_use_tls w0 \<longrightarrow> fst (create_ssl_ctx (pf_ssl pf) key_path cert_path) \<noteq> None"
  shows "if up then worker_ok (pf_view pf prov) w else wk_use_tls w = wk_use_tls w0 \<and> idle_ok (pf_view pf prov) w"
  using assms
proof (induction rule: worker_reach.induct)
  case (socket up w sock os ok w')
  have "worker_ok (pf_view pf prov) (w\<lparr>wk_os := os\<rparr>) = worker_ok (pf_view pf prov) w"
    "idle_ok (pf_view pf prov) (w\<lparr>wk_os := os\<rparr>) = idle_ok (pf_view pf prov) w"
    by (simp_all add: idle_ok_def worker_ok_def good_session_def connected_def)
  with socket enqueue_worker_ok [OF socket.hyps(2,3), of "pf_view pf prov"] show ?case by simp
next
  case (started w os w1)
  from startup_form [OF started.hyps(2)] have f: "wk_use_tls w1 = wk_use_tls w" "wk_callbacks w1 = wk_callbacks w"
    "wk_session_map w1 = wk_session_map w" "wk_socket_queue w1 = wk_socket_queue w" by (simp_all add: worker_rest_def)
  from started have i: "idle_ok (pf_view pf prov) w" "wk_use_tls w = wk_use_tls w0" by simp_all
  with f started.prems(3) show ?case by (auto simp: idle_ok_def worker_ok_def)
next
  case (batch w evs os w')
  then have "worker_ok (pf_view pf prov) (w\<lparr>wk_os := os\<rparr>)" by simp
  from handle_event_list_ends [OF batch.prems(1) this, of evs] batch.hyps(3) show ?case by simp
qed simp_all

section \<open>Properties\<close>

lemma worker_new_queue: "cq_inv (wk_socket_queue (worker_new r tls fs os))"
  "cq_list (wk_socket_queue (worker_new r tls fs os)) = []"
  by (simp_all add: worker_new_eq cq_new_inv)

lemma worker_new_idle: "idle_ok V (worker_new r tls fs os)"
  using worker_new_queue [of r tls fs os] by (simp add: idle_ok_def worker_ok_def) (simp add: worker_new_eq)

text \<open>
  A worker handles every batch of events that \<open>epoll_wait\<close> can report in finitely many steps,
  from every state that it can reach, whatever its peers send and whatever nghttp2 calls back, and
  no handler uses a null pointer or a stream that was deleted. After the batch the sessions of the
  worker are well-formed again: each has its nghttp2 session and its TLS object, its streams are
  the ones nghttp2 knows, and it is established, disconnecting or, with TLS, in its handshake.
\<close>

theorem worker_batch_safe:
  assumes "platform_ok pf prov patience work"
    and "tls \<longrightarrow> fst (create_ssl_ctx (pf_ssl pf) key_path cert_path) \<noteq> None"
    and "worker_reach pf key_path cert_path (worker_new router tls fs os0) True w"
    and "sys_epoll_wait (pf_sys pf) (wk_os w) (wk_epfd w) = (Inr evs, os)"
  shows "\<exists>res. handle_event_list pf evs (w\<lparr>wk_os := os\<rparr>) = Some res
    \<and> (case res of
         Inl e \<Rightarrow> e \<noteq> DanglingPointer \<and> e \<noteq> NullDeref
       | Inr w' \<Rightarrow> worker_ok (view (pf_ng pf) prov) w')"
proof -
  have "worker_ok (view (pf_ng pf) prov) (w\<lparr>wk_os := os\<rparr>)"
    using reach_ok [OF assms(3,1) worker_new_idle] assms(2) by (simp add: worker_new_eq)
  from handle_event_list_ends [OF assms(1) this, of evs] show ?thesis
    by (auto elim!: ends_cases simp: pointer_fault_def)
qed

text \<open>A platform on which every wait reports the eventfd and the sockets 7 and 8.\<close>

definition loop_sys :: "(unit, demo_os_state) sys" where
  "loop_sys = demo_tls_sys\<lparr>sys_epoll_wait := (\<lambda>os ep. (Inr [(EPOLLIN, 4), (EPOLLIN, 7), (EPOLLOUT, 8)], os))\<rparr>"

definition loop_pf :: "(demo_session, app_handler, unit, demo_os_state) platform" where
  "loop_pf = \<lparr>pf_host = demo_host, pf_ng = scripted_ng, pf_call = app_call demo_host scripted_ng,
     pf_sys = loop_sys, pf_ssl = demo_ssl_lib\<rparr>"

definition demo_work :: "demo_session \<Rightarrow> nat" where
  "demo_work n = length (snd n)"

definition demo_patience :: "demo_os_state \<Rightarrow> nat" where
  "demo_patience os = length (fst os)"

lemma loop_progress: "progress loop_sys demo_patience" "progress (tunnel loop_sys s) demo_patience"
  by (auto simp: progress_def write_progress_def loop_sys_def demo_tls_sys_def demo_sys_def tunnel_def
      demo_patience_def split: list.splits io_read.splits if_splits)

lemma scripted_contracts: "recv_contract scripted_ng" "send_contract scripted_ng demo_work"
proof -
  show "recv_contract scripted_ng" by (simp add: recv_contract_def scripted_ng_def scripted_request_def)
  have "demo_prov (u, []) i = None" for u i by (simp add: demo_prov_def)
  then show "send_contract scripted_ng demo_work"
    by (auto simp: send_contract_def scripted_ng_def demo_work_def split: option.split)
qed

lemma demo_mmap_nonnull: "mmap_nonnull (ho_maps demo_host)"
  by (simp add: mmap_nonnull_def demo_host_def demo_maps_def split: option.split)

lemma loop_pf_ok: "platform_ok loop_pf demo_prov demo_patience demo_work"
  using loop_progress scripted_laws scripted_recv scripted_send scripted_contracts demo_mmap_nonnull demo_tls_reads
  by (simp add: platform_ok_def platform_laws_def loop_pf_def)
    (simp add: ssl_reads_bytes_def ssl_new_succeeds_def loop_sys_def demo_tls_pf_def demo_tls_sys_def demo_sys_def)

lemma loop_enqueue: "cq_inv (wk_socket_queue w) \<Longrightarrow> \<exists>ok w'. enqueue_sock loop_pf sock w = Some (Inr (ok, w'))"
  by (erule cq.push_step [of _ sock])
    (auto simp: enqueue_sock_def write_signal.simps loop_pf_def loop_sys_def demo_tls_sys_def demo_sys_def Let_def)

theorem worker_batch_safe_witness:
  "\<exists>w res. worker_reach loop_pf [] [] (worker_new (Some app_routes) False Map.empty ([ReadBytes ''x''], [])) True w
    \<and> handle_event_list loop_pf [(EPOLLIN, 4), (EPOLLIN, 7), (EPOLLOUT, 8)] w = Some res
    \<and> (case res of
         Inl e \<Rightarrow> e \<noteq> DanglingPointer \<and> e \<noteq> NullDeref
       | Inr w' \<Rightarrow> worker_ok (view (pf_ng loop_pf) demo_prov) w')"
proof -
  let ?w0 = "worker_new (Some app_routes) False Map.empty ([ReadBytes ''x''], []) ::
      (demo_session, app_handler, unit, demo_os_state) worker"
  obtain w1 where s: "startup loop_pf ?w0 = (True, w1)" "\<not> wk_use_tls w1"
    by (simp add: startup_def loop_pf_def loop_sys_def demo_tls_sys_def demo_sys_def worker_new_eq)
  have "worker_reach loop_pf [] [] ?w0 False ?w0" by (rule worker_reach.created)
  from worker_reach.started [OF this, of "wk_os ?w0" w1] s
  have r1: "worker_reach loop_pf [] [] ?w0 True w1" by (simp add: worker_new_eq)
  have "cq_inv (wk_socket_queue w1)"
    using startup_form [OF s(1)] worker_new_queue(1) by simp
  then obtain ok w where "enqueue_sock loop_pf 7 w1 = Some (Inr (ok, w))" using loop_enqueue by blast
  then have r: "worker_reach loop_pf [] [] ?w0 True w" using worker_reach.socket [OF r1, of 7 "wk_os w1" ok w] by simp
  have e: "sys_epoll_wait (pf_sys loop_pf) (wk_os w) (wk_epfd w) =
      (Inr [(EPOLLIN, 4), (EPOLLIN, 7), (EPOLLOUT, 8)], wk_os w)" by (simp add: loop_pf_def loop_sys_def)
  have id: "w\<lparr>wk_os := wk_os w\<rparr> = w" by simp
  have "\<exists>res. handle_event_list loop_pf [(EPOLLIN, 4), (EPOLLIN, 7), (EPOLLOUT, 8)] w = Some res
    \<and> (case res of
         Inl e \<Rightarrow> e \<noteq> DanglingPointer \<and> e \<noteq> NullDeref
       | Inr w' \<Rightarrow> worker_ok (view (pf_ng loop_pf) demo_prov) w')"
    by (rule worker_batch_safe [OF loop_pf_ok _ r e, unfolded id]) simp
  with r show ?thesis by blast
qed

end
