(* ===== verification/Worker_Sockets.thy ===== *)
theory Worker_Sockets
  imports Worker_Safety "HOL-Library.Multiset"
begin

text \<open>
  Which sockets a worker holds: every socket that it was given waits in its queue or has a session
  in its map until it is closed, and it is closed once. The statement has a frame, the sockets that
  others hold, so that it can be used of several workers that share the operating system.
\<close>

section \<open>What the system calls do to sockets\<close>

text \<open>
  \<open>B\<close> observes the operating system. Closing a descriptor changes what it sees as \<open>cl\<close> says; the other
  calls that set connections up and take them down do not change it.
\<close>

definition call_laws :: "('l, 'o) sys \<Rightarrow> ('o \<Rightarrow> 'b) \<Rightarrow> (int \<Rightarrow> 'b \<Rightarrow> 'b) \<Rightarrow> bool" where
  "call_laws sy B cl \<longleftrightarrow>
     (\<forall>os fd. B (sys_close sy os fd) = cl fd (B os))
     \<and> (\<forall>os ep op fd ev. B (snd (sys_epoll_ctl sy os ep op fd ev)) = B os)
     \<and> (\<forall>os. B (snd (sys_epoll_create sy os)) = B os)
     \<and> (\<forall>os. B (snd (sys_eventfd sy os)) = B os)
     \<and> (\<forall>os ep. B (snd (sys_epoll_wait sy os ep)) = B os)
     \<and> (\<forall>os ctx. B (snd (ssl_new sy os ctx)) = B os)
     \<and> (\<forall>os s fd. B (ssl_set_fd sy os s fd) = B os)
     \<and> (\<forall>os s. B (snd (ssl_accept sy os s)) = B os)
     \<and> (\<forall>os s. B (ssl_shutdown sy os s) = B os)"

lemma call_lawsD:
  assumes "call_laws sy B cl"
  shows "B (sys_close sy os fd) = cl fd (B os)"
    "B (snd (sys_epoll_ctl sy os ep op fd ev)) = B os"
    "sys_epoll_create sy os = (i, os') \<Longrightarrow> B os' = B os"
    "sys_eventfd sy os = (i, os') \<Longrightarrow> B os' = B os"
    "sys_epoll_wait sy os ep = (ew, os') \<Longrightarrow> B os' = B os"
    "ssl_new sy os ctx = (sn, os') \<Longrightarrow> B os' = B os"
    "B (ssl_set_fd sy os s fd) = B os"
    "ssl_accept sy os s = (sa, os') \<Longrightarrow> B os' = B os"
    "B (ssl_shutdown sy os s) = B os"
  using assms unfolding call_laws_def by (metis snd_conv)+

text \<open>
  The books of the operating system: the connections that were accepted and the descriptors that
  were closed. Only \<open>close\<close> closes, and no call of a worker accepts.
\<close>

type_synonym books = "int multiset \<times> int multiset"

definition closes :: "int \<Rightarrow> books \<Rightarrow> books" where
  "closes fd b = (fst b, add_mset fd (snd b))"

definition socket_laws :: "('l, 'o) sys \<Rightarrow> ('o \<Rightarrow> books) \<Rightarrow> bool" where
  "socket_laws sy B \<longleftrightarrow>
     call_laws sy B closes
     \<and> (\<forall>os fd n. B (snd (sys_read sy os fd n)) = B os)
     \<and> (\<forall>os fd buf. B (snd (sys_write sy os fd buf)) = B os)
     \<and> (\<forall>os s n. B (snd (ssl_read sy os s n)) = B os)
     \<and> (\<forall>os s buf. B (snd (ssl_write sy os s buf)) = B os)"

lemma socket_lawsD:
  assumes "socket_laws sy B"
  shows "call_laws sy B closes"
    "sys_read sy os fd n = (r, os') \<Longrightarrow> B os' = B os"
    "sys_write sy os fd buf = (wr, os') \<Longrightarrow> B os' = B os"
    "ssl_read sy os s n = (sr, os') \<Longrightarrow> B os' = B os"
    "ssl_write sy os s buf = (sw, os') \<Longrightarrow> B os' = B os"
  using assms unfolding socket_laws_def by (metis snd_conv)+

text \<open>What a handler may do to a worker without touching the sockets it holds.\<close>

definition quiet :: "('o \<Rightarrow> 'b) \<Rightarrow> ('n, 'h, 'l, 'o) worker \<Rightarrow> ('n, 'h, 'l, 'o) worker \<Rightarrow> bool" where
  "quiet B w w' \<longleftrightarrow>
     B (wk_os w') = B (wk_os w) \<and> wk_session_map w' = wk_session_map w \<and> wk_socket_queue w' = wk_socket_queue w
     \<and> wk_signal_fd w' = wk_signal_fd w \<and> wk_pending_notify w' = wk_pending_notify w"

lemma quiet_refl [simp]: "quiet B w w"
  by (simp add: quiet_def)

lemma quiet_trans: "quiet B w w1 \<Longrightarrow> quiet B w1 w2 \<Longrightarrow> quiet B w w2"
  by (simp add: quiet_def)

lemma quiet_simps [simp]:
  "quiet B w (w'\<lparr>wk_cache := c\<rparr>) = quiet B w w'" "quiet B w (w'\<lparr>wk_fs := fs\<rparr>) = quiet B w w'"
  "quiet B w (w\<lparr>wk_os := os\<rparr>) \<longleftrightarrow> B os = B (wk_os w)"
  by (simp_all add: quiet_def)

text \<open>Partial correctness: what holds of a result, if there is one.\<close>

definition gives :: "('a \<Rightarrow> bool) \<Rightarrow> 'a run \<Rightarrow> bool" where
  "gives Q m \<longleftrightarrow> (\<forall>x. m = Some (Inr x) \<longrightarrow> Q x)"

lemma gives_simps [simp]: "gives Q None" "gives Q (Some (Inl e))" "gives Q (Some (Inr x)) = Q x"
  by (simp_all add: gives_def)

lemma gives_rbind: "gives P m \<Longrightarrow> (\<And>x. P x \<Longrightarrow> gives Q (f x)) \<Longrightarrow> gives Q (rbind m f)"
  by (auto simp: gives_def rbind_def split: option.splits sum.splits)

lemma gives_obind: "gives P (Some m) \<Longrightarrow> (\<And>x. P x \<Longrightarrow> gives Q (Some (f x))) \<Longrightarrow> gives Q (Some (obind m f))"
  by (auto simp: gives_def obind_eq_Inr)

lemma gives_mono: "gives P m \<Longrightarrow> (\<And>x. P x \<Longrightarrow> Q x) \<Longrightarrow> gives Q m"
  by (simp add: gives_def)

section \<open>Reading and writing\<close>

lemma fill_h2c_quiet:
  "fill_input_buffer_h2c sy sock sd os = Some res \<Longrightarrow>
   (\<forall>os fd k. B (snd (sys_read sy os fd k)) = B os) \<longrightarrow> B (snd (snd res)) = B os"
proof (induction rule: fill_h2c_induct)
  case (step f sy sock sd os res)
  obtain r os1 where r: "sys_read sy os sock BUF_SIZE = (r, os1)" by fastforce
  show ?case
  proof
    assume q: "\<forall>os fd k. B (snd (sys_read sy os fd k)) = B os"
    then have "B os1 = B os" using r by (metis snd_conv)
    moreover have "B (snd (snd res)) = B os1" if "f sy sock sd' os1 = Some res" for sd'
      using step.IH [OF that] q by blast
    ultimately show "B (snd (snd res)) = B os"
      using step.hyps r by (cases r) (auto split: if_splits)
  qed
qed

lemma flush_h2c_quiet:
  "flush_output_buffer_h2c sy sock sd os = Some res \<Longrightarrow>
   (\<forall>os fd k. B (snd (sys_write sy os fd k)) = B os) \<longrightarrow>
   (\<forall>r sd' os'. res = Inr (r, sd', os') \<longrightarrow> B os' = B os)"
proof (induction rule: flush_h2c_induct)
  case (step f sy sock sd os res)
  obtain r os1 where r: "sys_write sy os sock (sd_output_buffer sd) = (r, os1)" by fastforce
  show ?case
  proof
    assume q: "\<forall>os fd k. B (snd (sys_write sy os fd k)) = B os"
    then have "B os1 = B os" using r by (metis snd_conv)
    moreover have "\<forall>r sd' os'. res = Inr (r, sd', os') \<longrightarrow> B os' = B os1" if "f sy sock sd' os1 = Some res" for sd'
      using step.IH [OF that] q by blast
    ultimately show "\<forall>r sd' os'. res = Inr (r, sd', os') \<longrightarrow> B os' = B os"
      using step.hyps r by (cases r) (auto split: if_splits sum.splits)
  qed
qed

lemma tunnel_quiet:
  assumes "socket_laws sy B"
  shows "B (snd (sys_read (tunnel sy s) os fd k)) = B os" "B (snd (sys_write (tunnel sy s) os fd buf)) = B os"
proof -
  obtain r os1 wr os2 where "ssl_read sy os s k = (r, os1)" "ssl_write sy os s buf = (wr, os2)" by fastforce
  with socket_lawsD(4,5) [OF assms] show
    "B (snd (sys_read (tunnel sy s) os fd k)) = B os" "B (snd (sys_write (tunnel sy s) os fd buf)) = B os"
    by (cases r; cases wr; auto simp: tunnel_def)+
qed

lemma plain_quiet:
  assumes "socket_laws sy B"
  shows "B (snd (sys_read sy os fd k)) = B os" "B (snd (sys_write sy os fd buf)) = B os"
  using assms by (simp_all add: socket_laws_def)

lemma fill_quiet:
  assumes "socket_laws (pf_sys pf) B" "ssl_reads_bytes (pf_sys pf)"
  shows "gives (\<lambda>(r, sd', w'). quiet B w w') (fill_input_buffer pf sock sd w)"
  using tunnel_quiet(1) [OF assms(1)] plain_quiet(1) [OF assms(1)]
  by (auto simp: gives_def fill_input_buffer_def bound_mode_def deref_ssl_def fill_tls_eq [OF assms(2), where sock = sock]
      dest!: fill_h2c_quiet [where B = B] split: callbacks.splits if_splits option.splits)

lemma flush_quiet:
  assumes "socket_laws (pf_sys pf) B"
  shows "gives (\<lambda>(r, sd', w'). quiet B w w') (flush_output_buffer pf sock sd w)"
  using tunnel_quiet(2) [OF assms(1)] plain_quiet(2) [OF assms(1)]
  by (auto simp: gives_def flush_output_buffer_def bound_mode_def deref_ssl_def flush_tls_eq [where sock = sock] obind_eq_Inr
      dest!: flush_h2c_quiet [where B = B] split: callbacks.splits if_splits option.splits)

section \<open>Handling an event of a connection\<close>

lemma update_event_quiet:
  assumes "call_laws (pf_sys pf) B cl"
  shows "quiet B w (snd (update_event pf sock ev sd w))"
  using call_lawsD(2) [OF assms]
  by (auto simp: update_event_def set_event_def Let_def case_prod_beta)

lemma update_events_quiet:
  assumes "call_laws (pf_sys pf) B cl"
  shows "gives (\<lambda>(sd', w'). quiet B w w') (Some (update_events pf sock sd w))"
    "gives (\<lambda>(sd', w'). quiet B w w') (Some (update_ssl_handshake_events pf sock sd w))"
proof -
  have u: "quiet B w w'" if "update_event pf sock ev sd w = (sd', w')" for ev sd' w'
    using update_event_quiet [OF assms, of w sock ev sd] by (simp add: that)
  show "gives (\<lambda>(sd', w'). quiet B w w') (Some (update_events pf sock sd w))"
    by (auto simp: gives_def update_events_def update_events_tls_def update_events_h2c_def obind_eq_Inr
        split: if_splits dest: u)
  show "gives (\<lambda>(sd', w'). quiet B w w') (Some (update_ssl_handshake_events pf sock sd w))"
    by (auto simp: gives_def update_ssl_handshake_events_def obind_eq_Inr Let_def dest: u)
qed

text \<open>The connection was left alone, or it was closed, once, and its session taken out of the map.\<close>

definition settles ::
    "('o \<Rightarrow> 'b) \<Rightarrow> (int \<Rightarrow> 'b \<Rightarrow> 'b) \<Rightarrow> int \<Rightarrow> ('n, 'h, 'l, 'o) worker \<Rightarrow> ('n, 'h, 'l, 'o) worker \<Rightarrow> bool" where
  "settles B cl sock w w' \<longleftrightarrow>
     quiet B w w'
     \<or> B (wk_os w') = cl sock (B (wk_os w)) \<and> wk_session_map w' = (wk_session_map w)(sock := None)
       \<and> wk_socket_queue w' = wk_socket_queue w
       \<and> wk_signal_fd w' = wk_signal_fd w \<and> wk_pending_notify w' = wk_pending_notify w"

lemma quiet_settles: "quiet B w w1 \<Longrightarrow> settles B cl sock w1 w2 \<Longrightarrow> settles B cl sock w w2"
  by (auto simp: settles_def quiet_def)

lemma settles_quiet [simp]: "quiet B w w' \<Longrightarrow> settles B cl sock w w'"
  by (simp add: settles_def)

lemma disconnect_settles:
  assumes "call_laws (pf_sys pf) B cl"
  shows "settles B cl sock w (snd (disconnect_from_client pf sock sd w))"
  using call_lawsD(1,2,9) [OF assms]
  by (auto simp: settles_def disconnect_from_client_def close_session_def Let_def split: option.split)

lemma disconnect_after:
  "call_laws (pf_sys pf) B cl \<Longrightarrow> quiet B w w1 \<Longrightarrow>
   settles B cl sock w (snd (disconnect_from_client pf sock sd w1))"
  by (rule quiet_settles [OF _ disconnect_settles])

lemma finish_io_quiet:
  assumes "call_laws (pf_sys pf) B cl" "quiet B w w1"
  shows "gives (\<lambda>(r, sd', w'). quiet B w w') (finish_io pf sock r sd w1)"
  unfolding finish_io_def
  by (rule gives_obind [OF update_events_quiet(1) [OF assms(1)]])
    (use assms(2) in \<open>auto simp: gives_def obind_eq_Inr intro: quiet_trans\<close>)

lemma handle_read_quiet:
  assumes "socket_laws (pf_sys pf) B" "ssl_reads_bytes (pf_sys pf)"
  shows "gives (\<lambda>(r, sd', w'). quiet B w w') (handle_read pf sock sd w)"
  unfolding handle_read_def
proof (rule gives_rbind [OF fill_quiet [OF assms]], clarify)
  fix r sd1 w1 assume q: "quiet B w w1"
  then show "gives (\<lambda>(r, sd', w'). quiet B w w')
      (if r = SHUTDOWN then Some (Inr (SHUTDOWN, sd1, w1))
       else rbind (feed_input_buffer pf (worker_context sd1 w1)) (\<lambda>(feed_result, cx).
              let sd2 = cx_session cx; w2 = w1\<lparr>wk_cache := cx_cache cx, wk_fs := cx_fs cx\<rparr> in
              if feed_result = SHUTDOWN then Some (Inr (SHUTDOWN, sd2, w2))
              else finish_io pf sock SUCCESS sd2 w2))"
    using finish_io_quiet [OF socket_lawsD(1) [OF assms(1)]]
    by (auto simp: Let_def intro!: gives_rbind [where P = "\<lambda>_. True" and m = "feed_input_buffer pf (worker_context sd1 w1)"])
      (simp add: gives_def)
qed

lemma handle_write_quiet:
  assumes "socket_laws (pf_sys pf) B"
  shows "gives (\<lambda>(r, sd', w'). quiet B w w') (handle_write pf sock sd w)"
  unfolding handle_write_def Let_def
proof (rule gives_rbind [where P = "\<lambda>_. True"])
  show "gives (\<lambda>(r, sd', w'). quiet B w w')
      (rbind (flush_output_buffer pf sock (cx_session cx) (w\<lparr>wk_cache := cx_cache cx, wk_fs := cx_fs cx\<rparr>))
        (\<lambda>(result, sd2, w2). if result = SHUTDOWN then Some (Inr (SHUTDOWN, sd2, w2))
           else finish_io pf sock result sd2 w2))" for cx
  proof (rule gives_rbind [OF flush_quiet [OF assms]], clarify)
    fix r sd2 w2 assume "quiet B (w\<lparr>wk_cache := cx_cache cx, wk_fs := cx_fs cx\<rparr>) w2"
    then have "quiet B w w2" by (simp add: quiet_def)
    with finish_io_quiet [OF socket_lawsD(1) [OF assms]] show "gives (\<lambda>(r, sd', w'). quiet B w w')
        (if r = SHUTDOWN then Some (Inr (SHUTDOWN, sd2, w2)) else finish_io pf sock r sd2 w2)" by simp
  qed
qed (simp add: gives_def)

lemma handle_events_settles:
  assumes "socket_laws (pf_sys pf) B" "ssl_reads_bytes (pf_sys pf)"
  shows "gives (\<lambda>(sd', w'). settles B closes sock w w') (handle_events pf ev sock sd w)"
  unfolding handle_events_def Let_def
proof (rule gives_rbind [where P = "\<lambda>(r, sd1, w1). quiet B w w1"], goal_cases)
  case 1
  show ?case using handle_read_quiet [OF assms] by simp
next
  case (2 x)
  obtain r1 sd1 w1 where x: "x = (r1, sd1, w1)" by (metis surj_pair)
  with 2 have q: "quiet B w w1" by simp
  then have "gives (\<lambda>(r, sd', w'). quiet B w w') (handle_write pf sock sd1 w1)"
    by (intro gives_mono [OF handle_write_quiet [OF assms(1)]]) (auto intro: quiet_trans)
  with q disconnect_after [OF socket_lawsD(1) [OF assms(1)]] show ?case unfolding x prod.case
    by (intro gives_rbind [where P = "\<lambda>(r, sd', w'). quiet B w w'"]) (auto split: option.split simp: case_prod_beta)
qed

lemma establish_settles:
  assumes "call_laws (pf_sys pf) B cl" "quiet B w w1"
  shows "gives (\<lambda>(sd', w'). settles B cl sock w w') (Some (obind (establish_connection (pf_ng pf) sd1) (\<lambda>(st, sd2).
      if st = DISCONNECTING then Inr (disconnect_from_client pf sock sd2 w1)
      else update_events pf sock (sd2\<lparr>sd_state := st\<rparr>) w1)))"
proof (rule gives_obind [where P = "\<lambda>_. True"], simp add: gives_def, clarify)
  fix st sd2
  show "gives (\<lambda>(sd', w'). settles B cl sock w w')
      (Some (if st = DISCONNECTING then Inr (disconnect_from_client pf sock sd2 w1)
        else update_events pf sock (sd2\<lparr>sd_state := st\<rparr>) w1))"
    using disconnect_after [OF assms, of sock] assms(2)
    by (auto simp: case_prod_beta intro!: gives_mono [OF update_events_quiet(1) [OF assms(1), of w1 sock]] settles_quiet
        dest: quiet_trans)
qed

lemma do_handshake_quiet:
  assumes "call_laws (pf_sys pf) B cl" "quiet B w0 w"
  shows "gives (\<lambda>(st, sd', w'). quiet B w0 w') (Some (do_tls_handshake pf sock sd w))"
proof (cases "sd_ssl sd")
  case (Some s)
  obtain err os1 where a: "ssl_accept (pf_sys pf) (wk_os w) s = (err, os1)" by fastforce
  have q: "quiet B w0 (w\<lparr>wk_os := os1\<rparr>)"
    using assms(2) call_lawsD(8) [OF assms(1) a] by (simp add: quiet_def)
  have "gives (\<lambda>(sd', w'). quiet B w0 w') (Some (update_ssl_handshake_events pf sock sd (w\<lparr>wk_os := os1\<rparr>)))"
    by (rule gives_mono [OF update_events_quiet(2) [OF assms(1)]]) (use q in \<open>auto intro: quiet_trans\<close>)
  with q a Some show ?thesis
    by (cases err) (auto simp: do_tls_handshake_def deref_ssl_def gives_def obind_eq_Inr Let_def split: if_splits)
qed (simp add: do_tls_handshake_def deref_ssl_def)

lemma handle_tls_handshake_settles:
  assumes "call_laws (pf_sys pf) B cl"
  shows "gives (\<lambda>(sd', w'). settles B cl sock w w') (Some (handle_tls_handshake pf sock sd w))"
  unfolding handle_tls_handshake_def
proof (rule gives_obind [OF do_handshake_quiet [OF assms quiet_refl]], clarify)
  fix st sd1 w1 assume q: "quiet B w w1"
  then show "gives (\<lambda>(sd', w'). settles B cl sock w w')
      (Some (if should_disconnect st then Inr (disconnect_from_client pf sock sd1 w1)
       else if st = TLS_HANDSHAKING then Inr (sd1, w1)
       else obind (establish_connection (pf_ng pf) sd1) (\<lambda>(st2, sd2).
              if should_disconnect st2 then Inr (disconnect_from_client pf sock sd2 w1)
              else update_events pf sock (sd2\<lparr>sd_state := st2\<rparr>) w1)))"
    using disconnect_after [OF assms q, of sock] establish_settles [OF assms q, of sock sd1]
    by (auto simp: case_prod_beta should_disconnect_def)
qed

lemma admit_settles:
  assumes "call_laws (pf_sys pf) B cl"
  shows "gives (\<lambda>(sd', w'). settles B cl sock w w') (Some (admit_connection pf sock sd w))"
  unfolding admit_connection_def
proof (rule gives_obind [where P = "\<lambda>(go, sd1, w1). if go then quiet B w w1 else settles B cl sock w w1"], goal_cases)
  case 1
  obtain ssl os1 where n: "ssl_new (pf_sys pf) (wk_os w) (wk_ssl_ctx w) = (ssl, os1)" by fastforce
  show ?case
  proof (cases ssl)
    case (Some s)
    let ?w = "w\<lparr>wk_os := ssl_set_fd (pf_sys pf) os1 s sock\<rparr>"
    have "quiet B w ?w" using call_lawsD(7) [OF assms] call_lawsD(6) [OF assms n] by simp
    from do_handshake_quiet [OF assms this, of sock "sd\<lparr>sd_ssl := Some s\<rparr>"] Some n show ?thesis
      using disconnect_after [OF assms, of w _ sock]
      by (auto simp: gives_def handle_tls_accept_def obind_eq_Inr case_prod_beta Let_def split: if_splits) (metis snd_conv)
  qed (use n in \<open>auto simp: handle_tls_accept_def\<close>)
next
  case (2 x)
  then show ?case using establish_settles [OF assms] by (auto split: prod.splits if_splits)
qed

section \<open>The sockets that a worker holds\<close>

definition held :: "('n, 'h, 'l, 'o) worker \<Rightarrow> int multiset" where
  "held w = mset (cq_list (wk_socket_queue w)) + mset_set (dom (wk_session_map w))"

text \<open>A multiset without repetitions.\<close>

definition single :: "'a multiset \<Rightarrow> bool" where
  "single A \<longleftrightarrow> (\<forall>x. count A x \<le> 1)"

lemma single_add: "single (add_mset x A) \<longleftrightarrow> x \<notin># A \<and> single A"
proof
  assume s: "single (add_mset x A)"
  then have "count (add_mset x A) x \<le> 1" unfolding single_def by blast
  then have x: "x \<notin># A" by (simp add: not_in_iff)
  have "count A y \<le> 1" for y
    using s x by (cases "y = x") (auto simp: single_def not_in_iff dest!: spec [of _ y])
  with x show "x \<notin># A \<and> single A" by (simp add: single_def)
next
  assume "x \<notin># A \<and> single A"
  then show "single (add_mset x A)" by (simp add: single_def not_in_iff)
qed

text \<open>
  What was accepted was closed, is held by this worker or is held by others (\<open>R\<close>), and no descriptor
  is held twice.
\<close>

definition owns :: "('o \<Rightarrow> books) \<Rightarrow> int multiset \<Rightarrow> ('n, 'h, 'l, 'o) worker \<Rightarrow> bool" where
  "owns B R w \<longleftrightarrow>
     cq_inv (wk_socket_queue w) \<and> (\<forall>s \<in> set (cq_list (wk_socket_queue w)). 0 \<le> s)
     \<and> finite (dom (wk_session_map w))
     \<and> fst (B (wk_os w)) = snd (B (wk_os w)) + held w + R \<and> single (held w + R)"

lemma owns_quiet: "quiet B w w' \<Longrightarrow> owns B R w' = owns B R w"
  by (simp add: quiet_def owns_def held_def)

lemma owns_fields [simp]:
  "owns B R (w\<lparr>wk_fs := fs\<rparr>) = owns B R w" "owns B R (w\<lparr>wk_cache := c\<rparr>) = owns B R w"
  "owns B R (w\<lparr>wk_pending_notify := b\<rparr>) = owns B R w"
  by (simp_all add: owns_def held_def)

lemma owns_release:
  assumes "owns B R w" "wk_session_map w sock \<noteq> None" "settles B closes sock w w'"
  shows "owns B R (release_session pf sock sd w')"
  using assms(3) unfolding settles_def
proof
  assume q: "quiet B w w'"
  then obtain sd0 where "wk_session_map w' sock = Some sd0" using assms(2) by (auto simp: quiet_def)
  moreover from this have "dom ((wk_session_map w')(sock \<mapsto> sd)) = dom (wk_session_map w')" by auto
  ultimately show ?thesis using owns_quiet [OF q, of R] assms(1) by (simp add: release_session_def owns_def held_def)
next
  assume s: "B (wk_os w') = closes sock (B (wk_os w)) \<and> wk_session_map w' = (wk_session_map w)(sock := None)
    \<and> wk_socket_queue w' = wk_socket_queue w \<and> wk_signal_fd w' = wk_signal_fd w
    \<and> wk_pending_notify w' = wk_pending_notify w"
  let ?D = "dom (wk_session_map w)"
  have fin: "finite ?D" and inD: "sock \<in> ?D" using assms(1,2) by (auto simp: owns_def)
  then have "mset_set ?D = add_mset sock (mset_set (?D - {sock}))" by (metis mset_set.remove)
  with s have h: "held w = add_mset sock (held w')" by (simp add: held_def)
  then have "owns B R w'" using assms(1) s fin by (simp add: owns_def closes_def single_add)
  with s show ?thesis by (simp add: release_session_def)
qed

lemma new_connection_owns:
  fixes w :: "('n, 'h, 'l, 'o) worker"
  assumes "socket_laws (pf_sys pf) B" "owns B (add_mset sock R) w"
  shows "gives (\<lambda>w'. owns B R w' \<and> wk_socket_queue w' = wk_socket_queue w) (Some (new_connection pf sock w))"
proof -
  obtain rv and sd0 :: "('n, 'h, 'l) session_data"
    where i: "init_session_data (pf_ng pf) new_session_data = (rv, sd0)" by fastforce
  have "sock \<notin># held w" using assms(2) by (simp add: owns_def single_add)
  then have fresh: "wk_session_map w sock = None" using assms(2) by (auto simp: held_def owns_def)
  let ?sd = "sd0\<lparr>sd_router := wk_router w\<rparr>"
  let ?w = "w\<lparr>wk_session_map := (wk_session_map w)(sock \<mapsto> ?sd)\<rparr>"
  have h: "held ?w = add_mset sock (held w)" using fresh assms(2) by (simp add: held_def owns_def domIff)
  then have ow: "owns B R ?w" using assms(2) by (simp add: owns_def)
  have rel: "owns B R (release_session pf sock sd' w')" "wk_socket_queue (release_session pf sock sd' w') = wk_socket_queue w"
    if "settles B closes sock ?w w'" for sd' w'
  proof -
    show "owns B R (release_session pf sock sd' w')" by (rule owns_release [OF ow _ that]) simp
    show "wk_socket_queue (release_session pf sock sd' w') = wk_socket_queue w"
      using that by (auto simp: release_session_def settles_def quiet_def split: option.split)
  qed
  have closed: "owns B R (w\<lparr>wk_os := sys_close (pf_sys pf) (wk_os w) sock\<rparr>)"
    using assms(2) call_lawsD(1) [OF socket_lawsD(1) [OF assms(1)]] by (simp add: owns_def held_def closes_def single_add)
  have "gives (\<lambda>w'. owns B R w' \<and> wk_socket_queue w' = wk_socket_queue w)
      (Some (obind (admit_connection pf sock ?sd ?w) (\<lambda>(sd', w'). Inr (release_session pf sock sd' w'))))"
    by (rule gives_obind [OF admit_settles [OF socket_lawsD(1) [OF assms(1)]]]) (use rel in auto)
  with closed i fresh show ?thesis by (simp add: new_connection_def Let_def)
qed

lemma handle_new_connections_owns:
  assumes "socket_laws (pf_sys pf) B" "owns B R w"
  shows "gives (owns B R) (handle_new_connections pf w)"
  using assms(2)
proof (induction "length (cq_list (wk_socket_queue w))" arbitrary: w rule: less_induct)
  case less
  let ?q = "wk_socket_queue w"
  note eq = handle_new_connections.simps [of pf w]
  from less.prems have inv: "cq_inv ?q" "\<forall>s \<in> set (cq_list ?q). 0 \<le> s" by (simp_all add: owns_def)
  show ?case
  proof (cases "cq_list ?q")
    case Nil
    with less.prems inv show ?thesis by (simp add: eq dequeue_form)
  next
    case (Cons sock rest)
    let ?w = "w\<lparr>wk_socket_queue := snd (pop ?q)\<rparr>"
    have p: "cq_list (snd (pop ?q)) = rest" "cq_inv (snd (pop ?q))"
      using cq.pop_ok [OF inv(1)] Cons by auto
    then have "owns B (add_mset sock R) ?w" using less.prems Cons by (auto simp: owns_def held_def)
    from new_connection_owns [OF assms(1) this] have
      n: "gives (\<lambda>w'. owns B R w' \<and> wk_socket_queue w' = snd (pop ?q)) (Some (new_connection pf sock ?w))" by simp
    have step: "handle_new_connections pf w =
        (case new_connection pf sock ?w of Inl e \<Rightarrow> Some (Inl e) | Inr w2 \<Rightarrow> handle_new_connections pf w2)"
      using inv Cons by (simp add: eq dequeue_form)
    show ?thesis
    proof (cases "new_connection pf sock ?w")
      case (Inr w2)
      with n have "owns B R w2" "cq_list (wk_socket_queue w2) = rest" using p by simp_all
      with less.hyps [of w2] Cons show ?thesis by (simp add: step Inr)
    qed (simp add: step)
  qed
qed

lemmas flush_signal_induct = flush_signal.raw_induct [rotated, consumes 1, case_names step]
lemmas handle_signal_induct = handle_signal.raw_induct [rotated, consumes 1, case_names step]

lemma flush_signal_quiet: "flush_signal sy fd os = Some os' \<Longrightarrow> socket_laws sy B \<longrightarrow> B os' = B os"
proof (induction rule: flush_signal_induct)
  case (step f sy fd os os')
  obtain r os1 where r: "sys_read sy os fd 8 = (r, os1)" by fastforce
  show ?case
  proof
    assume l: "socket_laws sy B"
    from socket_lawsD(2) [OF l r] have "B os1 = B os" .
    moreover have "B os' = B os1" if "f sy fd os1 = Some os'" using step.IH [OF that] l by blast
    ultimately show "B os' = B os" using step.hyps r by (cases r) (auto split: if_splits)
  qed
qed

lemma signal_round_owns:
  assumes "socket_laws (pf_sys pf) B" "owns B R w" "signal_round pf w = Some (Inr w')"
  shows "owns B R w'"
proof -
  from assms(3) obtain os1 w1 where
    f: "flush_signal (pf_sys pf) (wk_signal_fd w) (wk_os w) = Some os1"
    and h: "handle_new_connections pf (w\<lparr>wk_os := os1\<rparr>) = Some (Inr w1)" and w': "w' = w1\<lparr>wk_pending_notify := False\<rparr>"
    by (auto simp: signal_round_def rbind_def split: option.splits sum.splits)
  have "quiet B w (w\<lparr>wk_os := os1\<rparr>)" using flush_signal_quiet [OF f, of B] assms(1) by simp
  then have "owns B R (w\<lparr>wk_os := os1\<rparr>)" using owns_quiet assms(2) by blast
  from handle_new_connections_owns [OF assms(1) this] h show ?thesis by (simp add: gives_def w')
qed

lemma signal_again_owns: "owns B R (snd (signal_again w)) = owns B R w"
  by (simp add: signal_again_def)

lemma handle_signal_owns:
  "handle_signal pf w = Some res \<Longrightarrow> socket_laws (pf_sys pf) B \<longrightarrow> owns B R w \<longrightarrow>
   (\<forall>w'. res = Inr w' \<longrightarrow> owns B R w')"
proof (induction rule: handle_signal_induct)
  case (step f pf w res)
  show ?case
  proof (intro impI allI)
    fix w' assume l: "socket_laws (pf_sys pf) B" and o: "owns B R w" and w': "res = Inr w'"
    from step.hyps w' obtain w1 where r: "signal_round pf w = Some (Inr w1)"
      by (auto split: option.splits sum.splits)
    have o1: "owns B R (snd (signal_again w1))" using signal_round_owns [OF l o r] by (simp add: signal_again_owns)
    show "owns B R w'"
      using step.hyps step.IH [of pf "snd (signal_again w1)" res] r w' l o1 by (auto split: if_splits)
  qed
qed

lemma handle_client_event_owns:
  assumes "socket_laws (pf_sys pf) B" "ssl_reads_bytes (pf_sys pf)" "owns B R w"
  shows "gives (owns B R) (handle_client_event pf ev sock w)"
proof (cases "wk_session_map w sock")
  case (Some sd)
  have "gives (\<lambda>(sd', w'). settles B closes sock w w')
      (if sd_state sd = TLS_HANDSHAKING then Some (handle_tls_handshake pf sock sd w) else handle_events pf ev sock sd w)"
    using handle_tls_handshake_settles [OF socket_lawsD(1) [OF assms(1)]] handle_events_settles [OF assms(1,2)] by simp
  then have "gives (owns B R) (rbind (if sd_state sd = TLS_HANDSHAKING then Some (handle_tls_handshake pf sock sd w)
      else handle_events pf ev sock sd w) (\<lambda>(sd', w'). Some (Inr (release_session pf sock sd' w'))))"
    by (rule gives_rbind) (use Some owns_release [OF assms(3)] in auto)
  with Some show ?thesis by (simp add: handle_client_event_def)
qed (use assms in \<open>simp add: handle_client_event_def\<close>)

lemma handle_event_list_owns:
  assumes "socket_laws (pf_sys pf) B" "ssl_reads_bytes (pf_sys pf)" "owns B R w"
  shows "gives (owns B R) (handle_event_list pf evs w)"
  using assms(3)
proof (induction evs arbitrary: w)
  case (Cons x evs)
  obtain ev fd where x: "x = (ev, fd)" by fastforce
  have "gives (owns B R) (if fd = wk_signal_fd w then handle_signal pf w else handle_client_event pf ev fd w)"
    using handle_signal_owns [of pf w _ B R] handle_client_event_owns [OF assms(1,2) Cons.prems] assms(1) Cons.prems
    by (auto simp: gives_def)
  then show ?case unfolding x handle_event_list.simps by (rule gives_rbind) (rule Cons.IH)
qed simp

section \<open>Start-up and the queue\<close>

lemma startup_owns:
  assumes "socket_laws (pf_sys pf) B" "startup pf w = (ok, w')" "owns B R w"
  shows "owns B R w'"
proof -
  note l = call_lawsD [OF socket_lawsD(1) [OF assms(1)]]
  obtain ep os1 sfd os2 where c: "sys_epoll_create (pf_sys pf) (wk_os w) = (ep, os1)"
    "sys_eventfd (pf_sys pf) os1 = (sfd, os2)" by fastforce
  with l(3,4) have "B os1 = B (wk_os w)" "B os2 = B os1" by blast+
  with c assms(2,3) l(2) show ?thesis
    by (auto simp: startup_def Let_def owns_def held_def split: if_splits)
qed

lemmas write_signal_induct = write_signal.raw_induct [rotated, consumes 1, case_names step]

lemma write_signal_quiet: "write_signal sy fd os = Some os' \<Longrightarrow> socket_laws sy B \<longrightarrow> B os' = B os"
proof (induction rule: write_signal_induct)
  case (step f sy fd os os')
  let ?buf = "CHR 0x01 # replicate 7 (CHR 0x00)"
  obtain r os1 where r: "sys_write sy os fd ?buf = (r, os1)" by fastforce
  show ?case
  proof
    assume l: "socket_laws sy B"
    from socket_lawsD(3) [OF l r] have "B os1 = B os" .
    moreover have "B os' = B os1" if "f sy fd os1 = Some os'" using step.IH [OF that] l by blast
    ultimately show "B os' = B os" using step.hyps r by (cases r) (auto split: if_splits)
  qed
qed

text \<open>A socket that the queue takes is held by the worker from then on.\<close>

lemma enqueue_owns:
  assumes "socket_laws (pf_sys pf) B" "owns B (add_mset sock R) w" "0 \<le> sock"
    and "enqueue_sock pf sock w = Some (Inr (True, w'))"
  shows "owns B R w'"
proof -
  from assms(2) have inv: "cq_inv (wk_socket_queue w)" by (simp add: owns_def)
  have "\<not> is_full (wk_socket_queue w)"
    using assms(4) cq.push_full [OF inv, of sock] by (auto simp: enqueue_sock_def)
  from cq.push_ok [OF inv this, of sock] obtain q' where p: "push (wk_socket_queue w) sock = Inr (True, q')"
    "cq_inv q'" "cq_list q' = cq_list (wk_socket_queue w) @ [sock]" by blast
  have q': "wk_socket_queue w' = q'" "wk_session_map w' = wk_session_map w"
    using assms(4) p(1) by (auto simp: enqueue_sock_def Let_def split: if_splits option.splits)
  moreover have "B (wk_os w') = B (wk_os w)"
    using assms(1,4) p(1) by (auto simp: enqueue_sock_def Let_def dest: write_signal_quiet split: if_splits option.splits)
  ultimately show ?thesis using assms(2,3) p(2,3) by (auto simp: owns_def held_def)
qed

end
