(* ===== verification/Notify_Protocol.thy ===== *)
theory Notify_Protocol
  imports Circular_Queue
begin

text \<open>
  The hand-over of accepted sockets from the acceptor thread to a worker thread:
  \<open>Worker::enqueue_sock\<close> on one side, the \<open>signal_fd\<close> branch of \<open>Worker::run\<close> with
  \<open>handle_new_connections\<close> and \<open>dequeue_sock\<close> on the other (\<open>src/worker.cc\<close>). The two
  threads share the ring buffer, the flag \<open>pending_notify\<close> and the counter of an eventfd.

  A thread is a program counter; one step of a thread makes at most one access to a variable
  that the other thread writes, together with accesses to variables only itself writes, so
  every interleaving of the atomic accesses is a sequence of steps.

  The memory is that of x86-TSO, where a store waits in the store buffer of its thread, loads of
  the same thread may overtake it, and a locked instruction (a compare-exchange) first empties
  the buffer. One store of the protocol is followed by a load that it must not be overtaken by:
  the worker clears the flag with a release store and then loads \<open>tail\<close> with acquire, which orders
  neither. Whether the clear is still in the buffer is the component \<open>clear_pending\<close>, and the memory
  may commit it at any time. The other stores need no buffer in the model. Those of the acceptor
  (the slot, then \<open>tail\<close>) are committed in order and at the latest by its compare-exchange, with no
  load of a shared variable in between: a late commit is a late step. The store of \<open>head\<close> by the
  worker is read by the acceptor only in the test for a full ring, where an old value can only
  make \<open>push\<close> refuse, which changes nothing: a refusal is a step that leaves the state as it is.
  \<open>sent\<close>, \<open>received\<close> and \<open>stale_recheck\<close> record the history and are not read by the steps.
\<close>

section \<open>The two threads\<close>

datatype producer_pc =
    P_Idle
  | P_Write int u32 u32
  | P_Publish int u32
  | P_Cas
  | P_Signal

datatype consumer_pc =
    C_Start
  | C_Wait
  | C_Flush
  | C_Dequeue
  | C_Front
  | C_Pop int
  | C_Clear
  | C_Recheck
  | C_Cas

record notify_state =
  socket_ring :: "int circular_queue"
  pending_notify :: bool
  clear_pending :: bool
  signal_open :: bool
  signal_count :: nat
  ppc :: producer_pc
  cpc :: consumer_pc
  sent :: "int list"
  received :: "int list"
  stale_recheck :: bool

text \<open>
  \<open>enqueue_sock(sock)\<close>. \<open>P_Idle\<close> starts a call: \<open>push\<close> loads \<open>tail\<close> (its own variable) and
  \<open>head\<close>, and the call returns false at once when the ring is full. \<open>P_Write\<close> stores the
  element, \<open>P_Publish\<close> stores \<open>tail\<close>, \<open>P_Cas\<close> is the compare-exchange on the flag, and
  \<open>P_Signal\<close> the write to the eventfd: on a valid descriptor it adds 1 to the counter (an
  interrupted write is retried, that is, stays in \<open>P_Signal\<close>); on a descriptor that is not
  open yet it fails and the call returns all the same.
\<close>

fun producer_step :: "int \<Rightarrow> notify_state \<Rightarrow> notify_state" where
  "producer_step sock s =
     (case ppc s of
        P_Idle \<Rightarrow>
          (let t = tail (socket_ring s); next_t = ucast (next_slot (socket_ring s) t) :: u32
           in if next_t \<noteq> head (socket_ring s) then s\<lparr>ppc := P_Write sock t next_t\<rparr> else s)
      | P_Write x t next_t \<Rightarrow>
          s\<lparr>socket_ring := (socket_ring s)\<lparr>buffer := (buffer (socket_ring s))[unat t := x]\<rparr>,
            ppc := P_Publish x next_t\<rparr>
      | P_Publish x next_t \<Rightarrow>
          s\<lparr>socket_ring := (socket_ring s)\<lparr>tail := next_t\<rparr>, ppc := P_Cas, sent := sent s @ [x]\<rparr>
      | P_Cas \<Rightarrow>
          (if \<not> pending_notify s then s\<lparr>pending_notify := True, ppc := P_Signal\<rparr>
           else s\<lparr>ppc := P_Idle\<rparr>)
      | P_Signal \<Rightarrow>
          (if signal_open s then s\<lparr>signal_count := signal_count s + 1, ppc := P_Idle\<rparr>
           else s\<lparr>ppc := P_Idle\<rparr>))"

text \<open>The memory commits the store that the worker has in its buffer.\<close>

definition commit_clear :: "notify_state \<Rightarrow> notify_state" where
  "commit_clear s = (if clear_pending s then s\<lparr>pending_notify := False, clear_pending := False\<rparr> else s)"

text \<open>
  The worker. \<open>C_Start\<close> is \<open>startup\<close>, which creates the eventfd; \<open>C_Wait\<close> is \<open>epoll_wait\<close>,
  which reports the eventfd while its counter is positive (it is registered level-triggered)
  and blocks otherwise (no step); \<open>C_Flush\<close> reads the eventfd until a read fails; \<open>C_Dequeue\<close>
  is the emptiness test of \<open>dequeue_sock\<close>, \<open>C_Front\<close> and \<open>C_Pop\<close> its two accesses to the
  ring; \<open>C_Clear\<close> puts the store that clears the flag into the buffer; \<open>C_Recheck\<close> tests the ring
  again, and is stale when that store has not been committed; \<open>C_Cas\<close> is the compare-exchange that
  decides whether this thread goes round again, and commits the store first.
\<close>

fun consumer_step :: "notify_state \<Rightarrow> notify_state option" where
  "consumer_step s =
     (case cpc s of
        C_Start \<Rightarrow> Some (s\<lparr>signal_open := True, cpc := C_Wait\<rparr>)
      | C_Wait \<Rightarrow> (if signal_count s > 0 then Some (s\<lparr>cpc := C_Flush\<rparr>) else None)
      | C_Flush \<Rightarrow>
          (if signal_count s > 0 then Some (s\<lparr>signal_count := 0\<rparr>)
           else Some (s\<lparr>cpc := C_Dequeue\<rparr>))
      | C_Dequeue \<Rightarrow>
          (if is_empty (socket_ring s) then Some (s\<lparr>cpc := C_Clear\<rparr>)
           else Some (s\<lparr>cpc := C_Front\<rparr>))
      | C_Front \<Rightarrow>
          (case front (socket_ring s) of
             Inl e \<Rightarrow> None
           | Inr x \<Rightarrow> Some (s\<lparr>cpc := C_Pop x\<rparr>))
      | C_Pop x \<Rightarrow>
          Some (s\<lparr>socket_ring := snd (pop (socket_ring s)), cpc := C_Dequeue,
                  received := received s @ [x]\<rparr>)
      | C_Clear \<Rightarrow> Some (s\<lparr>clear_pending := True, cpc := C_Recheck\<rparr>)
      | C_Recheck \<Rightarrow>
          (let s1 = s\<lparr>stale_recheck := clear_pending s\<rparr> in
           if is_empty (socket_ring s) then Some (s1\<lparr>cpc := C_Wait\<rparr>)
           else Some (s1\<lparr>cpc := C_Cas\<rparr>))
      | C_Cas \<Rightarrow>
          (let s1 = commit_clear s in
           if \<not> pending_notify s1 then Some (s1\<lparr>pending_notify := True, cpc := C_Flush\<rparr>)
           else Some (s1\<lparr>cpc := C_Wait\<rparr>)))"

declare producer_step.simps [simp del] consumer_step.simps [simp del]

inductive notify_step :: "notify_state \<Rightarrow> notify_state \<Rightarrow> bool" where
  producer: "notify_step s (producer_step sock s)"
| consumer: "consumer_step s = Some s' \<Longrightarrow> notify_step s s'"
| memory: "notify_step s (commit_clear s)"

inductive notify_reach :: "notify_state \<Rightarrow> notify_state \<Rightarrow> bool" for s0 where
  start: "notify_reach s0 s0"
| step: "notify_reach s0 s \<Longrightarrow> notify_step s s' \<Longrightarrow> notify_reach s0 s'"

inductive_cases notify_stepE: "notify_step s s'"

text \<open>A fresh worker before and after its thread has run \<open>startup\<close>; the ring has 4096 slots.\<close>

definition notify_init :: notify_state where
  "notify_init = \<lparr>socket_ring = cq_new 0 4096, pending_notify = False, clear_pending = False,
     signal_open = False, signal_count = 0, ppc = P_Idle, cpc = C_Start, sent = [], received = [],
     stale_recheck = False\<rparr>"

definition notify_started :: notify_state where
  "notify_started = notify_init\<lparr>signal_open := True, cpc := C_Wait\<rparr>"

lemma commit_clear_fields [simp]:
  "socket_ring (commit_clear s) = socket_ring s" "signal_open (commit_clear s) = signal_open s"
  "signal_count (commit_clear s) = signal_count s" "ppc (commit_clear s) = ppc s" "cpc (commit_clear s) = cpc s"
  "sent (commit_clear s) = sent s" "received (commit_clear s) = received s"
  "stale_recheck (commit_clear s) = stale_recheck s" "\<not> clear_pending (commit_clear s)"
  "pending_notify (commit_clear s) \<longleftrightarrow> pending_notify s \<and> \<not> clear_pending s"
  by (simp_all add: commit_clear_def)

section \<open>The ring under interleaving\<close>

text \<open>What the program counters say about the ring, and the history equation.\<close>

fun producer_view :: "producer_pc \<Rightarrow> int circular_queue \<Rightarrow> bool" where
  "producer_view (P_Write x t next_t) q \<longleftrightarrow>
     \<not> is_full q \<and> t = tail q \<and> next_t = ucast (next_slot q t)"
| "producer_view (P_Publish x next_t) q \<longleftrightarrow>
     \<not> is_full q \<and> next_t = ucast (next_slot q (tail q)) \<and> buffer q ! unat (tail q) = x"
| "producer_view _ q \<longleftrightarrow> True"

fun consumer_view :: "consumer_pc \<Rightarrow> int circular_queue \<Rightarrow> bool" where
  "consumer_view C_Front q \<longleftrightarrow> cq_list q \<noteq> []"
| "consumer_view (C_Pop x) q \<longleftrightarrow> cq_list q \<noteq> [] \<and> x = hd (cq_list q)"
| "consumer_view C_Cas q \<longleftrightarrow> cq_list q \<noteq> []"
| "consumer_view _ q \<longleftrightarrow> True"

definition ring_inv :: "notify_state \<Rightarrow> bool" where
  "ring_inv s \<longleftrightarrow>
     cq_inv (socket_ring s) \<and> sent s = received s @ cq_list (socket_ring s)
     \<and> producer_view (ppc s) (socket_ring s) \<and> consumer_view (cpc s) (socket_ring s)"

text \<open>The views are stable under what the other thread does to the ring.\<close>

lemma consumer_view_grow:
  "consumer_view pc q \<Longrightarrow> cq_list q' = cq_list q @ xs \<Longrightarrow> consumer_view pc q'"
  by (cases "(pc, q)" rule: consumer_view.cases) auto

lemma write_slot:
  fixes q :: "'a circular_queue" and x :: 'a
  assumes "cq_inv q" "\<not> is_full q"
  defines "q' \<equiv> q\<lparr>buffer := (buffer q)[unat (tail q) := x]\<rparr>"
  shows "cq_inv q'" "cq_list q' = cq_list q" "\<not> is_full q'"
    "buffer q' ! unat (tail q') = x"
proof -
  let ?n = "length (buffer q)"
  from assms(1) have n: "unat (head q) < ?n" "unat (tail q) < ?n" by (auto simp: cq_inv_def)
  show "cq_inv q'" using assms(1) by (simp add: cq_inv_def q'_def)
  show "cq_list q' = cq_list q"
    unfolding cq_list_def q'_def using ring_index_not_end [OF n]
    by (simp add: ring_slice_update_outside)
  show "\<not> is_full q'" using assms(2) by (simp add: is_full_def next_slot_def q'_def)
  show "buffer q' ! unat (tail q') = x" using n by (simp add: q'_def)
qed

lemma publish_slot:
  assumes "cq_inv q" "\<not> is_full q" "buffer q ! unat (tail q) = x"
  defines "q' \<equiv> q\<lparr>tail := ucast (next_slot q (tail q))\<rparr>"
  shows "cq_inv q'" "cq_list q' = cq_list q @ [x]"
proof -
  have "q' = q\<lparr>buffer := (buffer q)[unat (tail q) := x], tail := ucast (next_slot q (tail q))\<rparr>"
    using assms(3) by (auto simp: q'_def)
  with push_not_full [OF assms(1,2), of x] show "cq_inv q'" "cq_list q' = cq_list q @ [x]"
    by simp_all
qed

lemma producer_ring_inv:
  assumes "ring_inv s"
  shows "ring_inv (producer_step sock s)"
proof (cases "ppc s")
  case P_Idle
  with assms show ?thesis
    by (simp add: ring_inv_def producer_step.simps Let_def is_full_u32)
next
  case (P_Write x t next_t)
  with assms write_slot [of "socket_ring s" x]
    consumer_view_grow [of "cpc s" "socket_ring s" _ "[]"] show ?thesis
    by (auto simp: ring_inv_def producer_step.simps next_slot_def)
next
  case (P_Publish x next_t)
  with assms publish_slot [of "socket_ring s" x]
    consumer_view_grow [of "cpc s" "socket_ring s" _ "[x]"] show ?thesis
    by (auto simp: ring_inv_def producer_step.simps)
next
  case P_Cas
  with assms show ?thesis by (simp add: ring_inv_def producer_step.simps)
next
  case P_Signal
  with assms show ?thesis by (simp add: ring_inv_def producer_step.simps)
qed

lemma pop_keeps_producer_view:
  assumes "cq_inv q" "cq_list q \<noteq> []"
  shows "\<not> is_full (snd (pop q))" "tail (snd (pop q)) = tail q" "buffer (snd (pop q)) = buffer q"
    "next_slot (snd (pop q)) i = next_slot q i"
  using cq.pop_makes_room [OF assms] by (simp_all add: pop_def Let_def next_slot_def)

lemma producer_view_pop:
  assumes "cq_inv q" "cq_list q \<noteq> []" "producer_view pc q"
  shows "producer_view pc (snd (pop q))"
  using pop_keeps_producer_view [OF assms(1,2)] assms(3)
  by (cases "(pc, q)" rule: producer_view.cases) auto

lemma consumer_ring_inv:
  assumes "ring_inv s" "consumer_step s = Some s'"
  shows "ring_inv s'"
proof (cases "cpc s")
  case C_Front
  with assms show ?thesis
    by (auto simp: ring_inv_def consumer_step.simps cq.front_ok split: sum.splits)
next
  case (C_Pop x)
  with assms have ne: "cq_inv (socket_ring s)" "cq_list (socket_ring s) \<noteq> []"
    and x: "x = hd (cq_list (socket_ring s))" by (auto simp: ring_inv_def)
  from C_Pop assms x cq.pop_ok [OF ne] producer_view_pop [OF ne] show ?thesis
    by (auto simp: ring_inv_def consumer_step.simps)
qed (use assms in \<open>auto simp: ring_inv_def consumer_step.simps cq.is_empty_iff Let_def split: if_splits\<close>)

lemma commit_ring_inv: "ring_inv s \<Longrightarrow> ring_inv (commit_clear s)"
  by (simp add: ring_inv_def)

lemma ring_inv_init: "ring_inv notify_init" "ring_inv notify_started"
proof -
  have "cq_inv (cq_new (0::int) 4096)" "cq_list (cq_new (0::int) 4096) = []"
    by (rule cq_new_inv; simp)+
  then show "ring_inv notify_init" "ring_inv notify_started"
    by (simp_all add: ring_inv_def notify_init_def notify_started_def)
qed

lemma ring_inv_reach: "notify_reach s0 s \<Longrightarrow> ring_inv s0 \<Longrightarrow> ring_inv s"
  by (induction rule: notify_reach.induct)
    (auto elim!: notify_stepE intro: producer_ring_inv consumer_ring_inv commit_ring_inv)

section \<open>Wake-ups\<close>

text \<open>
  The worker is handling a notification from the moment \<open>epoll_wait\<close> reports it until it
  clears the flag.
\<close>

fun handling :: "consumer_pc \<Rightarrow> bool" where
  "handling C_Flush \<longleftrightarrow> True"
| "handling C_Dequeue \<longleftrightarrow> True"
| "handling C_Front \<longleftrightarrow> True"
| "handling (C_Pop x) \<longleftrightarrow> True"
| "handling C_Clear \<longleftrightarrow> True"
| "handling _ \<longleftrightarrow> False"

text \<open>
  The flag stands for exactly one of: a notification waiting in the eventfd, one the acceptor
  is about to write, one the worker is handling, or a clear that is not yet committed. An element
  can only sit in the ring with the flag clear, or about to be, while one of the threads is still
  about to look, or after a stale test of the ring.
\<close>

definition wake_inv :: "notify_state \<Rightarrow> bool" where
  "wake_inv s \<longleftrightarrow>
     signal_open s \<and> cpc s \<noteq> C_Start
     \<and> (signal_count s > 0 \<or> handling (cpc s) \<or> ppc s = P_Signal \<longrightarrow> pending_notify s \<and> \<not> clear_pending s)
     \<and> (signal_count s > 0 \<or> handling (cpc s) \<longrightarrow> ppc s \<noteq> P_Signal)
     \<and> (handling (cpc s) \<and> cpc s \<noteq> C_Flush \<longrightarrow> signal_count s = 0)
     \<and> (clear_pending s \<longrightarrow>
          pending_notify s \<and> (cpc s = C_Recheck \<or> cpc s = C_Cas \<or> cpc s = C_Wait \<and> stale_recheck s))
     \<and> (pending_notify s \<longrightarrow> signal_count s > 0 \<or> ppc s = P_Signal \<or> handling (cpc s) \<or> clear_pending s)
     \<and> (cq_list (socket_ring s) \<noteq> [] \<and> (\<not> pending_notify s \<or> clear_pending s) \<longrightarrow>
          ppc s = P_Cas \<or> cpc s = C_Recheck \<or> cpc s = C_Cas \<or> cpc s = C_Wait \<and> stale_recheck s)
     \<and> signal_count s \<le> 1"

lemma producer_wake_inv:
  assumes "wake_inv s" "ring_inv s"
  shows "wake_inv (producer_step sock s)"
proof (cases "ppc s")
  case (P_Write x t next_t)
  with assms write_slot [of "socket_ring s" x] show ?thesis
    by (auto simp: wake_inv_def ring_inv_def producer_step.simps)
qed (use assms in \<open>auto simp: wake_inv_def producer_step.simps Let_def\<close>)

lemma commit_wake_inv: "wake_inv s \<Longrightarrow> wake_inv (commit_clear s)"
  unfolding wake_inv_def by (cases "clear_pending s") auto

lemma cas_wake_inv:
  assumes "wake_inv s" "cpc s = C_Cas" "\<not> clear_pending s"
  shows "pending_notify s \<Longrightarrow> wake_inv (s\<lparr>cpc := C_Wait\<rparr>)"
    "\<not> pending_notify s \<Longrightarrow> wake_inv (s\<lparr>pending_notify := True, cpc := C_Flush\<rparr>)"
  using assms by (simp_all add: wake_inv_def)

lemma recheck_wake_inv:
  assumes "wake_inv s" "cpc s = C_Recheck"
  shows "cq_list (socket_ring s) = [] \<Longrightarrow> wake_inv (s\<lparr>stale_recheck := clear_pending s, cpc := C_Wait\<rparr>)"
    "wake_inv (s\<lparr>stale_recheck := clear_pending s, cpc := C_Cas\<rparr>)"
  using assms by (simp_all add: wake_inv_def)

lemma consumer_wake_inv:
  assumes inv: "wake_inv s" and ring: "ring_inv s" and st: "consumer_step s = Some s'"
  shows "wake_inv s'"
proof (cases "cpc s")
  case C_Start
  with inv show ?thesis by (simp add: wake_inv_def)
next
  case C_Recheck
  with st ring have "s' = s\<lparr>stale_recheck := clear_pending s, cpc := C_Wait\<rparr> \<and> cq_list (socket_ring s) = []
      \<or> s' = s\<lparr>stale_recheck := clear_pending s, cpc := C_Cas\<rparr>"
    by (simp add: consumer_step.simps ring_inv_def cq.is_empty_iff Let_def split: if_splits)
  with recheck_wake_inv [OF inv C_Recheck] show ?thesis by blast
next
  case C_Cas
  let ?s1 = "commit_clear s"
  from C_Cas st have "s' = ?s1\<lparr>pending_notify := True, cpc := C_Flush\<rparr> \<and> \<not> pending_notify ?s1
      \<or> s' = ?s1\<lparr>cpc := C_Wait\<rparr> \<and> pending_notify ?s1"
    by (simp add: consumer_step.simps Let_def split: if_splits)
  moreover note cas_wake_inv [OF commit_wake_inv [OF inv], unfolded commit_clear_fields(5), OF C_Cas commit_clear_fields(9)]
  ultimately show ?thesis by blast
next
  case C_Wait
  with st have "s' = s\<lparr>cpc := C_Flush\<rparr>" "signal_count s > 0"
    by (simp_all add: consumer_step.simps split: if_splits)
  with inv C_Wait show ?thesis by (simp add: wake_inv_def)
next
  case C_Flush
  with st have "s' = s\<lparr>signal_count := 0\<rparr> \<or> s' = s\<lparr>cpc := C_Dequeue\<rparr> \<and> signal_count s = 0"
    by (simp add: consumer_step.simps split: if_splits)
  with inv C_Flush show ?thesis by (auto simp: wake_inv_def)
next
  case C_Dequeue
  with st have "s' = s\<lparr>cpc := C_Clear\<rparr> \<or> s' = s\<lparr>cpc := C_Front\<rparr>"
    by (simp add: consumer_step.simps split: if_splits)
  with inv C_Dequeue show ?thesis by (auto simp: wake_inv_def)
next
  case C_Front
  with st obtain x where "s' = s\<lparr>cpc := C_Pop x\<rparr>"
    by (auto simp: consumer_step.simps split: sum.splits)
  with inv C_Front show ?thesis by (simp add: wake_inv_def)
next
  case (C_Pop x)
  with inv st show ?thesis by (auto simp: wake_inv_def consumer_step.simps)
next
  case C_Clear
  with st have "s' = s\<lparr>clear_pending := True, cpc := C_Recheck\<rparr>" by (simp add: consumer_step.simps)
  with inv C_Clear show ?thesis by (auto simp: wake_inv_def)
qed

lemma wake_inv_started: "wake_inv notify_started"
proof -
  have "cq_list (cq_new (0::int) 4096) = []" by (rule cq_new_inv; simp)
  then show ?thesis by (simp add: wake_inv_def notify_started_def notify_init_def)
qed

lemma wake_inv_reach: "notify_reach s0 s \<Longrightarrow> ring_inv s0 \<Longrightarrow> wake_inv s0 \<Longrightarrow> wake_inv s"
  by (induction rule: notify_reach.induct)
    (auto elim!: notify_stepE intro: producer_wake_inv consumer_wake_inv commit_wake_inv ring_inv_reach)

lemmas started_invs = ring_inv_reach [OF _ ring_inv_init(2)]
  wake_inv_reach [OF _ ring_inv_init(2) wake_inv_started]

section \<open>Draining\<close>

text \<open>\<open>n\<close> steps of the worker alone.\<close>

fun consumer_run :: "nat \<Rightarrow> notify_state \<Rightarrow> notify_state option" where
  "consumer_run 0 s = Some s"
| "consumer_run (Suc n) s =
     (case consumer_step s of None \<Rightarrow> None | Some s' \<Rightarrow> consumer_run n s')"

text \<open>How far the worker is from waiting with an empty ring.\<close>

fun drain_rank :: "nat \<Rightarrow> nat \<Rightarrow> consumer_pc \<Rightarrow> nat" where
  "drain_rank len cnt C_Dequeue = 3 * len + 3"
| "drain_rank len cnt C_Front = 3 * len + 2"
| "drain_rank len cnt (C_Pop x) = 3 * len + 1"
| "drain_rank len cnt C_Flush = 3 * len + (if cnt > 0 then 5 else 4)"
| "drain_rank len cnt C_Wait = (if len = 0 then 0 else 3 * len + 6)"
| "drain_rank len cnt C_Cas = 3 * len + 7"
| "drain_rank len cnt C_Recheck = (if len = 0 then 1 else 3 * len + 8)"
| "drain_rank len cnt C_Clear = (if len = 0 then 2 else 3 * len + 9)"
| "drain_rank len cnt C_Start = 3 * len + 10"

definition state_rank :: "notify_state \<Rightarrow> nat" where
  "state_rank s = drain_rank (length (cq_list (socket_ring s))) (signal_count s) (cpc s)"

text \<open>The worker can go on: it does not wait, or the eventfd is readable.\<close>

definition awake :: "notify_state \<Rightarrow> bool" where
  "awake s \<longleftrightarrow> cpc s \<noteq> C_Wait \<or> signal_count s > 0"

definition drained :: "notify_state \<Rightarrow> bool" where
  "drained s \<longleftrightarrow> cpc s = C_Wait \<and> cq_list (socket_ring s) = []"

lemma consumer_progress:
  assumes "ring_inv s" "wake_inv s" "ppc s \<noteq> P_Signal" "awake s" "\<not> drained s"
  shows "\<exists>s'. consumer_step s = Some s' \<and> ppc s' = ppc s \<and> state_rank s' < state_rank s
    \<and> sent s' = sent s \<and> (awake s' \<or> drained s')"
proof (cases "cpc s")
  case C_Front
  with assms show ?thesis
    by (auto simp: ring_inv_def consumer_step.simps cq.front_ok state_rank_def awake_def)
next
  case (C_Pop x)
  with assms have ne: "cq_inv (socket_ring s)" "cq_list (socket_ring s) \<noteq> []"
    by (auto simp: ring_inv_def)
  with C_Pop assms(3) cq.pop_ok [OF ne] show ?thesis
    by (auto simp: consumer_step.simps state_rank_def neq_Nil_conv awake_def)
next
  case C_Cas
  have "pending_notify (commit_clear s) \<Longrightarrow> signal_count s > 0"
    using commit_wake_inv [OF assms(2)] C_Cas assms(3) by (simp add: wake_inv_def)
  with C_Cas show ?thesis
    by (cases "pending_notify (commit_clear s)")
      (simp_all add: consumer_step.simps Let_def state_rank_def awake_def)
qed (use assms in \<open>auto simp: wake_inv_def ring_inv_def consumer_step.simps cq.is_empty_iff Let_def
      state_rank_def awake_def drained_def\<close>)

lemma consumer_drains:
  assumes "ring_inv s" "wake_inv s" "ppc s \<noteq> P_Signal" "awake s \<or> drained s"
  shows "\<exists>n s'. consumer_run n s = Some s' \<and> cpc s' = C_Wait \<and> received s' = sent s"
  using assms
proof (induction "state_rank s" arbitrary: s rule: less_induct)
  case less
  show ?case
  proof (cases "drained s")
    case True
    with less.prems show ?thesis
      by (intro exI [of _ 0] exI [of _ s]) (simp add: ring_inv_def drained_def)
  next
    case False
    with consumer_progress less.prems obtain s1 where s1: "consumer_step s = Some s1"
      "ppc s1 = ppc s" "state_rank s1 < state_rank s" "sent s1 = sent s" "awake s1 \<or> drained s1" by blast
    with less.prems have "ring_inv s1" "wake_inv s1"
      by (auto intro: consumer_ring_inv consumer_wake_inv)
    with less.hyps s1 less.prems(3) obtain n s' where "consumer_run n s1 = Some s'" "cpc s' = C_Wait"
      "received s' = sent s" by metis
    with s1(1) show ?thesis by (intro exI [of _ "Suc n"] exI [of _ s']) simp
  qed
qed

section \<open>Properties\<close>

text \<open>
  C5: however the acceptor and the worker interleave, and whether or not the worker has
  finished its startup, what the worker has taken out followed by what is in the ring is what
  the acceptor has put in: no socket is lost, duplicated or reordered, and the ring never
  breaks its invariant.
\<close>

theorem handover_fifo:
  assumes "notify_reach notify_init s"
  shows "sent s = received s @ cq_list (socket_ring s) \<and> cq_inv (socket_ring s)"
  using ring_inv_reach [OF assms ring_inv_init(1)] by (simp add: ring_inv_def)

theorem handover_fifo_witness:
  "notify_reach notify_init (producer_step 7 notify_init)
   \<and> sent (producer_step 7 notify_init) =
       received (producer_step 7 notify_init) @ cq_list (socket_ring (producer_step 7 notify_init))
   \<and> cq_inv (socket_ring (producer_step 7 notify_init))"
proof -
  have r: "notify_reach notify_init (producer_step 7 notify_init)"
    by (rule notify_reach.step [OF notify_reach.start notify_step.producer])
  from handover_fifo [OF r] r show ?thesis by blast
qed

text \<open>
  C36: no data race on the slots of the ring: whenever the acceptor is about to store an
  element, its slot lies inside the buffer and is not the slot at the head, the only one the
  worker reads.
\<close>

theorem handover_no_race:
  assumes "notify_reach notify_init s" "ppc s = P_Write x t next_t"
  shows "unat t < length (buffer (socket_ring s))
    \<and> (cpc s = C_Front \<longrightarrow> t \<noteq> head (socket_ring s))"
proof -
  from ring_inv_reach [OF assms(1) ring_inv_init(1)] have inv: "ring_inv s" .
  with assms(2) have "cq_inv (socket_ring s)" "t = tail (socket_ring s)"
    by (auto simp: ring_inv_def)
  moreover from this inv have "t \<noteq> head (socket_ring s)" if "cpc s = C_Front"
    using that is_empty_list [of "socket_ring s"] by (auto simp: ring_inv_def is_empty_def Let_def)
  ultimately show ?thesis by (auto simp: cq_inv_def)
qed

lemma fresh_ring: "tail (cq_new 0 4096) = 0" "head (cq_new 0 4096) = 0"
  "(ucast (next_slot (cq_new 0 4096) 0) :: u32) = 1"
proof -
  have "round_to_pow2 4096 = 4096"
    by (simp add: round_to_pow2_def smear_loop.simps Let_def)
  then show "tail (cq_new 0 4096) = 0" "head (cq_new 0 4096) = 0"
    "(ucast (next_slot (cq_new 0 4096) 0) :: u32) = 1"
    by (simp_all add: cq_new_def next_slot_def)
qed

lemma first_push: "producer_step sock notify_init = notify_init\<lparr>ppc := P_Write sock 0 1\<rparr>"
  by (simp add: producer_step.simps notify_init_def fresh_ring)

theorem handover_no_race_witness:
  "notify_reach notify_init (producer_step 7 notify_init)
   \<and> ppc (producer_step 7 notify_init) = P_Write 7 0 1
   \<and> unat (0 :: u32) < length (buffer (socket_ring (producer_step 7 notify_init)))"
proof -
  have r: "notify_reach notify_init (producer_step 7 notify_init)"
    by (rule notify_reach.step [OF notify_reach.start notify_step.producer])
  have p: "ppc (producer_step 7 notify_init) = P_Write 7 0 1" by (simp add: first_push)
  from handover_no_race [OF r p] r p show ?thesis by blast
qed

lemma notify_reach_producer: "notify_reach s0 s \<Longrightarrow> notify_reach s0 (producer_step sock s)"
  by (blast intro: notify_reach.step notify_step.producer)

lemma notify_reach_consumer: "notify_reach s0 s \<Longrightarrow> consumer_step s = Some s' \<Longrightarrow> notify_reach s0 s'"
  by (blast intro: notify_reach.step notify_step.consumer)

text \<open>\<open>enqueue_sock\<close> on an idle acceptor: the five steps of one call.\<close>

definition enqueue_steps :: "int \<Rightarrow> notify_state \<Rightarrow> notify_state" where
  "enqueue_steps sock s = producer_step sock (producer_step sock (producer_step sock
     (producer_step sock (producer_step sock s))))"

lemma enqueue_steps_reach: "notify_reach s0 s \<Longrightarrow> notify_reach s0 (enqueue_steps sock s)"
  unfolding enqueue_steps_def by (intro notify_reach_producer)



lemma started_enqueue:
  "signal_count (enqueue_steps sock notify_started) = 1" "ppc (enqueue_steps sock notify_started) = P_Idle"
  "cpc (enqueue_steps sock notify_started) = C_Wait" "sent (enqueue_steps sock notify_started) = [sock]"
  "received (enqueue_steps sock notify_started) = []"
  "stale_recheck (enqueue_steps sock notify_started) = False"
  by (simp_all add: enqueue_steps_def producer_step.simps notify_started_def notify_init_def fresh_ring)

lemma started_enqueue_ring: "cq_list (socket_ring (enqueue_steps sock notify_started)) = [sock]"
proof -
  have "ring_inv (enqueue_steps sock notify_started)"
    by (rule started_invs(1) [OF enqueue_steps_reach [OF notify_reach.start]])
  then show ?thesis by (simp add: ring_inv_def started_enqueue)
qed


text \<open>
  C7: a worker that is awake, or whose eventfd is readable, empties the ring: from every such
  state reachable after startup, unless the acceptor is just about to write to the eventfd, finitely
  many steps of the worker alone bring it back to \<open>epoll_wait\<close> with every socket that was ever put in
  taken out, in order.
\<close>

theorem worker_drains:
  assumes "notify_reach notify_started s" "ppc s \<noteq> P_Signal" "cpc s \<noteq> C_Wait \<or> signal_count s > 0"
  shows "\<exists>n s'. consumer_run n s = Some s' \<and> cpc s' = C_Wait \<and> received s' = sent s"
  using consumer_drains [OF started_invs [OF assms(1)] assms(2)] assms(3) by (simp add: awake_def)

theorem worker_drains_witness:
  "notify_reach notify_started (enqueue_steps 7 notify_started)
   \<and> received (enqueue_steps 7 notify_started) = []
   \<and> (\<exists>n s'. consumer_run n (enqueue_steps 7 notify_started) = Some s' \<and> cpc s' = C_Wait \<and> received s' = [7])"
proof -
  have r: "notify_reach notify_started (enqueue_steps 7 notify_started)"
    by (rule enqueue_steps_reach [OF notify_reach.start])
  from worker_drains [OF r] r show ?thesis by (simp add: started_enqueue)
qed

text \<open>A worker that is woken for one socket takes it out, puts the clear into its buffer and tests the ring.\<close>

lemma consumer_run_reach: "notify_reach s0 s \<Longrightarrow> consumer_run n s = Some s' \<Longrightarrow> notify_reach s0 s'"
  by (induction n arbitrary: s) (auto intro: notify_reach_consumer split: option.splits)

lemma one_socket_round:
  assumes "ring_inv s" "cpc s = C_Wait" "signal_count s = 1" "cq_list (socket_ring s) = [x]"
  shows "consumer_run 9 s = Some (s\<lparr>socket_ring := snd (pop (socket_ring s)), signal_count := 0, cpc := C_Wait,
    clear_pending := True, received := received s @ [x], stale_recheck := True\<rparr>)"
proof -
  have q: "cq_inv (socket_ring s)" "cq_list (socket_ring s) \<noteq> []" using assms(1,4) by (simp_all add: ring_inv_def)
  have "front (socket_ring s) = Inr x" "\<not> is_empty (socket_ring s)" "is_empty (snd (pop (socket_ring s)))"
    using cq.front_ok [OF q] cq.is_empty_iff [OF q(1)] cq.pop_ok [OF q] cq.is_empty_iff assms(4) by auto
  with assms(2,3) show ?thesis by (simp add: eval_nat_numeral consumer_step.simps Let_def)
qed

lemma unsignalled_enqueue:
  assumes "ring_inv s" "ppc s = P_Idle" "\<not> is_full (socket_ring s)" "pending_notify s"
  shows "(producer_step sock ^^ 4) s = s\<lparr>sent := sent s @ [sock], socket_ring := (socket_ring s)\<lparr>
    buffer := (buffer (socket_ring s))[unat (tail (socket_ring s)) := sock],
    tail := ucast (next_slot (socket_ring s) (tail (socket_ring s)))\<rparr>\<rparr>"
  using assms is_full_u32 [of "socket_ring s"]
  by (simp add: eval_nat_numeral producer_step.simps Let_def ring_inv_def)

lemma producer_steps_reach: "notify_reach s0 s \<Longrightarrow> notify_reach s0 ((producer_step sock ^^ n) s)"
  by (induction n) (simp_all add: notify_reach_producer)

text \<open>
  C23: a wake-up can be lost: there is a reachable state in which the acceptor is between two calls,
  a socket is in the ring, all stores are committed, and the worker waits on an eventfd that is not
  readable, so that neither the worker nor the memory can do anything. The worker had tested the ring
  before its clear of the flag was visible, and the acceptor had found the flag still set.
\<close>

theorem wakeup_can_be_lost:
  "\<exists>s. notify_reach notify_started s \<and> sent s = [x, y] \<and> received s = [x] \<and> cq_list (socket_ring s) = [y]
    \<and> ppc s = P_Idle \<and> cpc s = C_Wait \<and> signal_count s = 0 \<and> \<not> clear_pending s
    \<and> consumer_step s = None \<and> commit_clear s = s"
proof -
  let ?s1 = "enqueue_steps x notify_started"
  have r1: "notify_reach notify_started ?s1" by (rule enqueue_steps_reach [OF notify_reach.start])
  note inv1 = started_invs [OF r1]
  have q1: "cq_list (socket_ring ?s1) = [x]" by (rule started_enqueue_ring)
  let ?s2 = "?s1\<lparr>socket_ring := snd (pop (socket_ring ?s1)), signal_count := 0, cpc := C_Wait,
    clear_pending := True, received := received ?s1 @ [x], stale_recheck := True\<rparr>"
  have r2: "notify_reach notify_started ?s2"
    by (rule consumer_run_reach [OF r1 one_socket_round]) (use inv1(1) q1 in \<open>simp_all add: started_enqueue\<close>)
  have full: "\<not> is_full (socket_ring ?s2)"
    using inv1(1) q1 pop_keeps_producer_view(1) [of "socket_ring ?s1"] by (simp add: ring_inv_def)
  have flag: "pending_notify ?s2" using inv1(2) by (simp add: wake_inv_def started_enqueue)
  have idle: "ppc ?s2 = P_Idle" by (simp add: started_enqueue)
  let ?s3 = "(producer_step y ^^ 4) ?s2"
  have s3: "sent ?s3 = [x, y]" "received ?s3 = [x]" "ppc ?s3 = P_Idle" "cpc ?s3 = C_Wait" "signal_count ?s3 = 0"
    unfolding unsignalled_enqueue [OF started_invs(1) [OF r2] idle full flag] by (simp_all add: started_enqueue)
  have r3: "notify_reach notify_started (commit_clear ?s3)"
    by (rule notify_reach.step [OF producer_steps_reach [OF r2] notify_step.memory])
  have "cq_list (socket_ring ?s3) = [y]" using started_invs(1) [OF r3] s3 by (simp add: ring_inv_def)
  with r3 s3 show ?thesis
    by (intro exI [of _ "commit_clear ?s3"]) (simp add: consumer_step.simps commit_clear_def)
qed

text \<open>The states of a worker whose first notification was written before startup.\<close>

definition deaf :: "notify_state \<Rightarrow> bool" where
  "deaf s \<longleftrightarrow> pending_notify s \<and> \<not> clear_pending s \<and> signal_count s = 0 \<and> cpc s = C_Wait \<and> ppc s \<noteq> P_Signal
     \<and> received s = []"

lemma deaf_step: "notify_step s s' \<Longrightarrow> deaf s \<Longrightarrow> deaf s'"
  by (erule notify_stepE)
    (auto simp: deaf_def producer_step.simps consumer_step.simps commit_clear_def Let_def split: producer_pc.splits)

lemma deaf_forever: "notify_reach s s' \<Longrightarrow> deaf s \<Longrightarrow> deaf s'"
  by (induction rule: notify_reach.induct) (auto intro: deaf_step)

lemma early_enqueue_fields:
  "ppc (enqueue_steps sock notify_init) = P_Idle" "cpc (enqueue_steps sock notify_init) = C_Start"
  "pending_notify (enqueue_steps sock notify_init)" "\<not> clear_pending (enqueue_steps sock notify_init)"
  "signal_count (enqueue_steps sock notify_init) = 0"
  "sent (enqueue_steps sock notify_init) = [sock]" "received (enqueue_steps sock notify_init) = []"
  unfolding enqueue_steps_def first_push
  by (simp_all add: producer_step.simps notify_init_def)

text \<open>
  C37: a socket enqueued before the worker thread has created its eventfd is lost, and the
  worker with it: there is a reachable state in which the socket is in the ring and from
  which, however both threads go on, the worker never leaves \<open>epoll_wait\<close> and never takes a
  socket again.
\<close>

theorem early_enqueue_deafens_worker:
  "\<exists>s. notify_reach notify_init s \<and> sent s = [sock] \<and> ppc s = P_Idle
    \<and> (\<forall>s'. notify_reach s s' \<longrightarrow> cpc s' = C_Wait \<and> received s' = [])"
proof -
  let ?s = "(enqueue_steps sock notify_init)\<lparr>signal_open := True, cpc := C_Wait\<rparr>"
  have "notify_reach notify_init (enqueue_steps sock notify_init)"
    by (intro enqueue_steps_reach notify_reach.start)
  moreover have "consumer_step (enqueue_steps sock notify_init) = Some ?s"
    by (simp add: consumer_step.simps early_enqueue_fields)
  ultimately have "notify_reach notify_init ?s"
    by (blast intro: notify_reach.step notify_step.consumer)
  moreover have "deaf ?s" by (simp add: deaf_def early_enqueue_fields)
  then have "\<forall>s'. notify_reach ?s s' \<longrightarrow> cpc s' = C_Wait \<and> received s' = []"
    using deaf_forever by (auto simp: deaf_def)
  ultimately show ?thesis
    by (intro exI [of _ ?s]) (simp add: early_enqueue_fields)
qed

theorem early_enqueue_deafens_worker_witness:
  "\<exists>s. notify_reach notify_init s \<and> sent s = [9] \<and> ppc s = P_Idle
    \<and> cpc s = C_Wait \<and> received s = []"
  using early_enqueue_deafens_worker [of 9] by (blast intro: notify_reach.start)

end
