(* ===== verification/Notify_Refinement.thy ===== *)
theory Notify_Refinement
  imports Worker_Sockets Notify_Protocol
begin

text \<open>
  The hand-over of sockets is modelled twice: as whole functions of the worker (\<open>enqueue_sock\<close>,
  \<open>handle_signal\<close>) and as the small steps of two threads (\<open>Notify_Protocol\<close>). Here \<open>enqueue_sock\<close> and the
  two parts of \<open>handle_signal\<close>, a round and the decision whether to go round again, are shown to do what
  sequences of the small steps of their threads do, so that what is proved of all interleavings of the
  steps covers the functions.
\<close>

section \<open>The two views of a worker\<close>

text \<open>
  The documented behaviour of the non-blocking eventfd \<open>fd\<close>, whose counter \<open>c\<close> observes. A write takes
  the first eight bytes of its buffer as a number in the byte order of the host (little-endian here)
  and adds it to the counter; it fails, and changes nothing, when it is interrupted, the buffer is
  shorter, the sum does not fit below \<open>2 ^ 64 - 1\<close>, or the descriptor is not open. Reading eight bytes
  takes all of the counter, and fails when it is zero. No other call changes it.
\<close>

fun le_value :: "string \<Rightarrow> nat" where
  "le_value [] = 0"
| "le_value (b # bs) = of_char b + 256 * le_value bs"

definition eventfd_laws :: "('l, 'o) sys \<Rightarrow> int \<Rightarrow> ('o \<Rightarrow> nat) \<Rightarrow> bool" where
  "eventfd_laws sy fd c \<longleftrightarrow>
     call_laws sy c (\<lambda>fd n. n)
     \<and> (\<forall>os buf n os'. sys_write sy os fd buf = (Wrote n, os') \<longrightarrow>
          0 \<le> fd \<and> n = 8 \<and> 8 \<le> length buf \<and> c os' = c os + le_value (take 8 buf) \<and> c os' < 2 ^ 64 - 1)
     \<and> (\<forall>os buf e os'. sys_write sy os fd buf = (WriteError e, os') \<longrightarrow>
          c os' = c os
          \<and> (e = EINTR \<or> fd < 0 \<or> length buf < 8 \<or> 2 ^ 64 - 1 \<le> c os + le_value (take 8 buf)))
     \<and> (\<forall>os data os'. sys_read sy os fd 8 = (ReadBytes data, os') \<longrightarrow> length data = 8 \<and> 0 < c os \<and> c os' = 0)
     \<and> (\<forall>os e os'. sys_read sy os fd 8 = (ReadError e, os') \<longrightarrow> c os' = c os \<and> (c os = 0 \<or> fd < 0))"

lemma eventfd_lawsD:
  assumes "eventfd_laws sy fd c"
  shows "call_laws sy c (\<lambda>fd n. n)"
    "sys_write sy os fd buf = (Wrote n, os') \<Longrightarrow> 0 \<le> fd \<and> c os' = c os + le_value (take 8 buf)"
    "sys_write sy os fd buf = (WriteError e, os') \<Longrightarrow> c os' = c os
       \<and> (e = EINTR \<or> fd < 0 \<or> length buf < 8 \<or> 2 ^ 64 - 1 \<le> c os + le_value (take 8 buf))"
    "sys_read sy os fd 8 = (ReadBytes data, os') \<Longrightarrow> length data = 8 \<and> 0 < c os \<and> c os' = 0"
    "sys_read sy os fd 8 = (ReadError e, os') \<Longrightarrow> c os' = c os \<and> (c os = 0 \<or> fd < 0)"
  using assms unfolding eventfd_laws_def by blast+

text \<open>
  A worker and a state of the protocol show the same: the ring, the flag, the counter of the eventfd
  and whether it is open. The functions are run on the committed memory, so nothing is in a store
  buffer.
\<close>

definition sees :: "('o \<Rightarrow> nat) \<Rightarrow> ('n, 'h, 'l, 'o) worker \<Rightarrow> notify_state \<Rightarrow> bool" where
  "sees c w s \<longleftrightarrow>
     socket_ring s = wk_socket_queue w \<and> pending_notify s = wk_pending_notify w
     \<and> \<not> clear_pending s
     \<and> signal_count s = c (wk_os w) \<and> signal_open s = (0 \<le> wk_signal_fd w)"

section \<open>The acceptor thread\<close>

text \<open>The eight bytes that \<open>enqueue_sock\<close> writes are the number one.\<close>

lemma le_value_signal: "le_value (take 8 (CHR 0x01 # replicate 7 (CHR 0x00))) = 1"
  by (simp add: eval_nat_numeral)

lemma write_signal_counts:
  "write_signal sy fd os = Some os' \<Longrightarrow> eventfd_laws sy fd c \<longrightarrow> c os + 1 < 2 ^ 64 - 1 \<longrightarrow>
   c os' = (if 0 \<le> fd then c os + 1 else c os)"
proof (induction rule: write_signal_induct)
  case (step f sy fd os os')
  let ?buf = "CHR 0x01 # replicate 7 (CHR 0x00)"
  obtain r os1 where r: "sys_write sy os fd ?buf = (r, os1)" by fastforce
  show ?case
  proof (intro impI)
    assume l: "eventfd_laws sy fd c" and room: "c os + 1 < 2 ^ 64 - 1"
    show "c os' = (if 0 \<le> fd then c os + 1 else c os)"
    proof (cases r)
      case (Wrote n)
      with eventfd_lawsD(2) [OF l, of os ?buf] r le_value_signal step.hyps show ?thesis by simp
    next
      case (WriteError e)
      with eventfd_lawsD(3) [OF l, of os ?buf] r le_value_signal room
      have e: "c os1 = c os" "e = EINTR \<or> fd < 0" by auto
      have "c os' = (if 0 \<le> fd then c os1 + 1 else c os1)" if "f sy fd os1 = Some os'"
        using step.IH [OF that] l room e(1) by simp
      with step.hyps r WriteError e show ?thesis by (auto split: if_splits)
    qed
  qed
qed

text \<open>The steps of one call that finds room in the ring.\<close>

lemma producer_steps:
  fixes sock :: int
  assumes "ppc s = P_Idle" "ucast (next_slot (socket_ring s) (tail (socket_ring s))) \<noteq> head (socket_ring s)"
  defines "q \<equiv> (socket_ring s)\<lparr>buffer := (buffer (socket_ring s))[unat (tail (socket_ring s)) := sock],
    tail := ucast (next_slot (socket_ring s) (tail (socket_ring s)))\<rparr>"
  shows "\<exists>n. (producer_step sock ^^ n) s = s\<lparr>socket_ring := q, sent := sent s @ [sock], pending_notify := True,
      signal_count := (if pending_notify s \<or> \<not> signal_open s then signal_count s else signal_count s + 1)\<rparr>"
proof (cases "pending_notify s")
  case True
  have "(producer_step sock ^^ 4) s = s\<lparr>socket_ring := q, sent := sent s @ [sock], pending_notify := True\<rparr>"
    using assms True by (simp add: numeral_eq_Suc producer_step.simps Let_def)
  with True show ?thesis by (intro exI [of _ 4]) simp
next
  case False
  have "(producer_step sock ^^ 5) s = s\<lparr>socket_ring := q, sent := sent s @ [sock], pending_notify := True,
      signal_count := (if \<not> signal_open s then signal_count s else signal_count s + 1)\<rparr>"
    using assms False by (simp add: numeral_eq_Suc producer_step.simps Let_def)
  with False show ?thesis by (intro exI [of _ 5]) simp
qed

section \<open>The worker thread\<close>

abbreviation consumer_runs :: "notify_state \<Rightarrow> notify_state \<Rightarrow> bool" where
  "consumer_runs \<equiv> (\<lambda>s s'. consumer_step s = Some s' \<or> s' = commit_clear s)\<^sup>*\<^sup>*"

lemma consumer_run_step: "consumer_step s = Some s1 \<Longrightarrow> consumer_runs s1 s2 \<Longrightarrow> consumer_runs s s2"
  by (rule converse_rtranclp_into_rtranclp) simp_all

lemma consumer_run_commit: "consumer_runs (commit_clear s) s2 \<Longrightarrow> consumer_runs s s2"
  by (rule converse_rtranclp_into_rtranclp) simp_all

lemma flush_signal_counts:
  "flush_signal sy fd os = Some os' \<Longrightarrow> eventfd_laws sy fd c \<longrightarrow> 0 \<le> fd \<longrightarrow> c os' = 0"
proof (induction rule: flush_signal_induct)
  case (step f sy fd os os')
  obtain r os1 where r: "sys_read sy os fd 8 = (r, os1)" by fastforce
  show ?case
  proof (intro impI)
    assume l: "eventfd_laws sy fd c" and fd: "0 \<le> fd"
    have "c os' = 0" if "f sy fd os1 = Some os'" using step.IH [OF that] l fd by blast
    then show "c os' = 0" using step.hyps r fd eventfd_lawsD(4,5) [OF l, of os] by (cases r) (auto split: if_splits)
  qed
qed

lemma consumer_flush: "cpc s = C_Flush \<Longrightarrow> consumer_runs s (s\<lparr>signal_count := 0, cpc := C_Dequeue\<rparr>)"
proof (cases "signal_count s = 0")
  case True
  assume "cpc s = C_Flush"
  with True have "consumer_step s = Some (s\<lparr>signal_count := 0, cpc := C_Dequeue\<rparr>)" by (simp add: consumer_step.simps)
  then show ?thesis by (rule consumer_run_step) simp
next
  case False
  assume "cpc s = C_Flush"
  with False have "consumer_step s = Some (s\<lparr>signal_count := 0\<rparr>)"
    "consumer_step (s\<lparr>signal_count := 0\<rparr>) = Some (s\<lparr>signal_count := 0, cpc := C_Dequeue\<rparr>)"
    by (simp_all add: consumer_step.simps)
  then show ?thesis by (blast intro: consumer_run_step)
qed

definition same_signal :: "('o \<Rightarrow> nat) \<Rightarrow> ('n, 'h, 'l, 'o) worker \<Rightarrow> ('n, 'h, 'l, 'o) worker \<Rightarrow> bool" where
  "same_signal c w w' \<longleftrightarrow>
     c (wk_os w') = c (wk_os w) \<and> wk_socket_queue w' = wk_socket_queue w
     \<and> wk_signal_fd w' = wk_signal_fd w \<and> wk_pending_notify w' = wk_pending_notify w"

lemma new_connection_quiet:
  fixes w :: "('n, 'h, 'l, 'o) worker"
  assumes "call_laws (pf_sys pf) c (\<lambda>fd n. n)"
  shows "gives (same_signal c w) (Some (new_connection pf sock w))"
proof -
  have admit: "gives (\<lambda>(sd', w'). same_signal c w w') (Some (admit_connection pf sock sd w1))"
    if "same_signal c w w1" for sd w1
    by (rule gives_mono [OF admit_settles [OF assms]])
      (use that in \<open>auto simp: settles_def quiet_def same_signal_def\<close>)
  have release: "same_signal c w (release_session pf sock sd' w')" if "same_signal c w w'" for sd' w'
    using that by (simp add: release_session_def same_signal_def split: option.split)
  obtain rv and sd0 :: "('n, 'h, 'l) session_data"
    where i: "init_session_data (pf_ng pf) new_session_data = (rv, sd0)" by fastforce
  have "same_signal c w (w\<lparr>wk_os := sys_close (pf_sys pf) (wk_os w) sock\<rparr>)"
    by (simp add: same_signal_def call_lawsD(1) [OF assms])
  moreover have "gives (same_signal c w) (Some (obind
      (admit_connection pf sock sd (if b then w\<lparr>wk_session_map := m\<rparr> else w))
      (\<lambda>(sd', w'). Inr (if b then release_session pf sock sd' w'
         else w'\<lparr>wk_fs := destroy_session (pf_host pf) sd' (wk_fs w')\<rparr>))))" for sd b m
    by (rule gives_obind [OF admit]) (use release in \<open>auto simp: same_signal_def\<close>)
  ultimately show ?thesis by (simp add: new_connection_def i Let_def)
qed

text \<open>Taking all sockets out of the ring, one after the other.\<close>

lemma connections_refine:
  assumes "call_laws (pf_sys pf) c (\<lambda>fd n. n)"
    and "cq_inv (wk_socket_queue w)" "\<forall>x \<in> set (cq_list (wk_socket_queue w)). 0 \<le> x"
    and "sees c w s" "cpc s = C_Dequeue" "handle_new_connections pf w = Some (Inr w')"
  shows "\<exists>s'. consumer_runs s s' \<and> sees c w' s' \<and> cpc s' = C_Clear \<and> ppc s' = ppc s \<and> sent s' = sent s
    \<and> received s' = received s @ cq_list (wk_socket_queue w) \<and> is_empty (wk_socket_queue w')"
  using assms(2-)
proof (induction "length (cq_list (wk_socket_queue w))" arbitrary: w s rule: less_induct)
  case less
  let ?q = "wk_socket_queue w"
  note inv = less.prems(1) and eq = handle_new_connections.simps [of pf w]
  have ring: "socket_ring s = ?q" using less.prems(3) by (simp add: sees_def)
  show ?case
  proof (cases "cq_list ?q")
    case Nil
    then have "is_empty ?q" using cq.is_empty_iff [OF inv] by simp
    then have "consumer_step s = Some (s\<lparr>cpc := C_Clear\<rparr>)" "w' = w"
      using less.prems(4,5) inv Nil by (simp_all add: consumer_step.simps ring eq dequeue_form)
    with less.prems(3) Nil \<open>is_empty ?q\<close> show ?thesis
      by (intro exI [of _ "s\<lparr>cpc := C_Clear\<rparr>"]) (auto simp: sees_def intro: consumer_run_step)
  next
    case (Cons x rest)
    let ?w = "w\<lparr>wk_socket_queue := snd (pop ?q)\<rparr>"
    have ne: "\<not> is_empty ?q" and fr: "front ?q = Inr x" and p: "cq_list (snd (pop ?q)) = rest" "cq_inv (snd (pop ?q))"
      using cq.is_empty_iff [OF inv] cq.front_ok [OF inv] cq.pop_ok [OF inv] Cons by auto
    from less.prems(5) less.prems(2) Cons inv obtain w2 where
      n: "new_connection pf x ?w = Inr w2" and h: "handle_new_connections pf w2 = Some (Inr w')"
      by (auto simp: eq dequeue_form split: sum.splits)
    let ?s = "s\<lparr>socket_ring := snd (pop ?q), cpc := C_Dequeue, received := received s @ [x]\<rparr>"
    have "consumer_step s = Some (s\<lparr>cpc := C_Front\<rparr>)"
      "consumer_step (s\<lparr>cpc := C_Front\<rparr>) = Some (s\<lparr>cpc := C_Pop x\<rparr>)" "consumer_step (s\<lparr>cpc := C_Pop x\<rparr>) = Some ?s"
      using less.prems(4) ne fr by (simp_all add: consumer_step.simps ring)
    then have run: "consumer_runs s t" if "consumer_runs ?s t" for t using that by (blast intro: consumer_run_step)
    have k: "c (wk_os w2) = c (wk_os w)" "wk_socket_queue w2 = snd (pop ?q)" "wk_signal_fd w2 = wk_signal_fd w"
      "wk_pending_notify w2 = wk_pending_notify w"
      using new_connection_quiet [OF assms(1), of ?w x] n by (simp_all add: same_signal_def)
    have "\<exists>s'. consumer_runs ?s s' \<and> sees c w' s' \<and> cpc s' = C_Clear \<and> ppc s' = ppc ?s \<and> sent s' = sent ?s
        \<and> received s' = received ?s @ cq_list (wk_socket_queue w2) \<and> is_empty (wk_socket_queue w')"
      by (rule less.hyps) (use k p Cons less.prems(2,3) h in \<open>simp_all add: sees_def\<close>)
    then obtain s' where s': "consumer_runs ?s s'" "sees c w' s'" "cpc s' = C_Clear" "ppc s' = ppc ?s" "sent s' = sent ?s"
      "received s' = received ?s @ cq_list (wk_socket_queue w2)" "is_empty (wk_socket_queue w')" by blast
    then show ?thesis using run [OF s'(1)] k p Cons by (intro exI [of _ s']) simp
  qed
qed

text \<open>The re-check of the ring and the compare-and-swap of the flag that follow a round.\<close>

lemma decision_refines:
  assumes "sees c w s" "cpc s = C_Recheck" "signal_again w = (again, w')"
  shows "\<exists>s'. consumer_runs s s' \<and> sees c w' s' \<and> cpc s' = (if again then C_Flush else C_Wait)
    \<and> ppc s' = ppc s \<and> sent s' = sent s \<and> received s' = received s"
proof -
  let ?s = "s\<lparr>stale_recheck := False\<rparr>"
  have v: "socket_ring s = wk_socket_queue w" "pending_notify s = wk_pending_notify w" "\<not> clear_pending s"
    using assms(1) by (simp_all add: sees_def)
  show ?thesis
  proof (cases "is_empty (wk_socket_queue w)")
    case True
    have "consumer_step s = Some (?s\<lparr>cpc := C_Wait\<rparr>)" using assms(2) v True by (simp add: consumer_step.simps)
    then have "consumer_runs s (?s\<lparr>cpc := C_Wait\<rparr>)" by (blast intro: consumer_run_step)
    with assms True show ?thesis by (intro exI [of _ "?s\<lparr>cpc := C_Wait\<rparr>"]) (auto simp: sees_def signal_again_def)
  next
    case False
    let ?s' = "if wk_pending_notify w then ?s\<lparr>cpc := C_Wait\<rparr> else ?s\<lparr>pending_notify := True, cpc := C_Flush\<rparr>"
    have "consumer_step s = Some (?s\<lparr>cpc := C_Cas\<rparr>)" "consumer_step (?s\<lparr>cpc := C_Cas\<rparr>) = Some ?s'"
      using assms(2) v False by (simp_all add: consumer_step.simps commit_clear_def)
    then have "consumer_runs s ?s'" by (blast intro: consumer_run_step)
    with assms False show ?thesis
      by (intro exI [of _ ?s']) (auto simp: sees_def signal_again_def split: if_splits)
  qed
qed

section \<open>Properties\<close>

text \<open>A system for the witnesses, whose state is the counter of the eventfd 4.\<close>

definition counter_sys :: "(unit, nat) sys" where
  "counter_sys = \<lparr>
     sys_read = (\<lambda>os fd n. if os = 0 then (ReadError EAGAIN, 0) else (ReadBytes (replicate 8 (CHR 0x01)), 0)),
     sys_write = (\<lambda>os fd buf.
       if fd < 0 \<or> length buf < 8 then (WriteError EOTHER, os)
       else if os + le_value (take 8 buf) < 2 ^ 64 - 1 then (Wrote 8, os + le_value (take 8 buf))
       else (WriteError EAGAIN, os)),
     sys_close = (\<lambda>os fd. os), sys_epoll_ctl = (\<lambda>os ep op fd ev. (None, os)),
     sys_epoll_create = (\<lambda>os. (3, os)), sys_eventfd = (\<lambda>os. (4, os)), sys_epoll_wait = (\<lambda>os ep. (Inl EOTHER, os)),
     ssl_new = (\<lambda>os ctx. (None, os)), ssl_set_fd = (\<lambda>os s fd. os), ssl_accept = (\<lambda>os s. (None, os)),
     ssl_read = (\<lambda>os s n. (SslReadError SSL_ERROR_WANT_READ, os)), ssl_write = (\<lambda>os s buf. (SslWrote (length buf), os)),
     ssl_want_read = (\<lambda>os s. False), ssl_want_write = (\<lambda>os s. False), ssl_alpn = (\<lambda>os s. None),
     ssl_shutdown = (\<lambda>os s. os)\<rparr>"

definition counter_pf :: "(demo_session, app_handler, unit, nat) platform" where
  "counter_pf = \<lparr>pf_host = demo_host, pf_ng = demo_ng, pf_call = app_call demo_host demo_ng,
     pf_sys = counter_sys, pf_ssl = demo_ssl_lib\<rparr>"

definition counter_worker :: "nat \<Rightarrow> (demo_session, app_handler, unit, nat) worker" where
  "counter_worker n = (worker_new (Some app_routes) False Map.empty n)\<lparr>wk_signal_fd := 4\<rparr>"

lemma counter_laws: "eventfd_laws (pf_sys counter_pf) 4 (\<lambda>os. os)"
  by (auto simp: eventfd_laws_def call_laws_def counter_pf_def counter_sys_def split: if_splits)

lemma counter_queue: "cq_inv (wk_socket_queue (counter_worker n))" "cq_list (wk_socket_queue (counter_worker n)) = []"
  using worker_new_queue [of "Some app_routes" False Map.empty n] by (simp_all add: counter_worker_def)

lemma counter_sees: "sees (\<lambda>os. os) (counter_worker n) (notify_started\<lparr>signal_count := n\<rparr>)"
  by (simp add: sees_def counter_worker_def worker_new_eq notify_started_def notify_init_def)

text \<open>
  C8: a call of \<open>enqueue_sock\<close> does what steps of the acceptor thread of the hand-over protocol do: the
  ring, the flag and the counter of the eventfd end in the same state, and the socket counts as
  sent exactly when the call returns true. The counter must have room for one more signal.
\<close>

theorem enqueue_refines_protocol:
  assumes "eventfd_laws (pf_sys pf) (wk_signal_fd w) c" "cq_inv (wk_socket_queue w)"
    and "c (wk_os w) + 1 < 2 ^ 64 - 1"
    and "sees c w s" "ppc s = P_Idle" "enqueue_sock pf sock w = Some (Inr (ok, w'))"
  shows "\<exists>n s'. (producer_step sock ^^ n) s = s' \<and> sees c w' s' \<and> ppc s' = P_Idle \<and> cpc s' = cpc s
    \<and> sent s' = sent s @ (if ok then [sock] else []) \<and> received s' = received s"
proof (cases "is_full (wk_socket_queue w)")
  case True
  with push_when_full [OF assms(2) True] assms(4-6) show ?thesis
    by (intro exI [of _ 0]) (simp add: enqueue_sock_def sees_def)
next
  case False
  let ?q = "wk_socket_queue w"
  let ?q' = "?q\<lparr>buffer := (buffer ?q)[unat (tail ?q) := sock], tail := ucast (next_slot ?q (tail ?q))\<rparr>"
  have ring: "socket_ring s = ?q" using assms(4) by (simp add: sees_def)
  have "ucast (next_slot (socket_ring s) (tail (socket_ring s))) \<noteq> head (socket_ring s)"
    using False is_full_u32 [OF assms(2)] by (simp add: ring)
  from producer_steps [OF assms(5) this, of sock] obtain n where
    n: "(producer_step sock ^^ n) s = s\<lparr>socket_ring := ?q', sent := sent s @ [sock], pending_notify := True,
      signal_count := (if pending_notify s \<or> \<not> signal_open s then signal_count s else signal_count s + 1)\<rparr>"
    unfolding ring by blast
  have w': "ok \<and> wk_socket_queue w' = ?q' \<and> wk_pending_notify w' \<and> wk_signal_fd w' = wk_signal_fd w
      \<and> (if wk_pending_notify w then wk_os w' = wk_os w
         else write_signal (pf_sys pf) (wk_signal_fd w) (wk_os w) = Some (wk_os w'))"
    using assms(6) push_not_full(1) [OF assms(2) False, of sock]
    by (auto simp: enqueue_sock_def Let_def split: if_splits option.splits)
  have "c (wk_os w') = (if wk_pending_notify w \<or> \<not> 0 \<le> wk_signal_fd w then c (wk_os w) else c (wk_os w) + 1)"
    using w' write_signal_counts [of "pf_sys pf" "wk_signal_fd w" "wk_os w" "wk_os w'" c] assms(1,3)
    by (auto split: if_splits)
  with n w' assms(4,5) show ?thesis by (intro exI [of _ n] exI) (auto simp: sees_def)
qed

theorem enqueue_refines_protocol_witness:
  "\<exists>ok w' n s'. enqueue_sock counter_pf 7 (counter_worker 0) = Some (Inr (ok, w'))
    \<and> (producer_step 7 ^^ n) notify_started = s' \<and> sees (\<lambda>os. os) w' s' \<and> ppc s' = P_Idle
    \<and> sent s' = (if ok then [7] else [])"
proof -
  let ?w = "counter_worker 0" and ?s = "notify_started\<lparr>signal_count := 0\<rparr>"
  have s: "?s = notify_started" by (simp add: notify_started_def notify_init_def)
  have "write_signal counter_sys 4 0 = Some 1"
    by (simp add: write_signal.simps counter_sys_def le_value_signal [simplified])
  then have "\<exists>ok w'. enqueue_sock counter_pf 7 ?w = Some (Inr (ok, w'))"
    by (rule_tac cq.push_step [OF counter_queue(1) [of 0], of 7])
      (auto simp: enqueue_sock_def counter_pf_def counter_worker_def worker_new_eq Let_def)
  then obtain ok w' where e: "enqueue_sock counter_pf 7 ?w = Some (Inr (ok, w'))" by blast
  have fd: "wk_signal_fd ?w = 4" "wk_os ?w = 0" by (simp_all add: counter_worker_def worker_new_eq)
  have "ppc ?s = P_Idle" by (simp add: notify_started_def notify_init_def)
  from enqueue_refines_protocol [OF _ counter_queue(1) _ counter_sees this e, unfolded fd, OF counter_laws] e show ?thesis
    unfolding s by (fastforce simp: notify_started_def notify_init_def)
qed

text \<open>
  C9: handling the signal does what steps of the worker thread of the hand-over protocol do.
  One round of it (emptying the eventfd, taking the sockets, clearing the flag) takes every socket
  that was in the ring out of it, in order. The decision that follows, for whatever the ring, the
  flag and the counter have become since, is that of the protocol: another round when sockets have
  come and the flag could be set again, and waiting otherwise. The handler is made of just these
  rounds and decisions.
\<close>

theorem signal_refines_protocol:
  assumes "eventfd_laws (pf_sys pf) (wk_signal_fd w) c" "0 \<le> wk_signal_fd w"
    and "cq_inv (wk_socket_queue w)" "\<forall>x \<in> set (cq_list (wk_socket_queue w)). 0 \<le> x"
    and "sees c w s" "cpc s = C_Flush" "signal_round pf w = Some (Inr w1)"
  shows "(\<exists>s1. consumer_runs s s1 \<and> sees c w1 s1 \<and> cpc s1 = C_Recheck \<and> ppc s1 = ppc s \<and> sent s1 = sent s
      \<and> received s1 = received s @ cq_list (wk_socket_queue w))
    \<and> (\<forall>w2 s2 again w3. sees c w2 s2 \<and> cpc s2 = C_Recheck \<and> signal_again w2 = (again, w3) \<longrightarrow>
        (\<exists>s3. consumer_runs s2 s3 \<and> sees c w3 s3 \<and> cpc s3 = (if again then C_Flush else C_Wait)
          \<and> ppc s3 = ppc s2 \<and> sent s3 = sent s2 \<and> received s3 = received s2))
    \<and> handle_signal pf w = (case signal_again w1 of (True, w2) \<Rightarrow> handle_signal pf w2 | (False, w2) \<Rightarrow> Some (Inr w2))"
proof (intro conjI)
  from assms(7) obtain os1 where f: "flush_signal (pf_sys pf) (wk_signal_fd w) (wk_os w) = Some os1"
    by (auto simp: signal_round_def split: option.splits)
  have c0: "c os1 = 0" using flush_signal_counts [OF f, of c] assms(1,2) by blast
  from assms(7) f obtain w0 where h: "handle_new_connections pf (w\<lparr>wk_os := os1\<rparr>) = Some (Inr w0)"
    and w1: "w1 = w0\<lparr>wk_pending_notify := False\<rparr>"
    by (auto simp: signal_round_def rbind_def split: option.splits sum.splits)
  let ?s = "s\<lparr>signal_count := 0, cpc := C_Dequeue\<rparr>"
  have l: "call_laws (pf_sys pf) c (\<lambda>fd n. n)" using assms(1) by (simp add: eventfd_laws_def)
  have "\<exists>s'. consumer_runs ?s s' \<and> sees c w0 s' \<and> cpc s' = C_Clear \<and> ppc s' = ppc ?s \<and> sent s' = sent ?s
      \<and> received s' = received ?s @ cq_list (wk_socket_queue (w\<lparr>wk_os := os1\<rparr>)) \<and> is_empty (wk_socket_queue w0)"
    by (rule connections_refine [OF l _ _ _ _ h]) (use assms(3-5) c0 in \<open>simp_all add: sees_def\<close>)
  then obtain s1 where s1: "consumer_runs ?s s1" "sees c w0 s1" "cpc s1 = C_Clear" "ppc s1 = ppc s" "sent s1 = sent s"
    "received s1 = received s @ cq_list (wk_socket_queue w)" by auto
  let ?s2 = "commit_clear (s1\<lparr>clear_pending := True, cpc := C_Recheck\<rparr>)"
  have "consumer_step s1 = Some (s1\<lparr>clear_pending := True, cpc := C_Recheck\<rparr>)"
    using s1(3) by (simp add: consumer_step.simps)
  then have "consumer_runs s1 ?s2" by (blast intro: consumer_run_step consumer_run_commit)
  from rtranclp_trans [OF rtranclp_trans [OF consumer_flush [OF assms(6)] s1(1)] this]
  have "consumer_runs s ?s2" .
  with s1 w1 show "\<exists>s1. consumer_runs s s1 \<and> sees c w1 s1 \<and> cpc s1 = C_Recheck \<and> ppc s1 = ppc s \<and> sent s1 = sent s
      \<and> received s1 = received s @ cq_list (wk_socket_queue w)"
    by (intro exI [of _ ?s2]) (simp add: sees_def)
next
  show "\<forall>w2 s2 again w3. sees c w2 s2 \<and> cpc s2 = C_Recheck \<and> signal_again w2 = (again, w3) \<longrightarrow>
        (\<exists>s3. consumer_runs s2 s3 \<and> sees c w3 s3 \<and> cpc s3 = (if again then C_Flush else C_Wait)
          \<and> ppc s3 = ppc s2 \<and> sent s3 = sent s2 \<and> received s3 = received s2)"
    by (blast intro: decision_refines)
next
  show "handle_signal pf w = (case signal_again w1 of (True, w2) \<Rightarrow> handle_signal pf w2 | (False, w2) \<Rightarrow> Some (Inr w2))"
    using assms(7) by (subst handle_signal.simps) (simp split: prod.split bool.split)
qed

text \<open>A worker that has been signalled with the socket 5 in its ring, and the state of the protocol.\<close>

definition signalled_worker :: "(demo_session, app_handler, unit, nat) worker" where
  "signalled_worker = (let w = counter_worker 2; q = wk_socket_queue w in
     w\<lparr>wk_pending_notify := True, wk_socket_queue :=
       q\<lparr>buffer := (buffer q)[unat (tail q) := 5], tail := ucast (next_slot q (tail q))\<rparr>\<rparr>)"

definition signalled_state :: notify_state where
  "signalled_state = notify_started\<lparr>socket_ring := wk_socket_queue signalled_worker, pending_notify := True,
     signal_count := 2, cpc := C_Flush, sent := [5]\<rparr>"

lemma counter_room: "cq_room (wk_socket_queue (counter_worker n)) = 4095"
  by (simp add: counter_worker_def worker_new_eq cq_room_def cq_new_def round_to_pow2_def smear_loop.simps Let_def)

lemma signalled_queue: "cq_inv (wk_socket_queue signalled_worker)" "cq_list (wk_socket_queue signalled_worker) = [5]"
proof -
  have "\<not> is_full (wk_socket_queue (counter_worker 2))"
    using cq.is_full_iff [OF counter_queue(1) [of 2]] counter_queue(2) [of 2] counter_room by simp
  from push_not_full [OF counter_queue(1) this, of 5] counter_queue(2) [of 2]
  show "cq_inv (wk_socket_queue signalled_worker)" "cq_list (wk_socket_queue signalled_worker) = [5]"
    by (simp_all add: signalled_worker_def Let_def)
qed

lemma signalled_fields: "wk_signal_fd signalled_worker = 4" "wk_os signalled_worker = 2"
  "wk_use_tls signalled_worker = False" "wk_session_map signalled_worker = Map.empty"
  "wk_router signalled_worker = Some app_routes" "wk_callbacks signalled_worker = BoundHere False"
  by (simp_all add: signalled_worker_def Let_def counter_worker_def worker_new_eq)

lemma signalled_round: "\<exists>w1. signal_round counter_pf signalled_worker = Some (Inr w1)"
proof -
  let ?w = "signalled_worker\<lparr>wk_os := 0\<rparr>"
  let ?v = "?w\<lparr>wk_socket_queue := snd (pop (wk_socket_queue ?w))\<rparr>"
  note q = signalled_queue
  have "flush_signal counter_sys 4 0 = Some 0" by (simp add: flush_signal.simps counter_sys_def)
  then have f: "flush_signal (pf_sys counter_pf) 4 2 = Some 0"
    by (subst flush_signal.simps) (simp add: counter_pf_def counter_sys_def)
  have "\<exists>w2. new_connection counter_pf 5 ?v = Inr w2"
    by (simp add: new_connection_def signalled_fields Let_def admit_connection_def counter_pf_def demo_ng_def
        init_session_data_def establish_connection_def send_server_connection_header_def deref_session_def
        new_session_data_def update_events_def bound_mode_def update_events_h2c_def
        split: prod.split)
  then obtain w2 where n: "new_connection counter_pf 5 ?v = Inr w2" by blast
  have "wk_socket_queue w2 = wk_socket_queue ?v"
    using new_connection_quiet [OF eventfd_lawsD(1) [OF counter_laws], of ?v 5] n by (simp add: same_signal_def)
  then have q2: "cq_inv (wk_socket_queue w2)" "cq_list (wk_socket_queue w2) = []"
    using cq.pop_ok [OF q(1)] q(2) by simp_all
  have "handle_new_connections counter_pf w2 = Some (Inr w2)"
    by (subst handle_new_connections.simps) (use q2 in \<open>simp add: dequeue_form\<close>)
  then have "handle_new_connections counter_pf ?w = Some (Inr w2)"
    by (subst handle_new_connections.simps) (use q n in \<open>simp add: dequeue_form\<close>)
  then show ?thesis by (simp add: signal_round_def signalled_fields f)
qed

theorem signal_refines_protocol_witness:
  "\<exists>w1 s1. signal_round counter_pf signalled_worker = Some (Inr w1)
    \<and> consumer_runs signalled_state s1 \<and> sees (\<lambda>os. os) w1 s1 \<and> cpc s1 = C_Recheck \<and> received s1 = [5]"
proof -
  obtain w1 where w1: "signal_round counter_pf signalled_worker = Some (Inr w1)" using signalled_round by blast
  have s: "sees (\<lambda>os. os) signalled_worker signalled_state" "cpc signalled_state = C_Flush" "received signalled_state = []"
    using signalled_fields
    by (simp_all add: sees_def signalled_state_def notify_started_def notify_init_def)
      (simp add: signalled_worker_def Let_def)
  from signal_refines_protocol [OF _ _ signalled_queue(1) _ s(1,2) w1, unfolded signalled_fields, OF counter_laws]
    signalled_queue(2) s(3) w1 show ?thesis by auto
qed

end
