(* ===== verification/Load_Balancer.thy ===== *)
theory Load_Balancer
  imports Circular_Queue Cpp_String
begin

text \<open>
  The load balancer of \<open>src/server.h\<close> (class \<open>LoadBalancer\<close>): an indirection table from
  connection keys to worker indices, rewritten when the chosen worker's queue is full. Of a
  worker it reads only \<open>is_full()\<close>, that is, the socket queue; the workers are modelled by
  the list of their queues. \<open>size_t\<close> indices into that list are natural numbers (they stay
  below its length), the table entries are \<open>uint32_t\<close>.
\<close>

section \<open>Data and operations\<close>

record load_balancer =
  indirect_table :: "u32 list"

fun init_indirect_table :: "u32 \<Rightarrow> u32 \<Rightarrow> u32 list \<Rightarrow> u32 list outcome" where
  "init_indirect_table worker_num i [] = Inr []"
| "init_indirect_table worker_num i (entry # entries) =
     (if worker_num = 0 then Inl DivByZero
      else obind (init_indirect_table worker_num (i + 1) entries)
             (\<lambda>rest. Inr (i mod worker_num # rest)))"

text \<open>The constructor makes \<open>table_size\<close> zero entries and numbers them; \<open>reset\<close> renumbers.\<close>

definition lb_reset :: "load_balancer \<Rightarrow> u32 \<Rightarrow> load_balancer outcome" where
  "lb_reset lb worker_num =
     obind (init_indirect_table worker_num 0 (indirect_table lb))
       (\<lambda>t. Inr (lb\<lparr>indirect_table := t\<rparr>))"

definition lb_new :: "u32 \<Rightarrow> u32 \<Rightarrow> load_balancer outcome" where
  "lb_new worker_num table_size =
     obind (init_indirect_table worker_num 0 (replicate (unat table_size) 0))
       (\<lambda>t. Inr \<lparr>indirect_table = t\<rparr>)"

definition lb_is_full :: "int circular_queue list \<Rightarrow> nat \<Rightarrow> bool outcome" where
  "lb_is_full workers index = obind (vec_at workers index) (\<lambda>w. Inr (is_full w))"

text \<open>
  The search loop. It returns when it meets a worker with room or comes back to \<open>start\<close>; from
  a \<open>start\<close> that is no worker index it may run forever, which is the value \<open>None\<close>.
\<close>

partial_function (option) find_loop ::
    "int circular_queue list \<Rightarrow> nat \<Rightarrow> nat \<Rightarrow> int outcome option" where
  "find_loop workers start index =
     (if index \<noteq> start
      then (case lb_is_full workers index of
              Inl e \<Rightarrow> Some (Inl e)
            | Inr f \<Rightarrow>
                (if \<not> f then Some (Inr (int index))
                 else find_loop workers start ((index + 1) mod length workers)))
      else Some (Inr (- 1)))"

definition find_available_worker :: "int circular_queue list \<Rightarrow> u32 \<Rightarrow> int outcome option" where
  "find_available_worker workers start =
     (if length workers = 0 then Some (Inl DivByZero)
      else find_loop workers (unat start) (unat (start + 1) mod length workers))"

definition acquire_worker_index ::
    "load_balancer \<Rightarrow> int circular_queue list \<Rightarrow> u32 \<Rightarrow> (int \<times> load_balancer) outcome option" where
  "acquire_worker_index lb workers key =
     (if indirect_table lb = [] then Some (Inl DivByZero)
      else let table_index = unat key mod length (indirect_table lb);
               worker_index = indirect_table lb ! table_index
           in case lb_is_full workers (unat worker_index) of
                Inl e \<Rightarrow> Some (Inl e)
              | Inr False \<Rightarrow> Some (Inr (int (unat worker_index), lb))
              | Inr True \<Rightarrow>
                  (case find_available_worker workers worker_index of
                     None \<Rightarrow> None
                   | Some (Inl e) \<Rightarrow> Some (Inl e)
                   | Some (Inr new_index) \<Rightarrow>
                       (if new_index = - 1 then Some (Inr (- 1, lb))
                        else Some (Inr (new_index,
                               lb\<lparr>indirect_table := (indirect_table lb)[table_index := of_int new_index]\<rparr>)))))"

text \<open>\<open>operator<<\<close>: one line per entry of the table.\<close>

definition print_load_balancer :: "load_balancer \<Rightarrow> string" where
  "print_load_balancer lb = concat (map (\<lambda>data. dec_nat (unat data) @ [CHR 0x0A]) (indirect_table lb))"

section \<open>The search\<close>

text \<open>Going \<open>d\<close> workers past \<open>start\<close> on a ring of \<open>n\<close>.\<close>

lemma find_loop_ring:
  assumes "start < length ws" "d \<le> length ws" "0 < d"
  shows "find_loop ws start ((start + d) mod length ws) =
    Some (Inr (if \<exists>e. d \<le> e \<and> e < length ws \<and> \<not> is_full (ws ! ((start + e) mod length ws))
       then int ((start + (LEAST e. d \<le> e \<and> \<not> is_full (ws ! ((start + e) mod length ws))))
                 mod length ws)
       else - 1))"
  using assms(2,3)
proof (induction "length ws - d" arbitrary: d)
  case 0
  then have "d = length ws" by simp
  with assms(1) show ?case by (subst find_loop.simps) simp
next
  case (Suc k)
  let ?n = "length ws" and ?free = "\<lambda>e. \<not> is_full (ws ! ((start + e) mod length ws))"
  from Suc have d: "d < ?n" by simp
  have ne: "(start + d) mod ?n \<noteq> start"
    using d Suc.prems(2) assms(1) by (cases "start + d < ?n") (auto simp: le_mod_geq)
  have lt: "(start + d) mod ?n < ?n" using d by (intro mod_less_divisor) linarith
  show ?case
  proof (cases "?free d")
    case True
    then have "(LEAST e. d \<le> e \<and> ?free e) = d" by (intro Least_equality) auto
    with True d ne lt show ?thesis
      by (subst find_loop.simps) (auto simp: lb_is_full_def)
  next
    case False
    have "find_loop ws start ((start + d) mod ?n) =
        find_loop ws start ((start + Suc d) mod ?n)"
      using False ne lt by (subst find_loop.simps) (simp add: lb_is_full_def mod_Suc_eq)
    moreover have "(\<lambda>e. d \<le> e \<and> ?free e) = (\<lambda>e. Suc d \<le> e \<and> ?free e)"
      using False by (auto simp: fun_eq_iff Suc_le_eq order_less_le)
    moreover have "(\<exists>e. d \<le> e \<and> e < ?n \<and> ?free e) \<longleftrightarrow> (\<exists>e. Suc d \<le> e \<and> e < ?n \<and> ?free e)"
      using False by (auto simp: Suc_le_eq order_less_le)
    moreover have "find_loop ws start ((start + Suc d) mod ?n) =
      Some (Inr (if \<exists>e. Suc d \<le> e \<and> e < ?n \<and> ?free e
        then int ((start + (LEAST e. Suc d \<le> e \<and> ?free e)) mod ?n) else - 1))"
      using Suc.hyps(1) [of "Suc d"] Suc.hyps(2) d by simp
    ultimately show ?thesis by (simp only:)
  qed
qed

lemma ring_offset:
  assumes "start < n" "i < (n::nat)" "i \<noteq> start"
  obtains e where "0 < e" "e < n" "(start + e) mod n = i"
proof (cases "start < i")
  case True
  with assms show ?thesis by (intro that [of "i - start"]) auto
next
  case False
  with assms show ?thesis by (intro that [of "n + i - start"]) auto
qed

lemma find_available_worker_result:
  assumes "unat start < length ws" "length ws < 2 ^ 32"
  obtains (full) "find_available_worker ws start = Some (Inr (- 1))"
      "\<forall>i < length ws. i \<noteq> unat start \<longrightarrow> is_full (ws ! i)"
  | (found) e where "0 < e" "e < length ws"
      "find_available_worker ws start = Some (Inr (int ((unat start + e) mod length ws)))"
      "\<not> is_full (ws ! ((unat start + e) mod length ws))"
      "\<forall>e'. 0 < e' \<and> e' < e \<longrightarrow> is_full (ws ! ((unat start + e') mod length ws))"
proof -
  let ?n = "length ws" and ?s = "unat start"
  let ?free = "\<lambda>e. \<not> is_full (ws ! ((?s + e) mod ?n))"
  have s1: "unat (start + 1) = ?s + 1"
    using assms by (simp add: unat_word_ariths)
  have eq: "find_available_worker ws start = Some (Inr
      (if \<exists>e. 1 \<le> e \<and> e < ?n \<and> ?free e
       then int ((?s + (LEAST e. 1 \<le> e \<and> ?free e)) mod ?n) else - 1))"
    using find_loop_ring [OF assms(1), of 1] assms(1) by (auto simp: find_available_worker_def s1)
  show ?thesis
  proof (cases "\<exists>e. 1 \<le> e \<and> e < ?n \<and> ?free e")
    case True
    then obtain e0 where e0: "1 \<le> e0" "e0 < ?n" "?free e0" by blast
    define e where "e = (LEAST e. 1 \<le> e \<and> ?free e)"
    have e: "1 \<le> e \<and> ?free e" unfolding e_def by (rule LeastI [of _ e0]) (use e0 in simp)
    have "e \<le> e0" unfolding e_def by (rule Least_le) (use e0 in simp)
    moreover have "is_full (ws ! ((?s + e') mod ?n))" if "0 < e'" "e' < e" for e'
      using not_less_Least [of e' "\<lambda>e. 1 \<le> e \<and> ?free e"] that by (auto simp: e_def)
    ultimately show ?thesis using True e e0 eq by (intro found [of e]) (auto simp: e_def)
  next
    case False
    have "is_full (ws ! i)" if "i < ?n" "i \<noteq> ?s" for i
      using ring_offset [OF assms(1) that] False by (metis One_nat_def Suc_leI)
    with False eq show ?thesis by (intro full) auto
  qed
qed

section \<open>The table\<close>

definition lb_inv :: "nat \<Rightarrow> load_balancer \<Rightarrow> bool" where
  "lb_inv n lb \<longleftrightarrow> indirect_table lb \<noteq> [] \<and> (\<forall>w \<in> set (indirect_table lb). unat w < n)"

lemma acquire_ok:
  fixes key :: u32
  assumes inv: "lb_inv (length ws) lb" and small: "length ws < 2 ^ 31"
  defines "k \<equiv> unat key mod length (indirect_table lb)"
  obtains (kept) "acquire_worker_index lb ws key = Some (Inr (int (unat (indirect_table lb ! k)), lb))"
      "unat (indirect_table lb ! k) < length ws" "\<not> is_full (ws ! unat (indirect_table lb ! k))"
  | (none) "acquire_worker_index lb ws key = Some (Inr (- 1, lb))" "\<forall>w \<in> set ws. is_full w"
  | (moved) e i where "0 < e" "e < length ws" "i = (unat (indirect_table lb ! k) + e) mod length ws"
      "acquire_worker_index lb ws key =
         Some (Inr (int i, lb\<lparr>indirect_table := (indirect_table lb)[k := of_nat i]\<rparr>))"
      "i < length ws" "\<not> is_full (ws ! i)"
      "\<forall>d < e. is_full (ws ! ((unat (indirect_table lb ! k) + d) mod length ws))"
proof -
  let ?w = "indirect_table lb ! k"
  have k: "k < length (indirect_table lb)" using inv by (simp add: k_def lb_inv_def)
  with inv have w: "unat ?w < length ws" by (simp add: lb_inv_def)
  have acq: "acquire_worker_index lb ws key =
      (if \<not> is_full (ws ! unat ?w) then Some (Inr (int (unat ?w), lb))
       else case find_available_worker ws ?w of None \<Rightarrow> None | Some (Inl e) \<Rightarrow> Some (Inl e)
            | Some (Inr r) \<Rightarrow> if r = - 1 then Some (Inr (- 1, lb))
                else Some (Inr (r, lb\<lparr>indirect_table := (indirect_table lb)[k := of_int r]\<rparr>)))"
    using inv w unfolding k_def by (simp add: acquire_worker_index_def lb_inv_def lb_is_full_def Let_def)
  show ?thesis
  proof (cases "is_full (ws ! unat ?w)")
    case False
    with acq w show ?thesis by (intro kept) simp_all
  next
    case True
    from small have small': "length ws < 2 ^ 32" by simp
    from w small' show ?thesis
    proof (cases rule: find_available_worker_result)
      case full
      with True w have "\<forall>w \<in> set ws. is_full w" by (metis in_set_conv_nth)
      with acq True full(1) show ?thesis by (intro none) simp_all
    next
      case (found e)
      have "is_full (ws ! ((unat ?w + d) mod length ws))" if "d < e" for d
        using found(5) that True w by (cases "d = 0") auto
      moreover have "(unat ?w + e) mod length ws < length ws"
        using w by (intro mod_less_divisor) linarith
      ultimately show ?thesis using acq True found w
        by (intro moved [OF found(1,2) refl]) simp_all
    qed
  qed
qed

lemma lb_inv_update:
  assumes "lb_inv n lb" "i < n" "n \<le> 2 ^ 32"
  shows "lb_inv n (lb\<lparr>indirect_table := (indirect_table lb)[k := of_nat i]\<rparr>)"
proof -
  have "unat (of_nat i :: u32) = i" using assms by (simp add: unat_of_nat)
  with assms show ?thesis
    by (auto simp: lb_inv_def dest: set_update_subset_insert [THEN subsetD])
qed

lemma init_table_entries:
  assumes "worker_num \<noteq> 0" "unat i + length entries \<le> 2 ^ 32"
  shows "init_indirect_table worker_num i entries =
    Inr (map (\<lambda>j. of_nat (j mod unat worker_num)) [unat i..<unat i + length entries])"
  using assms(2)
proof (induction entries arbitrary: i)
  case Nil
  then show ?case by simp
next
  case (Cons x xs)
  have i: "i mod worker_num = of_nat (unat i mod unat worker_num)"
    by (metis of_nat_unat ucast_id unat_mod)
  show ?case
  proof (cases xs)
    case Nil
    with i assms(1) show ?thesis by simp
  next
    case (Cons y ys)
    with Cons.prems have "unat (i + 1) = Suc (unat i)" by (simp add: unat_word_ariths)
    with Cons.IH [of "i + 1"] Cons.prems i assms(1) show ?thesis
      by (simp add: upt_conv_Cons del: upt_Suc)
  qed
qed

text \<open>How often a residue occurs below a bound.\<close>

lemma count_residues:
  assumes "w < n"
  shows "length (filter (\<lambda>j. j mod n = w) [0..<m]) = m div n + (if w < m mod n then 1 else 0)"
proof (induction m)
  case 0
  then show ?case by simp
next
  case (Suc m)
  from assms have "m mod n < n" by simp
  with Suc assms show ?case by (auto simp: mod_Suc div_Suc)
qed

section \<open>The contract the acceptor relies on\<close>

text \<open>
  A dispatcher picks a worker with room for a key, and answers \<open>-1\<close> only when no worker has
  room. \<open>binv n\<close> is its invariant for \<open>n\<close> workers.
\<close>

locale dispatcher =
  fixes pick :: "'b \<Rightarrow> int circular_queue list \<Rightarrow> u32 \<Rightarrow> (int \<times> 'b) outcome option"
    and binv :: "nat \<Rightarrow> 'b \<Rightarrow> bool"
  assumes pick_spec: "binv (length ws) b \<Longrightarrow> length ws < 2 ^ 31 \<Longrightarrow>
      \<exists>r b'. pick b ws key = Some (Inr (r, b')) \<and> binv (length ws) b'
        \<and> (r = - 1 \<and> (\<forall>w \<in> set ws. is_full w)
           \<or> (\<exists>i < length ws. r = int i \<and> \<not> is_full (ws ! i)))"
begin

text \<open>The socket handed to the picked worker is always accepted by its queue.\<close>

lemma picked_has_room:
  assumes "binv (length ws) b" "length ws < 2 ^ 31" "\<forall>w \<in> set ws. cq_inv w"
    and "pick b ws key = Some (Inr (r, b'))" "0 \<le> r"
  shows "nat r < length ws \<and> (\<exists>w'. push (ws ! nat r) sock = Inr (True, w') \<and> cq_inv w'
    \<and> cq_list w' = cq_list (ws ! nat r) @ [sock])"
proof -
  from pick_spec [OF assms(1,2), of key] assms(4,5) obtain i where
    i: "i < length ws" "r = int i" "\<not> is_full (ws ! i)" by auto
  with assms(3) have "cq_inv (ws ! i)" by simp
  with cq.push_ok [OF this i(3), of sock] i show ?thesis by auto
qed

lemma refused_iff_all_full:
  assumes "binv (length ws) b" "length ws < 2 ^ 31"
    and "pick b ws key = Some (Inr (r, b'))"
  shows "r < 0 \<longleftrightarrow> (\<forall>w \<in> set ws. is_full w)"
  using pick_spec [OF assms(1,2), of key] assms(3) nth_mem by fastforce

end

interpretation lb: dispatcher acquire_worker_index lb_inv
proof unfold_locales
  fix ws :: "int circular_queue list" and b key
  assume inv: "lb_inv (length ws) b" and small: "length ws < 2 ^ 31"
  from inv small show "\<exists>r b'. acquire_worker_index b ws key = Some (Inr (r, b')) \<and> lb_inv (length ws) b'
        \<and> (r = - 1 \<and> (\<forall>w \<in> set ws. is_full w)
           \<or> (\<exists>i < length ws. r = int i \<and> \<not> is_full (ws ! i)))"
  proof (cases rule: acquire_ok [where key = key])
    case kept
    with inv show ?thesis by auto
  next
    case none
    with inv show ?thesis by auto
  next
    case (moved e i)
    with lb_inv_update [OF inv, of i] small show ?thesis by auto
  qed
qed

section \<open>Properties\<close>

text \<open>
  C24: \<open>acquire_worker_index\<close> always returns. With \<open>slot\<close> the table slot of the key: the answer
  is \<open>-1\<close> exactly when every queue is full; otherwise it is the index of a worker with room,
  and that worker is now in the slot; the preferred worker is kept while it has room; no
  other slot changes; every entry stays a valid worker index.
\<close>

theorem acquire_worker_correct:
  fixes key :: u32
  assumes "lb_inv (length ws) lb" "length ws < 2 ^ 31"
  defines "slot \<equiv> unat key mod length (indirect_table lb)"
  shows "\<exists>r lb'. acquire_worker_index lb ws key = Some (Inr (r, lb')) \<and> lb_inv (length ws) lb'
    \<and> (r = - 1 \<longleftrightarrow> (\<forall>w \<in> set ws. is_full w))
    \<and> (r \<noteq> - 1 \<longrightarrow> 0 \<le> r \<and> nat r < length ws \<and> \<not> is_full (ws ! nat r)
         \<and> unat (indirect_table lb' ! slot) = nat r)
    \<and> (\<not> is_full (ws ! unat (indirect_table lb ! slot)) \<longrightarrow>
         r = int (unat (indirect_table lb ! slot)) \<and> lb' = lb)
    \<and> (\<forall>j. j \<noteq> slot \<longrightarrow> indirect_table lb' ! j = indirect_table lb ! j)"
proof -
  have slot: "slot < length (indirect_table lb)"
    using assms(1) by (simp add: slot_def lb_inv_def)
  from assms(1,2) show ?thesis
  proof (cases rule: acquire_ok [where key = key])
    case kept
    define i where "i = unat (indirect_table lb ! slot)"
    note kept = kept [folded slot_def, folded i_def]
    then have "\<not> (\<forall>w \<in> set ws. is_full w)" using nth_mem by blast
    with kept assms(1) show ?thesis
      by (intro exI [of _ "int i"] exI [of _ lb]) (auto simp: i_def [symmetric])
  next
    case none
    from assms(1) slot have "unat (indirect_table lb ! slot) < length ws"
      by (simp add: lb_inv_def)
    with none(2) have "is_full (ws ! unat (indirect_table lb ! slot))" by simp
    with none assms(1) show ?thesis by (intro exI conjI) (auto simp: slot_def)
  next
    case (moved e i)
    have "\<not> (\<forall>w \<in> set ws. is_full w)" using moved(5,6) nth_mem by blast
    moreover have "is_full (ws ! unat (indirect_table lb ! slot))"
      using moved(1,7) assms(1) slot by (fastforce simp: slot_def lb_inv_def)
    moreover have "unat (of_nat i :: u32) = i"
      using moved(5) assms(2) by (simp add: unat_of_nat)
    ultimately show ?thesis
      using moved lb_inv_update [OF assms(1), of i] assms(2) slot
      by (intro exI conjI) (auto simp: slot_def)
  qed
qed

definition two_queues :: "int circular_queue list" where
  "two_queues = [cq_new 0 1, cq_new 0 4]"

theorem acquire_worker_correct_witness:
  "lb_inv (length two_queues) \<lparr>indirect_table = [0, 1, 0]\<rparr> \<and> length two_queues < 2 ^ 31 \<and>
   (\<exists>r lb'. acquire_worker_index \<lparr>indirect_table = [0, 1, 0]\<rparr> two_queues 5 = Some (Inr (r, lb'))
     \<and> lb_inv (length two_queues) lb' \<and> (r = - 1 \<longleftrightarrow> (\<forall>w \<in> set two_queues. is_full w)))"
proof -
  have a: "lb_inv (length two_queues) \<lparr>indirect_table = [0, 1, 0]\<rparr>" "length two_queues < 2 ^ 31"
    by (auto simp: lb_inv_def two_queues_def)
  from acquire_worker_correct [OF a, of 5] a show ?thesis by blast
qed

text \<open>
  When the preferred worker is full and some other worker has room, the search returns the
  nearest worker with room in ring order after the preferred one; it never runs forever.
\<close>

theorem find_available_worker_nearest:
  assumes "unat start < length ws" "length ws < 2 ^ 32" "i < length ws" "i \<noteq> unat start"
    and "\<not> is_full (ws ! i)"
  shows "\<exists>e. 0 < e \<and> e < length ws
    \<and> find_available_worker ws start = Some (Inr (int ((unat start + e) mod length ws)))
    \<and> \<not> is_full (ws ! ((unat start + e) mod length ws))
    \<and> (\<forall>e'. 0 < e' \<and> e' < e \<longrightarrow> is_full (ws ! ((unat start + e') mod length ws)))"
  using assms(1,2)
proof (cases rule: find_available_worker_result)
  case full
  with assms show ?thesis by blast
next
  case (found e)
  then show ?thesis by blast
qed

lemma two_queues_full: "is_full (two_queues ! 0)" "\<not> is_full (two_queues ! 1)"
  by (simp_all add: two_queues_def is_full_def cq_new_def next_slot_def round_to_pow2_def
      smear_loop.simps)

theorem find_available_worker_nearest_witness:
  "is_full (two_queues ! 0) \<and> \<not> is_full (two_queues ! 1) \<and>
   (\<exists>e. 0 < e \<and> e < length two_queues
    \<and> find_available_worker two_queues 0 = Some (Inr (int ((unat (0 :: u32) + e) mod length two_queues))))"
  using find_available_worker_nearest [of 0 two_queues 1] two_queues_full
  by (auto simp: two_queues_def)

lemma lb_reset_round_robin:
  assumes "worker_num \<noteq> 0" "indirect_table lb \<noteq> []" "length (indirect_table lb) \<le> 2 ^ 32"
  defines "t \<equiv> map (\<lambda>j. of_nat (j mod unat worker_num) :: u32) [0..<length (indirect_table lb)]"
  shows "lb_reset lb worker_num = Inr (lb\<lparr>indirect_table := t\<rparr>)"
    and "lb_inv (unat worker_num) (lb\<lparr>indirect_table := t\<rparr>)"
    and "map unat t = map (\<lambda>j. j mod unat worker_num) [0..<length (indirect_table lb)]"
proof -
  let ?n = "unat worker_num"
  have n: "0 < ?n" using assms(1) by (simp add: unat_gt_0)
  show "lb_reset lb worker_num = Inr (lb\<lparr>indirect_table := t\<rparr>)"
    using init_table_entries [of worker_num 0 "indirect_table lb"] assms by (simp add: lb_reset_def t_def)
  have of_nat: "unat (of_nat (j mod ?n) :: u32) = j mod ?n" for j
  proof -
    have "j mod ?n < ?n" using n by simp
    also have "?n < 2 ^ LENGTH(32)" by (rule unsigned_less)
    finally show ?thesis by (simp add: unat_of_nat)
  qed
  show "lb_inv ?n (lb\<lparr>indirect_table := t\<rparr>)"
    using n assms(2) by (auto simp: lb_inv_def of_nat t_def)
  show "map unat t = map (\<lambda>j. j mod ?n) [0..<length (indirect_table lb)]" by (simp add: of_nat t_def)
qed

text \<open>
  C32: \<open>reset\<close> with at least one worker numbers the table round robin: every entry is a valid
  worker index and any two workers own the same number of slots up to one.
\<close>

theorem reset_balances_table:
  assumes "worker_num \<noteq> 0" "indirect_table lb \<noteq> []" "length (indirect_table lb) \<le> 2 ^ 32"
  shows "\<exists>lb'. lb_reset lb worker_num = Inr lb' \<and> lb_inv (unat worker_num) lb'
    \<and> length (indirect_table lb') = length (indirect_table lb)
    \<and> (\<forall>w < unat worker_num.
         length (filter (\<lambda>x. unat x = w) (indirect_table lb')) =
           length (indirect_table lb) div unat worker_num
           + (if w < length (indirect_table lb) mod unat worker_num then 1 else 0))"
proof -
  let ?n = "unat worker_num" and ?m = "length (indirect_table lb)"
  let ?t = "map (\<lambda>j. of_nat (j mod ?n) :: u32) [0..<?m]"
  note rr = lb_reset_round_robin [OF assms]
  have "length (filter (\<lambda>x. unat x = w) ?t) = ?m div ?n + (if w < ?m mod ?n then 1 else 0)"
    if "w < ?n" for w
  proof -
    have "length (filter (\<lambda>x. unat x = w) ?t) = length (filter (\<lambda>j. j = w) (map unat ?t))"
      by (simp add: filter_map o_def)
    also have "\<dots> = length (filter (\<lambda>j. j mod ?n = w) [0..<?m])"
      unfolding rr(3) by (simp add: filter_map o_def)
    finally show ?thesis using count_residues [OF that, of ?m] by simp
  qed
  with rr show ?thesis by simp
qed

theorem reset_balances_table_witness:
  "(3 :: u32) \<noteq> 0 \<and> (\<exists>lb'. lb_reset \<lparr>indirect_table = replicate 1024 0\<rparr> 3 = Inr lb'
     \<and> lb_inv (unat (3 :: u32)) lb')"
  using reset_balances_table [of 3 "\<lparr>indirect_table = replicate 1024 0\<rparr>"] by auto

text \<open>With zero workers \<open>reset\<close> divides by zero on the table that the constructor makes.\<close>

lemma lb_new_table:
  assumes "lb_new 1 1024 = Inr lb"
  shows "indirect_table lb \<noteq> []" "length (indirect_table lb) \<le> 2 ^ 32"
  using assms init_table_entries [of 1 0 "replicate 1024 0"] by (auto simp: lb_new_def)

lemma lb_new_ok: "\<exists>lb. lb_new 1 1024 = Inr lb"
  using init_table_entries [of 1 0 "replicate 1024 0"] by (auto simp: lb_new_def)

lemma reset_zero_workers: "lb_new 1 1024 = Inr lb \<Longrightarrow> lb_reset lb 0 = Inl DivByZero"
  using lb_new_table(1) [of lb] by (cases "indirect_table lb") (simp_all add: lb_reset_def)

end
