(* ===== verification/Config_Opt.thy ===== *)
theory Config_Opt
  imports H2_Prelude Cpp_String
begin

text \<open>
  The command line (\<open>config_opt.h\<close>, \<open>config_opt.cc\<close>). What \<open>getopt_long\<close> reports for the arguments
  is the parameter: the sequence of its return values with their option arguments, in order; the
  flag option \<open>--h2c\<close> is stored by \<open>getopt_long\<close> itself and returns 0. \<open>atoi\<close> reads white space, a
  sign and digits and ignores the rest; a number that is no \<open>int\<close> is outside of its domain. The casts to
  the field widths wrap around.
\<close>

section \<open>Numbers\<close>

definition is_space :: "char \<Rightarrow> bool" where
  "is_space c \<longleftrightarrow> c = CHR '' '' \<or> (9 \<le> (of_char c :: nat) \<and> (of_char c :: nat) \<le> 13)"

definition is_digit :: "char \<Rightarrow> bool" where
  "is_digit c \<longleftrightarrow> 48 \<le> (of_char c :: nat) \<and> (of_char c :: nat) \<le> 57"

definition digits_value :: "string \<Rightarrow> nat" where
  "digits_value s = foldl (\<lambda>acc c. 10 * acc + (of_char c - 48)) 0 s"

definition atoi :: "string \<Rightarrow> int outcome" where
  "atoi str =
     (let s = dropWhile is_space (c_str str);
          neg = (s \<noteq> [] \<and> hd s = CHR ''-'');
          t = (if s \<noteq> [] \<and> (hd s = CHR ''-'' \<or> hd s = CHR ''+'') then tl s else s);
          d = int (digits_value (takeWhile is_digit t));
          v = (if neg then - d else d)
      in if - (2 ^ 31) \<le> v \<and> v < 2 ^ 31 then Inr v else Inl Undefined)"

section \<open>Options\<close>

record config_option =
  is_help_mode :: bool
  use_tls :: int
  port :: u16
  num_threads :: u8
  key_path :: string
  cert_path :: string

datatype getopt_result =
    OptFlagH2c
  | OptArg char string
  | OptHelp
  | OptUnknown

definition default_config :: config_option where
  "default_config = \<lparr>is_help_mode = False, use_tls = 1, port = 443, num_threads = 1,
     key_path = ''./cert/server.key'', cert_path = ''./cert/server.crt''\<rparr>"

text \<open>One round of the loop; the flag says whether the usage text is printed.\<close>

definition handle_opt :: "getopt_result \<Rightarrow> config_option \<Rightarrow> (bool \<times> config_option) outcome" where
  "handle_opt opt cfg =
     (case opt of
        OptFlagH2c \<Rightarrow> Inr (False, cfg\<lparr>use_tls := 0\<rparr>)
      | OptArg c optarg \<Rightarrow>
          (if c = CHR ''p'' then obind (atoi optarg) (\<lambda>v. Inr (False, cfg\<lparr>port := of_int v\<rparr>))
           else if c = CHR ''k'' then Inr (False, cfg\<lparr>key_path := optarg\<rparr>)
           else if c = CHR ''c'' then Inr (False, cfg\<lparr>cert_path := optarg\<rparr>)
           else if c = CHR ''n'' then obind (atoi optarg) (\<lambda>v. Inr (False, cfg\<lparr>num_threads := of_int v\<rparr>))
           else Inr (True, cfg))
      | OptHelp \<Rightarrow> Inr (True, cfg\<lparr>is_help_mode := True\<rparr>)
      | OptUnknown \<Rightarrow> Inr (True, cfg))"

fun parse_command_line :: "getopt_result list \<Rightarrow> config_option \<Rightarrow> (bool \<times> config_option) outcome" where
  "parse_command_line [] cfg = Inr (False, cfg)"
| "parse_command_line (opt # opts) cfg =
     obind (handle_opt opt cfg) (\<lambda>(usage, cfg1).
       obind (parse_command_line opts cfg1) (\<lambda>(usage', cfg2). Inr (usage \<or> usage', cfg2)))"

definition config_option_new :: "getopt_result list \<Rightarrow> (bool \<times> config_option) outcome" where
  "config_option_new opts = parse_command_line opts default_config"

text \<open>The lines that \<open>operator<<\<close> prints.\<close>

definition print_config :: "config_option \<Rightarrow> string list" where
  "print_config cfg =
     [''Port: '' @ dec_nat (unat (port cfg)), ''TLS: '' @ (if use_tls cfg \<noteq> 0 then ''on'' else ''off'')]
     @ (if use_tls cfg \<noteq> 0 then [''Key: '' @ key_path cfg, ''Cert: '' @ cert_path cfg] else [])
     @ [''Threads: '' @ dec_nat (unat (num_threads cfg))]"

section \<open>Reading back a number\<close>

lemma digits_value_snoc: "digits_value (s @ [c]) = 10 * digits_value s + (of_char c - 48)"
  by (simp add: digits_value_def)

lemma dec_nat_digits: "\<forall>c \<in> set (dec_nat n). is_digit c"
  using dec_nat_chars [of _ n] by (fastforce simp: is_digit_def)

lemma digits_value_dec_nat: "digits_value (dec_nat n) = n"
proof (induction n rule: dec_nat.induct)
  case (1 n)
  have digit: "of_char (char_of (48 + d)) - 48 = (d::nat)" if "d < 10" for d
    using that by (simp add: of_char_of take_bit_nat_eq_self)
  show ?case
  proof (cases "n < 10")
    case True
    then show ?thesis using digit [of n] by (simp add: dec_nat.simps [of n] digits_value_def)
  next
    case False
    with 1 digit [of "n mod 10"] show ?thesis
      by (simp add: dec_nat.simps [of n] digits_value_snoc)
  qed
qed

lemma digit_not_special:
  "is_digit c \<Longrightarrow> \<not> is_space c \<and> c \<noteq> CHR ''-'' \<and> c \<noteq> CHR ''+'' \<and> c \<noteq> CHR 0x00"
  by (auto simp: is_digit_def is_space_def)

lemma atoi_dec_nat: "atoi (dec_nat n) = (if n < 2 ^ 31 then Inr (int n) else Inl Undefined)"
proof -
  obtain c cs where s: "dec_nat n = c # cs" by (cases "dec_nat n") auto
  have all: "\<forall>x \<in> set (dec_nat n). is_digit x" by (rule dec_nat_digits)
  have "is_digit c" using all s by simp
  note c = digit_not_special [OF this]
  have "CHR 0x00 \<notin> set (dec_nat n)" using all digit_not_special by blast
  then have "c_str (dec_nat n) = dec_nat n" by (rule c_str_id)
  moreover have "takeWhile is_digit (dec_nat n) = dec_nat n" using all by (simp add: takeWhile_eq_all_conv)
  ultimately show ?thesis using c digits_value_dec_nat [of n]
    by (simp add: atoi_def Let_def s)
qed

text \<open>The argument of the last option with the letter \<open>c\<close>.\<close>

fun opt_arg :: "char \<Rightarrow> getopt_result \<Rightarrow> string option" where
  "opt_arg c (OptArg d optarg) = (if d = c then Some optarg else None)"
| "opt_arg c _ = None"

fun last_arg :: "char \<Rightarrow> getopt_result list \<Rightarrow> string option" where
  "last_arg c [] = None"
| "last_arg c (opt # opts) = (case last_arg c opts of None \<Rightarrow> opt_arg c opt | Some a \<Rightarrow> Some a)"

lemma handle_opt_numbers:
  assumes "handle_opt opt cfg = Inr (usage, cfg')"
  shows "case opt_arg (CHR ''p'') opt of None \<Rightarrow> port cfg' = port cfg | Some a \<Rightarrow> \<exists>v. atoi a = Inr v \<and> port cfg' = of_int v"
    "case opt_arg (CHR ''n'') opt of None \<Rightarrow> num_threads cfg' = num_threads cfg
       | Some a \<Rightarrow> \<exists>v. atoi a = Inr v \<and> num_threads cfg' = of_int v"
  using assms by (auto simp: handle_opt_def obind_eq_Inr split: getopt_result.splits if_splits)

lemma parse_numbers:
  assumes "parse_command_line opts cfg = Inr (usage, cfg')"
  shows "case last_arg (CHR ''p'') opts of None \<Rightarrow> port cfg' = port cfg | Some a \<Rightarrow> \<exists>v. atoi a = Inr v \<and> port cfg' = of_int v"
    "case last_arg (CHR ''n'') opts of None \<Rightarrow> num_threads cfg' = num_threads cfg
       | Some a \<Rightarrow> \<exists>v. atoi a = Inr v \<and> num_threads cfg' = of_int v"
  using assms
proof (induction opts arbitrary: cfg usage)
  case (Cons opt opts)
  {
    case 1
    then obtain u1 cfg1 u2 where h: "handle_opt opt cfg = Inr (u1, cfg1)" "parse_command_line opts cfg1 = Inr (u2, cfg')"
      by (auto simp: obind_eq_Inr)
    from Cons.IH(1) [OF h(2)] handle_opt_numbers(1) [OF h(1)] show ?case by (auto split: option.splits)
  next
    case 2
    then obtain u1 cfg1 u2 where h: "handle_opt opt cfg = Inr (u1, cfg1)" "parse_command_line opts cfg1 = Inr (u2, cfg')"
      by (auto simp: obind_eq_Inr)
    from Cons.IH(2) [OF h(2)] handle_opt_numbers(2) [OF h(1)] show ?case by (auto split: option.splits)
  }
qed auto

section \<open>Properties\<close>

text \<open>
  C34: unless a number on the command line is outside of the range of \<open>int\<close>, where \<open>atoi\<close> is undefined,
  the last port and the last thread count win, wherever they stand, each reduced to the width of
  its field: a port modulo 2^16, a thread count modulo 2^8 (so 256 threads become none). Without
  such an option the defaults 443 and 1 hold.
\<close>

theorem last_numbers_win:
  assumes "config_option_new opts = Inr (usage, cfg)"
  shows "(last_arg (CHR ''p'') opts = None \<longrightarrow> port cfg = 443)
    \<and> (last_arg (CHR ''p'') opts = Some (dec_nat n) \<longrightarrow> unat (port cfg) = n mod 2 ^ 16)
    \<and> (last_arg (CHR ''n'') opts = None \<longrightarrow> num_threads cfg = 1)
    \<and> (last_arg (CHR ''n'') opts = Some (dec_nat t) \<longrightarrow> unat (num_threads cfg) = t mod 2 ^ 8)"
  using parse_numbers [OF assms [unfolded config_option_new_def]]
  by (auto simp: default_config_def atoi_dec_nat unsigned_of_nat take_bit_eq_mod split: if_splits)

theorem last_numbers_win_witness:
  "\<exists>usage cfg. config_option_new [OptArg (CHR ''n'') (dec_nat 256), OptUnknown, OptArg (CHR ''p'') (dec_nat 8443), OptFlagH2c] =
      Inr (usage, cfg) \<and> unat (port cfg) = 8443 \<and> unat (num_threads cfg) = 0"
proof -
  let ?opts = "[OptArg (CHR ''n'') (dec_nat 256), OptUnknown, OptArg (CHR ''p'') (dec_nat 8443), OptFlagH2c]"
  obtain usage cfg where c: "config_option_new ?opts = Inr (usage, cfg)"
    by (simp add: config_option_new_def handle_opt_def atoi_dec_nat)
  from last_numbers_win [OF c, of 8443 256] c show ?thesis by simp
qed

end
