(* ===== verification/Server.thy ===== *)
theory Server
  imports Worker_IO Load_Balancer Config_Opt "HOL-Library.Multiset"
begin

text \<open>
  The server (\<open>server.h\<close>, \<open>server.cc\<close>) and the program (\<open>main.cc\<close>): the listening socket, the accept
  loop that spreads connections over the workers, the creation, joining and destruction of workers
  and threads, and the program on its command line.
  The calls on the listening socket are the parameter \<open>net\<close>. The state of the operating system is
  the server's; a worker gets it when the acceptor calls \<open>enqueue_sock\<close> on it. The worker threads
  themselves run \<open>worker_run\<close>, and their interleaving is the subject of \<open>Whole_Program\<close>.
\<close>

section \<open>State\<close>

datatype accept_result = Accepted int | AcceptError errno

record 'o net =
  net_accept :: "'o \<Rightarrow> int \<Rightarrow> accept_result \<times> 'o"
  net_socket :: "'o \<Rightarrow> int \<times> 'o"
  net_reuseaddr :: "'o \<Rightarrow> int \<Rightarrow> bool \<times> 'o"
  net_getfl :: "'o \<Rightarrow> int \<Rightarrow> u32"
  net_setfl :: "'o \<Rightarrow> int \<Rightarrow> u32 \<Rightarrow> 'o"
  net_bind :: "'o \<Rightarrow> int \<Rightarrow> u16 \<Rightarrow> bool \<times> 'o"
  net_listen :: "'o \<Rightarrow> int \<Rightarrow> bool \<times> 'o"
  net_is_regular_file :: "string \<Rightarrow> bool option"

text \<open>
  A thread of the server: created, waiting in \<open>epoll_wait\<close>, handling the rest of a batch of events,
  returned from \<open>Worker::run\<close>, and joined.
\<close>

datatype thread = Created | Polling | Handling "(u32 \<times> int) list" | Returned | Joined

text \<open>\<open>sv_reserved\<close> is the capacity of the vector of workers.\<close>

record ('n, 'h, 'l, 'o) server =
  sv_router :: "'h router_node"
  sv_workers :: "('n, 'h, 'l, 'o) worker list"
  sv_reserved :: nat
  sv_threads :: "thread list"
  sv_load_balancer :: load_balancer
  sv_epfd :: int
  sv_sock :: int
  sv_fs :: file_system
  sv_os :: 'o

text \<open>A call that may end the whole process with \<open>exit\<close>.\<close>

datatype 'a ended = Exited | Finished 'a

definition server_new :: "file_system \<Rightarrow> 'o \<Rightarrow> ('n, 'h, 'l, 'o) server outcome" where
  "server_new fs os =
     obind (lb_new 1 1024) (\<lambda>lb.
       Inr \<lparr>sv_router = empty_node, sv_workers = [], sv_reserved = 0, sv_threads = [], sv_load_balancer = lb, sv_epfd = - 1, sv_sock = - 1,
            sv_fs = fs, sv_os = os\<rparr>)"

definition add_handler ::
    "METHOD \<Rightarrow> string \<Rightarrow> 'h \<Rightarrow> ('n, 'h, 'l, 'o) server \<Rightarrow> (bool \<times> ('n, 'h, 'l, 'o) server) outcome" where
  "add_handler m uri h sv =
     obind (router_add m uri h (sv_router sv)) (\<lambda>(ok, r). Inr (ok, sv\<lparr>sv_router := r\<rparr>))"

section \<open>Start-up\<close>

definition O_NONBLOCK :: u32 where "O_NONBLOCK = 0x800"

text \<open>A failed \<open>setsockopt\<close> is only reported.\<close>

definition set_reuse_socket :: "'o net \<Rightarrow> int \<Rightarrow> 'o \<Rightarrow> 'o" where
  "set_reuse_socket net sock os = (if sock > 0 then snd (net_reuseaddr net os sock) else os)"

definition set_nonblocking_socket :: "'o net \<Rightarrow> int \<Rightarrow> 'o \<Rightarrow> 'o" where
  "set_nonblocking_socket net sock os = (let flag = net_getfl net os sock in net_setfl net os sock (flag OR O_NONBLOCK))"

text \<open>\<open>create_listening_socket\<close>; \<open>None\<close> is the exception.\<close>

definition create_listening_socket :: "'o net \<Rightarrow> u16 \<Rightarrow> 'o \<Rightarrow> int option \<times> 'o" where
  "create_listening_socket net prt os =
     (let (s, os1) = net_socket net os in
      if s > 0 then
        (let os2 = set_nonblocking_socket net s (set_reuse_socket net s os1);
             (ok, os3) = net_bind net os2 s prt
         in if \<not> ok then (None, os3) else (Some s, os3))
      else (Some s, os1))"

definition server_create_epoll :: "('l, 'o) sys \<Rightarrow> 'o \<Rightarrow> int option \<times> 'o" where
  "server_create_epoll sy os =
     (let (epfd, os1) = sys_epoll_create sy os in if epfd \<le> 0 then (None, os1) else (Some epfd, os1))"

definition server_set_event ::
    "('n, 'h, 'l, 'o) platform \<Rightarrow> int \<Rightarrow> u32 \<Rightarrow> ('n, 'h, 'l, 'o) server \<Rightarrow> ('n, 'h, 'l, 'o) server" where
  "server_set_event pf sock ev sv =
     (let flags = ev OR EPOLLET OR EPOLLRDHUP;
          (err, os1) = sys_epoll_ctl (pf_sys pf) (sv_os sv) (sv_epfd sv) EPOLL_CTL_MOD sock flags
      in if err = Some ENOENT
         then sv\<lparr>sv_os := snd (sys_epoll_ctl (pf_sys pf) os1 (sv_epfd sv) EPOLL_CTL_ADD sock flags)\<rparr>
         else sv\<lparr>sv_os := os1\<rparr>)"

text \<open>\<open>startup\<close>: every exception ends the process.\<close>

definition server_startup ::
    "('n, 'h, 'l, 'o) platform \<Rightarrow> 'o net \<Rightarrow> u16 \<Rightarrow> ('n, 'h, 'l, 'o) server \<Rightarrow> ('n, 'h, 'l, 'o) server ended" where
  "server_startup pf net prt sv =
     (case create_listening_socket net prt (sv_os sv) of
        (None, os1) \<Rightarrow> Exited
      | (Some s, os1) \<Rightarrow>
          let (ok, os2) = net_listen net os1 s in
          if \<not> ok then Exited
          else (case server_create_epoll (pf_sys pf) os2 of
                  (None, os3) \<Rightarrow> Exited
                | (Some ep, os3) \<Rightarrow>
                    Finished (server_set_event pf s EPOLLIN (sv\<lparr>sv_sock := s, sv_epfd := ep, sv_os := os3\<rparr>))))"

text \<open>
  \<open>is_regular_file\<close> throws when it cannot find out (\<open>None\<close>), and nothing catches the exception.
\<close>

definition file_exists :: "'o net \<Rightarrow> string \<Rightarrow> bool outcome" where
  "file_exists net filename =
     (if filename = [] then Inr False
      else case net_is_regular_file net filename of None \<Rightarrow> Inl Terminated | Some b \<Rightarrow> Inr b)"

definition is_runnable :: "'o net \<Rightarrow> bool \<Rightarrow> string \<Rightarrow> string \<Rightarrow> bool outcome" where
  "is_runnable net tls key cert =
     (if tls then
        obind (file_exists net key) (\<lambda>key_exists.
          if \<not> key_exists then Inr False
          else obind (file_exists net cert) (\<lambda>cert_exists.
            if \<not> cert_exists then Inr False else Inr True))
      else Inr True)"

text \<open>
  \<open>emplace_back\<close> on the vector of workers: without room for one more, the vector doubles its capacity
  and moves the workers it has.
\<close>

definition emplace_worker ::
    "('n, 'h, 'l, 'o) worker \<Rightarrow> ('n, 'h, 'l, 'o) server \<Rightarrow> ('n, 'h, 'l, 'o) server" where
  "emplace_worker w sv =
     (let n = length (sv_workers sv) in
      if n < sv_reserved sv then sv\<lparr>sv_workers := sv_workers sv @ [w]\<rparr>
      else sv\<lparr>sv_reserved := n + max n 1, sv_workers := map (\<lambda>x. fst (worker_move x)) (sv_workers sv) @ [w]\<rparr>)"

text \<open>The two loops of \<open>spawn_workers\<close>, with their 8-bit counter.\<close>

function create_workers ::
    "u8 \<Rightarrow> u8 \<Rightarrow> bool \<Rightarrow> ('n, 'h, 'l, 'o) server \<Rightarrow> ('n, 'h, 'l, 'o) server" where
  "create_workers i num tls sv =
     (if i < num then
        create_workers (i + 1) num tls
          (emplace_worker (worker_new (Some (sv_router sv)) tls (sv_fs sv) (sv_os sv)) sv)
      else sv)"
  by pat_completeness auto

lemma u8_count: "i < num \<Longrightarrow> unat (i + 1) = unat i + 1" for i num :: u8
  using unsigned_less [of num, where 'a = nat] by (simp add: word_less_nat_alt unat_word_ariths)

termination create_workers
  by (relation "measure (\<lambda>(i, num, tls, sv). unat num - unat i)") (auto simp: u8_count word_less_nat_alt)

function create_threads :: "u8 \<Rightarrow> u8 \<Rightarrow> ('n, 'h, 'l, 'o) server \<Rightarrow> ('n, 'h, 'l, 'o) server outcome" where
  "create_threads i num sv =
     (if i < num then
        obind (vec_at (sv_workers sv) (unat i)) (\<lambda>w.
          create_threads (i + 1) num (sv\<lparr>sv_threads := sv_threads sv @ [Created]\<rparr>))
      else Inr sv)"
  by pat_completeness auto

termination create_threads
  by (relation "measure (\<lambda>(i, num, sv). unat num - unat i)") (auto simp: u8_count word_less_nat_alt)

declare create_workers.simps [simp del] create_threads.simps [simp del]

definition spawn_workers ::
    "u8 \<Rightarrow> bool \<Rightarrow> ('n, 'h, 'l, 'o) server \<Rightarrow> ('n, 'h, 'l, 'o) server outcome" where
  "spawn_workers num tls sv =
     create_threads 0 num
       (create_workers 0 num tls (sv\<lparr>sv_reserved := max (sv_reserved sv) (unat num)\<rparr>))"

section \<open>Accepting\<close>

definition worker_queues :: "('n, 'h, 'l, 'o) server \<Rightarrow> int circular_queue list" where
  "worker_queues sv = map wk_socket_queue (sv_workers sv)"

text \<open>One accepted socket: pick a worker and hand the socket over, or close it.\<close>

definition dispatch_socket ::
    "('n, 'h, 'l, 'o) platform \<Rightarrow> int \<Rightarrow> ('n, 'h, 'l, 'o) server \<Rightarrow> ('n, 'h, 'l, 'o) server run" where
  "dispatch_socket pf sock sv =
     (case acquire_worker_index (sv_load_balancer sv) (worker_queues sv) (of_int sock) of
        None \<Rightarrow> None
      | Some (Inl e) \<Rightarrow> Some (Inl e)
      | Some (Inr (index, lb)) \<Rightarrow>
          let sv1 = sv\<lparr>sv_load_balancer := lb\<rparr> in
          if index < 0 then Some (Inr (sv1\<lparr>sv_os := sys_close (pf_sys pf) (sv_os sv1) sock\<rparr>))
          else rbind (Some (vec_at (sv_workers sv1) (nat index))) (\<lambda>w.
                 rbind (enqueue_sock pf sock (w\<lparr>wk_os := sv_os sv1\<rparr>)) (\<lambda>(ok, w').
                   let sv2 = sv1\<lparr>sv_workers := (sv_workers sv1)[nat index := w'], sv_os := wk_os w'\<rparr> in
                   Some (Inr (if \<not> ok then sv2\<lparr>sv_os := sys_close (pf_sys pf) (sv_os sv2) sock\<rparr> else sv2)))))"

partial_function (option) handle_accept ::
    "('n, 'h, 'l, 'o) platform \<Rightarrow> 'o net \<Rightarrow> ('n, 'h, 'l, 'o) server \<Rightarrow> ('n, 'h, 'l, 'o) server run" where
  "handle_accept pf net sv =
     (case net_accept net (sv_os sv) (sv_sock sv) of
        (AcceptError e, os1) \<Rightarrow>
          if e = EINTR then handle_accept pf net (sv\<lparr>sv_os := os1\<rparr>) else Some (Inr (sv\<lparr>sv_os := os1\<rparr>))
      | (Accepted sock, os1) \<Rightarrow>
          (case dispatch_socket pf sock (sv\<lparr>sv_os := os1\<rparr>) of
             None \<Rightarrow> None
           | Some (Inl e) \<Rightarrow> Some (Inl e)
           | Some (Inr sv1) \<Rightarrow> handle_accept pf net sv1))"

partial_function (option) accept_loop ::
    "('n, 'h, 'l, 'o) platform \<Rightarrow> 'o net \<Rightarrow> ('n, 'h, 'l, 'o) server \<Rightarrow> ('n, 'h, 'l, 'o) server run" where
  "accept_loop pf net sv =
     (case sys_epoll_wait (pf_sys pf) (sv_os sv) (sv_epfd sv) of
        (Inl e, os1) \<Rightarrow>
          if e = EINTR then accept_loop pf net (sv\<lparr>sv_os := os1\<rparr>) else Some (Inr (sv\<lparr>sv_os := os1\<rparr>))
      | (Inr evs, os1) \<Rightarrow>
          if evs = [] then accept_loop pf net (sv\<lparr>sv_os := os1\<rparr>)
          else (case handle_accept pf net (sv\<lparr>sv_os := os1\<rparr>) of
                  None \<Rightarrow> None
                | Some (Inl e) \<Rightarrow> Some (Inl e)
                | Some (Inr sv1) \<Rightarrow> accept_loop pf net sv1))"

text \<open>
  \<open>listen_and_serve\<close> up to its loop: whether the server can run, and the server that listens and has
  its workers.
\<close>

definition open_server ::
    "('n, 'h, 'l, 'o) platform \<Rightarrow> 'o net \<Rightarrow> u8 \<Rightarrow> bool \<Rightarrow> u16 \<Rightarrow> string \<Rightarrow> string
      \<Rightarrow> ('n, 'h, 'l, 'o) server \<Rightarrow> (bool \<times> ('n, 'h, 'l, 'o) server) ended outcome" where
  "open_server pf net num tls prt key cert sv =
     obind (is_runnable net tls key cert) (\<lambda>runnable.
       if \<not> runnable then Inr (Finished (False, sv))
       else case server_startup pf net prt sv of
              Exited \<Rightarrow> Inr Exited
            | Finished sv1 \<Rightarrow>
                obind (lb_reset (sv_load_balancer sv1) (ucast num)) (\<lambda>lb.
                  obind (spawn_workers num tls (sv1\<lparr>sv_load_balancer := lb\<rparr>)) (\<lambda>sv2.
                    Inr (Finished (True, sv2)))))"

text \<open>
  \<open>listen_and_serve\<close> up to the point where it joins the threads; joining them is a step of the whole
  program, because it waits for the other threads.
\<close>

definition listen_and_serve ::
    "('n, 'h, 'l, 'o) platform \<Rightarrow> 'o net \<Rightarrow> u8 \<Rightarrow> bool \<Rightarrow> u16 \<Rightarrow> string \<Rightarrow> string
      \<Rightarrow> ('n, 'h, 'l, 'o) server \<Rightarrow> ('n, 'h, 'l, 'o) server ended run" where
  "listen_and_serve pf net num tls prt key cert sv =
     rbind (Some (open_server pf net num tls prt key cert sv)) (\<lambda>r.
       case r of
         Exited \<Rightarrow> Some (Inr Exited)
       | Finished (running, sv1) \<Rightarrow>
           if \<not> running then Some (Inr (Finished sv1))
           else rbind (accept_loop pf net sv1) (\<lambda>sv2. Some (Inr (Finished sv2))))"

text \<open>
  The destructor: its body closes the two descriptors; then the members are destroyed, the threads
  first, where a thread that was not joined ends the process, and the workers after them, from the
  first to the last. \<open>orders\<close> gives the order of each session map.
\<close>

primrec destroy_workers ::
    "('n, 'h, 'l, 'o) platform \<Rightarrow> int list list \<Rightarrow> ('n, 'h, 'l, 'o) worker list \<Rightarrow> file_system \<Rightarrow> 'o
      \<Rightarrow> file_system \<times> 'o" where
  "destroy_workers pf orders [] fs os = (fs, os)"
| "destroy_workers pf orders (w # ws) fs os =
     (let w' = worker_destroy pf (case orders of [] \<Rightarrow> [] | order # _ \<Rightarrow> order) (w\<lparr>wk_fs := fs, wk_os := os\<rparr>)
      in destroy_workers pf (tl orders) ws (wk_fs w') (wk_os w'))"

definition server_destroy ::
    "('n, 'h, 'l, 'o) platform \<Rightarrow> int list list \<Rightarrow> ('n, 'h, 'l, 'o) server \<Rightarrow> (file_system \<times> 'o) outcome" where
  "server_destroy pf orders sv =
     (let sy = pf_sys pf;
          os1 = (if sv_sock sv > 0 then sys_close sy (sv_os sv) (sv_sock sv) else sv_os sv);
          os2 = (if sv_epfd sv > 0 then sys_close sy os1 (sv_epfd sv) else os1)
      in if \<exists>t \<in> set (sv_threads sv). t \<noteq> Joined then Inl Terminated
         else Inr (destroy_workers pf orders (sv_workers sv) (sv_fs sv) os2))"

text \<open>\<open>main\<close>: the server with its routes, and the program from the options that \<open>getopt_long\<close> reports.\<close>

definition configured_server :: "file_system \<Rightarrow> 'o \<Rightarrow> ('n, app_handler, 'l, 'o) server outcome" where
  "configured_server fs os =
     obind (server_new fs os) (\<lambda>sv0.
       obind (add_handler GET ''/files/{file_name}'' Downloader sv0) (\<lambda>(ok1, sv1).
         obind (add_handler POST ''/files'' Uploader sv1) (\<lambda>(ok2, sv2). Inr sv2)))"

definition main_program ::
    "('n, app_handler, 'l, 'o) platform \<Rightarrow> 'o net \<Rightarrow> getopt_result list \<Rightarrow> file_system \<Rightarrow> 'o
      \<Rightarrow> ('n, app_handler, 'l, 'o) server ended run" where
  "main_program pf net opts fs os =
     rbind (Some (config_option_new opts)) (\<lambda>(usage, cfg).
       if is_help_mode cfg then Some (Inr Exited)
       else rbind (Some (configured_server fs os)) (\<lambda>sv.
              listen_and_serve pf net (num_threads cfg) (use_tls cfg \<noteq> 0) (port cfg)
                (key_path cfg) (cert_path cfg) sv))"

end
