(* ===== verification/Server_Facts.thy ===== *)
theory Server_Facts
  imports Server Worker_Safety
begin

text \<open>
  Correctness of the accept path: every accepted socket reaches exactly one worker queue, or is
  closed, and the accept loop ends when the backlog is empty; what the command line leads to; that
  the printed balance table determines the table; and why the vector of workers is reserved.
\<close>

section \<open>The accept loop\<close>

definition server_inv :: "('n, 'h, 'l, 'o) server \<Rightarrow> bool" where
  "server_inv sv \<longleftrightarrow>
     lb_inv (length (sv_workers sv)) (sv_load_balancer sv) \<and> length (sv_workers sv) < 2 ^ 31
     \<and> (\<forall>q \<in> set (worker_queues sv). cq_inv q)"

text \<open>The sockets that wait in the queues of the workers.\<close>

definition queued :: "('n, 'h, 'l, 'o) server \<Rightarrow> int multiset" where
  "queued sv = mset (concat (map cq_list (worker_queues sv)))"

text \<open>
  What is documented of the system calls of the accept path: \<open>accept4\<close> takes the first entry of the
  backlog of results and says "again" when there is none; \<open>close\<close> closes the descriptor; writing
  to the eventfd closes nothing, takes nothing from the backlog and is not interrupted for ever.
\<close>

definition accept_contract ::
    "('l, 'o) sys \<Rightarrow> 'o net \<Rightarrow> ('o \<Rightarrow> accept_result list) \<Rightarrow> ('o \<Rightarrow> int list) \<Rightarrow> ('o \<Rightarrow> nat) \<Rightarrow> bool" where
  "accept_contract sy net backlog closed patience \<longleftrightarrow>
     (\<forall>os sock. closed (snd (net_accept net os sock)) = closed os
        \<and> fst (net_accept net os sock) = (case backlog os of [] \<Rightarrow> AcceptError EAGAIN | r # rs \<Rightarrow> r)
        \<and> backlog (snd (net_accept net os sock)) = tl (backlog os))
     \<and> (\<forall>os fd. closed (sys_close sy os fd) = closed os @ [fd] \<and> backlog (sys_close sy os fd) = backlog os)
     \<and> (\<forall>os fd buf. closed (snd (sys_write sy os fd buf)) = closed os
          \<and> backlog (snd (sys_write sy os fd buf)) = backlog os
          \<and> (fst (sys_write sy os fd buf) = WriteError EINTR \<longrightarrow>
               patience (snd (sys_write sy os fd buf)) < patience os))"

text \<open>The sockets of a backlog up to the first error that ends the loop.\<close>

fun accepted_of :: "accept_result list \<Rightarrow> int list" where
  "accepted_of [] = []"
| "accepted_of (Accepted s # rs) = s # accepted_of rs"
| "accepted_of (AcceptError e # rs) = (if e = EINTR then accepted_of rs else [])"

lemma write_signal_returns:
  assumes "accept_contract sy net backlog closed patience"
  shows "\<exists>os'. write_signal sy fd os = Some os' \<and> closed os' = closed os \<and> backlog os' = backlog os"
proof (induction "patience os" arbitrary: os rule: less_induct)
  case less
  let ?buf = "CHR 0x01 # replicate 7 (CHR 0x00)"
  obtain r os1 where w: "sys_write sy os fd ?buf = (r, os1)" by fastforce
  have "closed (snd (sys_write sy os fd ?buf)) = closed os \<and> backlog (snd (sys_write sy os fd ?buf)) = backlog os
      \<and> (fst (sys_write sy os fd ?buf) = WriteError EINTR \<longrightarrow> patience (snd (sys_write sy os fd ?buf)) < patience os)"
    using assms unfolding accept_contract_def by blast
  then have c: "closed os1 = closed os" "backlog os1 = backlog os" "r = WriteError EINTR \<longrightarrow> patience os1 < patience os"
    unfolding w fst_conv snd_conv by blast+
  show ?case
  proof (cases "r = WriteError EINTR")
    case True
    with less.hyps [of os1] c have "\<exists>os'. write_signal sy fd os1 = Some os' \<and> closed os' = closed os \<and> backlog os' = backlog os"
      by simp
    with True w show ?thesis by (subst write_signal.simps) simp
  next
    case False
    then have "write_signal sy fd os = Some os1"
      by (subst write_signal.simps) (cases r; simp add: w)
    with c show ?thesis by simp
  qed
qed

lemma mset_concat_update:
  assumes "i < length qs" "f q = f (qs ! i) @ [x]"
  shows "mset (concat (map f (qs[i := q]))) = add_mset x (mset (concat (map f qs)))"
proof -
  have "qs[i := q] = take i qs @ [q] @ drop (Suc i) qs" using assms(1) by (simp add: upd_conv_take_nth_drop)
  moreover have "map f qs = map f (take i qs @ [qs ! i] @ drop (Suc i) qs)"
    using assms(1) by (simp add: id_take_nth_drop [symmetric])
  ultimately show ?thesis using assms(2) by simp
qed

lemma enqueue_not_full:
  assumes "push (wk_socket_queue w) sock = Inr (True, q)" "\<forall>fd os. write_signal (pf_sys pf) fd os \<noteq> None"
  obtains w' where "enqueue_sock pf sock w = Some (Inr (True, w'))" "wk_socket_queue w' = q"
    "wk_os w' = wk_os w \<or> write_signal (pf_sys pf) (wk_signal_fd w) (wk_os w) = Some (wk_os w')"
proof (cases "wk_pending_notify w")
  case True
  with assms(1) show ?thesis by (intro that [of "w\<lparr>wk_socket_queue := q\<rparr>"]) (simp_all add: enqueue_sock_def)
next
  case False
  from assms(2) obtain os' where os': "write_signal (pf_sys pf) (wk_signal_fd w) (wk_os w) = Some os'" by blast
  with False assms(1) show ?thesis
    by (intro that [of "w\<lparr>wk_socket_queue := q, wk_pending_notify := True, wk_os := os'\<rparr>"]) (simp_all add: enqueue_sock_def)
qed

text \<open>The two ways in which an accepted socket is dispatched.\<close>

lemma dispatch_cases:
  fixes sv :: "('n, 'h, 'l, 'o) server"
  assumes inv: "server_inv sv" and wr: "\<forall>fd os. write_signal (pf_sys pf) fd os \<noteq> None"
  obtains (refused) lb where
      "dispatch_socket pf sock sv =
         Some (Inr (sv\<lparr>sv_load_balancer := lb, sv_os := sys_close (pf_sys pf) (sv_os sv) sock\<rparr>))"
      "lb_inv (length (sv_workers sv)) lb" "\<forall>q \<in> set (worker_queues sv). is_full q"
  | (handed) lb i w where
      "dispatch_socket pf sock sv =
         Some (Inr (sv\<lparr>sv_load_balancer := lb, sv_workers := (sv_workers sv)[i := w], sv_os := wk_os w\<rparr>))"
      "lb_inv (length (sv_workers sv)) lb" "i < length (sv_workers sv)"
      "enqueue_sock pf sock ((sv_workers sv ! i)\<lparr>wk_os := sv_os sv\<rparr>) = Some (Inr (True, w))"
      "cq_inv (wk_socket_queue w)" "cq_list (wk_socket_queue w) = cq_list (wk_socket_queue (sv_workers sv ! i)) @ [sock]"
      "wk_os w = sv_os sv \<or> (\<exists>fd. write_signal (pf_sys pf) fd (sv_os sv) = Some (wk_os w))"
proof -
  let ?qs = "worker_queues sv" and ?lb = "sv_load_balancer sv"
  have len: "length ?qs = length (sv_workers sv)" by (simp add: worker_queues_def)
  have lb: "lb_inv (length ?qs) ?lb" "length ?qs < 2 ^ 31" using inv by (simp_all add: server_inv_def len)
  from lb.pick_spec [OF lb, of "of_int sock"] obtain r lb' where
    acq: "acquire_worker_index ?lb ?qs (of_int sock) = Some (Inr (r, lb'))" and lb': "lb_inv (length ?qs) lb'"
    by blast
  show ?thesis
  proof (cases "r < 0")
    case True
    moreover have "\<forall>q \<in> set ?qs. is_full q" using lb.refused_iff_all_full [OF lb acq] True by blast
    ultimately show ?thesis using acq lb' len by (intro refused) (simp_all add: dispatch_socket_def)
  next
    case False
    let ?i = "nat r"
    have "\<forall>q \<in> set ?qs. cq_inv q" using inv by (simp add: server_inv_def)
    from lb.picked_has_room [OF lb this acq, of sock] False obtain q' where
      i: "?i < length ?qs" and q': "push (?qs ! ?i) sock = Inr (True, q')" "cq_inv q'"
        "cq_list q' = cq_list (?qs ! ?i) @ [sock]" by auto
    let ?w = "(sv_workers sv ! ?i)\<lparr>wk_os := sv_os sv\<rparr>"
    have i': "?i < length (sv_workers sv)" using i len by simp
    have q: "wk_socket_queue ?w = ?qs ! ?i" using i' by (simp add: worker_queues_def)
    then have "push (wk_socket_queue ?w) sock = Inr (True, q')" using q' by simp
    from enqueue_not_full [OF this wr] obtain w' where
      w': "enqueue_sock pf sock ?w = Some (Inr (True, w'))" "wk_socket_queue w' = q'"
        "wk_os w' = wk_os ?w \<or> write_signal (pf_sys pf) (wk_signal_fd ?w) (wk_os ?w) = Some (wk_os w')" by blast
    from w'(3) have wos: "wk_os w' = sv_os sv \<or> (\<exists>fd. write_signal (pf_sys pf) fd (sv_os sv) = Some (wk_os w'))"
      by auto
    have "dispatch_socket pf sock sv =
        Some (Inr (sv\<lparr>sv_load_balancer := lb', sv_workers := (sv_workers sv)[?i := w'], sv_os := wk_os w'\<rparr>))"
      using False acq i' w'(1) by (simp add: dispatch_socket_def)
    then show ?thesis
    proof (rule handed)
      show "lb_inv (length (sv_workers sv)) lb'" using lb' len by simp
      show "cq_inv (wk_socket_queue w')" using w'(2) q'(2) by simp
      show "cq_list (wk_socket_queue w') = cq_list (wk_socket_queue (sv_workers sv ! ?i)) @ [sock]"
        using w'(2) q'(3) i' by (simp add: worker_queues_def)
    qed (fact i' w'(1) wos)+
  qed
qed

lemma dispatch_ok:
  assumes inv: "server_inv sv" and con: "accept_contract (pf_sys pf) net backlog closed patience"
  shows "\<exists>sv'. dispatch_socket pf sock sv = Some (Inr sv') \<and> server_inv sv' \<and> sv_sock sv' = sv_sock sv
    \<and> queued sv' + mset (closed (sv_os sv')) = add_mset sock (queued sv + mset (closed (sv_os sv)))
    \<and> backlog (sv_os sv') = backlog (sv_os sv)"
proof -
  have close: "closed (sys_close (pf_sys pf) os fd) = closed os @ [fd]"
    "backlog (sys_close (pf_sys pf) os fd) = backlog os" for os fd
    using con unfolding accept_contract_def by blast+
  note wr = write_signal_returns [OF con]
  then have "\<forall>fd os. write_signal (pf_sys pf) fd os \<noteq> None" by (metis option.distinct(1))
  from inv this show ?thesis
  proof (cases rule: dispatch_cases [where sock = sock])
    case (refused lb)
    with inv show ?thesis by (simp add: server_inv_def close queued_def worker_queues_def)
  next
    case (handed lb i w)
    let ?sv = "sv\<lparr>sv_load_balancer := lb, sv_workers := (sv_workers sv)[i := w], sv_os := wk_os w\<rparr>"
    let ?qs = "worker_queues sv"
    have qs': "worker_queues ?sv = ?qs[i := wk_socket_queue w]" by (simp add: worker_queues_def map_update)
    have "server_inv ?sv" using inv handed(2,5) unfolding server_inv_def qs'
      by (auto dest!: set_update_subset_insert [THEN subsetD])
    moreover have "queued ?sv = add_mset sock (queued sv)"
      unfolding queued_def qs' by (rule mset_concat_update) (use handed(3,6) in \<open>simp_all add: worker_queues_def\<close>)
    moreover have "closed (wk_os w) = closed (sv_os sv) \<and> backlog (wk_os w) = backlog (sv_os sv)"
      using handed(7) wr by (metis option.inject)
    ultimately show ?thesis using handed(1) by simp
  qed
qed

text \<open>One round of the loop, by what the backlog holds.\<close>

lemma handle_accept_round:
  assumes "accept_contract (pf_sys pf) net backlog closed patience"
  obtains os1 where "closed os1 = closed (sv_os sv)" "backlog os1 = tl (backlog (sv_os sv))"
    "handle_accept pf net sv =
       (case backlog (sv_os sv) of
          Accepted sock # rs \<Rightarrow> rbind (dispatch_socket pf sock (sv\<lparr>sv_os := os1\<rparr>)) (handle_accept pf net)
        | AcceptError e # rs \<Rightarrow>
            if e = EINTR then handle_accept pf net (sv\<lparr>sv_os := os1\<rparr>) else Some (Inr (sv\<lparr>sv_os := os1\<rparr>))
        | [] \<Rightarrow> Some (Inr (sv\<lparr>sv_os := os1\<rparr>)))"
proof -
  obtain r os1 where a: "net_accept net (sv_os sv) (sv_sock sv) = (r, os1)" by fastforce
  have "closed (snd (net_accept net (sv_os sv) (sv_sock sv))) = closed (sv_os sv)
      \<and> fst (net_accept net (sv_os sv) (sv_sock sv)) = (case backlog (sv_os sv) of [] \<Rightarrow> AcceptError EAGAIN | r # rs \<Rightarrow> r)
      \<and> backlog (snd (net_accept net (sv_os sv) (sv_sock sv))) = tl (backlog (sv_os sv))"
    using assms unfolding accept_contract_def by blast
  then have c: "closed os1 = closed (sv_os sv)" "backlog os1 = tl (backlog (sv_os sv))"
    "r = (case backlog (sv_os sv) of [] \<Rightarrow> AcceptError EAGAIN | r # rs \<Rightarrow> r)"
    unfolding a fst_conv snd_conv by blast+
  show ?thesis
    by (rule that [OF c(1,2)], subst handle_accept.simps)
      (simp add: a c(3) rbind_def split: list.split accept_result.split option.split sum.split)
qed

lemma handle_accept_ok:
  assumes "server_inv sv" and con: "accept_contract (pf_sys pf) net backlog closed patience"
  shows "\<exists>sv'. handle_accept pf net sv = Some (Inr sv') \<and> server_inv sv'
    \<and> queued sv' + mset (closed (sv_os sv')) =
        queued sv + mset (closed (sv_os sv)) + mset (accepted_of (backlog (sv_os sv)))"
  using assms(1)
proof (induction "length (backlog (sv_os sv))" arbitrary: sv rule: less_induct)
  case less
  obtain os1 where c: "closed os1 = closed (sv_os sv)" "backlog os1 = tl (backlog (sv_os sv))"
    and round: "handle_accept pf net sv =
       (case backlog (sv_os sv) of
          Accepted sock # rs \<Rightarrow> rbind (dispatch_socket pf sock (sv\<lparr>sv_os := os1\<rparr>)) (handle_accept pf net)
        | AcceptError e # rs \<Rightarrow>
            if e = EINTR then handle_accept pf net (sv\<lparr>sv_os := os1\<rparr>) else Some (Inr (sv\<lparr>sv_os := os1\<rparr>))
        | [] \<Rightarrow> Some (Inr (sv\<lparr>sv_os := os1\<rparr>)))" by (rule handle_accept_round [OF con])
  let ?sv1 = "sv\<lparr>sv_os := os1\<rparr>"
  have inv1: "server_inv ?sv1" and q1: "queued ?sv1 = queued sv"
    using less.prems by (simp_all add: server_inv_def worker_queues_def queued_def)
  consider "backlog (sv_os sv) = []" | e rs where "backlog (sv_os sv) = AcceptError e # rs"
    | sock rs where "backlog (sv_os sv) = Accepted sock # rs"
    by (metis list.exhaust accept_result.exhaust)
  then show ?case
  proof cases
    case 1
    with inv1 q1 c round show ?thesis by simp
  next
    case (2 e rs)
    with less.hyps [of ?sv1] inv1 q1 c round show ?thesis by (cases "e = EINTR") simp_all
  next
    case (3 sock rs)
    from dispatch_ok [OF inv1 con, of sock] obtain sv2 where
      d: "dispatch_socket pf sock ?sv1 = Some (Inr sv2)" "server_inv sv2"
        "queued sv2 + mset (closed (sv_os sv2)) = add_mset sock (queued ?sv1 + mset (closed (sv_os ?sv1)))"
        "backlog (sv_os sv2) = backlog (sv_os ?sv1)" by blast
    with 3 c have "length (backlog (sv_os sv2)) < length (backlog (sv_os sv))" by simp
    from less.hyps [OF this d(2)] d q1 c 3 round show ?thesis by auto
  qed
qed

section \<open>Start-up\<close>

text \<open>The server after the workers and their threads were created.\<close>

definition spawned :: "u8 \<Rightarrow> bool \<Rightarrow> ('n, 'h, 'l, 'o) server \<Rightarrow> ('n, 'h, 'l, 'o) server" where
  "spawned num tls sv =
     sv\<lparr>sv_reserved := max (sv_reserved sv) (unat num),
        sv_workers := replicate (unat num) (worker_new (Some (sv_router sv)) tls (sv_fs sv) (sv_os sv)),
        sv_threads := sv_threads sv @ replicate (unat num) Created\<rparr>"

lemma create_workers_room:
  assumes "length (sv_workers sv) + (unat num - unat i) \<le> sv_reserved sv"
  shows "create_workers i num tls sv =
    sv\<lparr>sv_workers := sv_workers sv @
       replicate (unat num - unat i) (worker_new (Some (sv_router sv)) tls (sv_fs sv) (sv_os sv))\<rparr>"
  using assms
proof (induction i num tls sv rule: create_workers.induct)
  case (1 i num tls sv)
  let ?w = "worker_new (Some (sv_router sv)) tls (sv_fs sv) (sv_os sv)"
  show ?case
  proof (cases "i < num")
    case True
    then have n: "unat num - unat i = Suc (unat num - unat (i + 1))"
      using u8_count [OF True] by (simp add: word_less_nat_alt)
    with 1(2) have "emplace_worker ?w sv = sv\<lparr>sv_workers := sv_workers sv @ [?w]\<rparr>" by (simp add: emplace_worker_def)
    with 1(1) [OF True] 1(2) n True show ?thesis by (simp add: create_workers.simps [of i])
  next
    case False
    then show ?thesis by (simp add: word_less_nat_alt create_workers.simps [of i])
  qed
qed

lemma create_threads_all:
  assumes "unat num \<le> length (sv_workers sv)"
  shows "create_threads i num sv = Inr (sv\<lparr>sv_threads := sv_threads sv @ replicate (unat num - unat i) Created\<rparr>)"
  using assms
proof (induction i num sv rule: create_threads.induct)
  case (1 i num sv)
  show ?case
  proof (cases "i < num")
    case True
    then have n: "unat num - unat i = Suc (unat num - unat (i + 1))" "unat i < unat num"
      using u8_count [OF True] by (simp_all add: word_less_nat_alt)
    with 1(2) have "vec_at (sv_workers sv) (unat i) = Inr (sv_workers sv ! unat i)" by simp
    with 1(1) [OF True] 1(2) n True show ?thesis by (simp add: create_threads.simps [of i])
  next
    case False
    then show ?thesis by (simp add: word_less_nat_alt create_threads.simps [of i])
  qed
qed

lemma spawn_workers_eq:
  assumes "sv_workers sv = []"
  shows "spawn_workers num tls sv = Inr (spawned num tls sv)"
  using assms
  by (simp add: spawn_workers_def spawned_def create_workers_room create_threads_all)

lemma spawned_inv:
  assumes "num \<noteq> 0" "lb_new 1 1024 = Inr lb" "sv_load_balancer sv = lb"
  shows "\<exists>lb'. lb_reset lb (ucast num) = Inr lb' \<and> server_inv (spawned num tls (sv\<lparr>sv_load_balancer := lb'\<rparr>))"
proof -
  have n: "unat (ucast num :: u32) = unat num" by (simp add: unat_ucast_up)
  then have "(ucast num :: u32) \<noteq> 0" using assms(1) by (metis unat_eq_zero)
  note rr = lb_reset_round_robin [OF this lb_new_table [OF assms(2)]]
  have "unat num < 2 ^ 8" using unsigned_less [of num] by simp
  with rr n show ?thesis
    by (auto simp: server_inv_def spawned_def worker_queues_def worker_new_queue)
qed

lemma startup_keeps:
  assumes "server_startup pf net prt sv = Finished sv1"
  shows "sv_router sv1 = sv_router sv" "sv_workers sv1 = sv_workers sv" "sv_threads sv1 = sv_threads sv"
    "sv_load_balancer sv1 = sv_load_balancer sv" "sv_fs sv1 = sv_fs sv"
  using assms
  by (auto simp: server_startup_def server_set_event_def Let_def split: option.split_asm if_splits prod.split_asm)

text \<open>The server that \<open>main\<close> builds before it listens.\<close>

definition fresh_server :: "load_balancer \<Rightarrow> file_system \<Rightarrow> 'o \<Rightarrow> ('n, app_handler, 'l, 'o) server" where
  "fresh_server lb fs os =
     \<lparr>sv_router = app_routes, sv_workers = [], sv_reserved = 0, sv_threads = [], sv_load_balancer = lb,
      sv_epfd = - 1, sv_sock = - 1, sv_fs = fs, sv_os = os\<rparr>"

lemma configured_server_eq:
  obtains lb where "lb_new 1 1024 = Inr lb" "configured_server fs os = Inr (fresh_server lb fs os)"
proof -
  obtain lb where lb: "lb_new 1 1024 = Inr lb" using lb_new_ok by blast
  have "\<exists>b1 r1 b2. router_add GET ''/files/{file_name}'' Downloader empty_node = Inr (b1, r1)
      \<and> router_add POST ''/files'' Uploader r1 = Inr (b2, app_routes)"
    using app_router_eq by (auto simp: app_router_def obind_eq_Inr)
  with lb have "configured_server fs os = Inr (fresh_server lb fs os)"
    by (auto simp: configured_server_def server_new_def add_handler_def fresh_server_def)
  with lb show ?thesis by (rule that)
qed

text \<open>What opening the server leads to, for a thread count that is not zero.\<close>

lemma open_server_serving:
  assumes "num \<noteq> 0" "lb_new 1 1024 = Inr lb" "is_runnable net tls key cert = Inr True"
    and "server_startup pf net prt (fresh_server lb fs os) = Finished sv1"
  obtains sv where "open_server pf net num tls prt key cert (fresh_server lb fs os) = Inr (Finished (True, sv))"
    "server_inv sv" "queued sv = {#}" "sv_router sv = app_routes" "length (sv_workers sv) = unat num"
    "sv_threads sv = replicate (unat num) Created" "sv_os sv = sv_os sv1"
    "\<forall>w \<in> set (sv_workers sv). \<exists>os. w = worker_new (Some app_routes) tls fs os"
proof -
  note k = startup_keeps [OF assms(4)]
  from spawned_inv [OF assms(1,2), of sv1 tls] k obtain lb' where
    r: "lb_reset lb (ucast num) = Inr lb'" and inv: "server_inv (spawned num tls (sv1\<lparr>sv_load_balancer := lb'\<rparr>))"
    by (auto simp: fresh_server_def)
  show ?thesis
  proof (rule that [OF _ inv])
    show "open_server pf net num tls prt key cert (fresh_server lb fs os) =
        Inr (Finished (True, spawned num tls (sv1\<lparr>sv_load_balancer := lb'\<rparr>)))"
      using assms k r by (simp add: open_server_def spawn_workers_eq fresh_server_def)
  qed (use k in \<open>auto simp: queued_def worker_queues_def spawned_def worker_new_queue fresh_server_def\<close>)
qed

section \<open>Printing the balance table\<close>

lemma lines_inject:
  assumes "c \<notin> set xs" "c \<notin> set ys"
  shows "xs @ c # us = ys @ c # vs \<longleftrightarrow> xs = ys \<and> us = vs"
proof
  have t: "takeWhile (\<lambda>x. x \<noteq> c) (zs @ c # ws) = zs" if "c \<notin> set zs" for zs ws
    using that by (induction zs) auto
  assume eq: "xs @ c # us = ys @ c # vs"
  with t [OF assms(1)] t [OF assms(2)] have "xs = ys" by metis
  with eq show "xs = ys \<and> us = vs" by simp
qed simp

lemma dec_nat_inject: "dec_nat m = dec_nat n \<longleftrightarrow> m = n"
  by (metis digits_value_dec_nat)

lemma dec_nat_one_line: "CHR 0x0A \<notin> set (dec_nat n)"
  using dec_nat_digits [of n] by (auto simp: is_digit_def)

text \<open>What the load balancer prints determines its table.\<close>

lemma printed_table_determines:
  "print_load_balancer lb = print_load_balancer lb' \<longleftrightarrow> indirect_table lb = indirect_table lb'"
proof -
  let ?p = "\<lambda>t :: u32 list. concat (map (\<lambda>d. dec_nat (unat d) @ [CHR 0x0A]) t)"
  have "?p t = ?p t' \<longleftrightarrow> t = t'" for t t'
  proof (induction t arbitrary: t')
    case Nil
    show ?case by (cases t') simp_all
  next
    case (Cons d t)
    then show ?case by (cases t') (simp_all add: lines_inject dec_nat_one_line dec_nat_inject word_unat_eq_iff)
  qed
  then show ?thesis by (simp add: print_load_balancer_def)
qed

section \<open>Moving workers\<close>

text \<open>A worker whose functions refer to another object stays so when the vector grows.\<close>

lemma create_workers_head:
  assumes "sv_workers sv \<noteq> []" "bound_mode (hd (sv_workers sv)) = Inl DanglingPointer"
  shows "bound_mode (hd (sv_workers (create_workers i num tls sv))) = Inl DanglingPointer"
  using assms
proof (induction i num tls sv rule: create_workers.induct)
  case (1 i num tls sv)
  have "bound_mode (fst (worker_move w)) = Inl DanglingPointer" if "bound_mode w = Inl DanglingPointer"
    for w :: "('a, 'b, 'c, 'd) worker"
    using that by (simp add: bound_mode_def worker_move_def Let_def split: callbacks.split callbacks.split_asm prod.split)
  with 1 show ?case
    by (cases "i < num") (auto simp: create_workers.simps [of i] emplace_worker_def Let_def hd_map)
qed

lemma update_events_dangling:
  "bound_mode w = Inl DanglingPointer \<Longrightarrow> update_events pf sock sd w = Inl DanglingPointer"
  by (simp add: update_events_def)

text \<open>
  C31: reserving the vector before the loop is what keeps the workers usable: every worker that
  \<open>spawn_workers\<close> creates has its three functions bound to itself, in the mode asked for. Without the
  reservation the vector moves its workers when it grows, the move constructor copies functions that
  still refer to the old objects, and the first of two or more workers faults as soon as it calls one.
\<close>

theorem reservation_keeps_workers_usable:
  assumes "sv_workers sv = []"
  shows "(\<exists>sv'. spawn_workers num tls sv = Inr sv' \<and> length (sv_workers sv') = unat num
       \<and> (\<forall>w \<in> set (sv_workers sv'). bound_mode w = Inr tls))
    \<and> (sv_reserved sv = 0 \<longrightarrow> 1 < num \<longrightarrow>
         update_events pf sock sd (hd (sv_workers (create_workers 0 num tls sv))) = Inl DanglingPointer)"
proof (intro conjI impI)
  show "\<exists>sv'. spawn_workers num tls sv = Inr sv' \<and> length (sv_workers sv') = unat num
       \<and> (\<forall>w \<in> set (sv_workers sv'). bound_mode w = Inr tls)"
    by (simp add: spawn_workers_eq [OF assms] spawned_def worker_new_eq)
  assume r: "sv_reserved sv = 0" and n: "1 < num"
  then have "0 < num" by (simp add: word_less_nat_alt)
  let ?w = "worker_new (Some (sv_router sv)) tls (sv_fs sv) (sv_os sv)"
  let ?sv = "emplace_worker ?w (emplace_worker ?w sv)"
  have sv: "?sv = sv\<lparr>sv_reserved := 2, sv_workers := [fst (worker_move ?w), ?w]\<rparr>"
    using assms r by (simp add: emplace_worker_def)
  have "bound_mode (fst (worker_move ?w)) = Inl DanglingPointer"
    by (simp add: bound_mode_def worker_move_def worker_new_eq split: prod.split)
  then have "bound_mode (hd (sv_workers (create_workers 2 num tls ?sv))) = Inl DanglingPointer"
    by (intro create_workers_head) (simp_all add: sv)
  moreover have "create_workers 0 num tls sv = create_workers 2 num tls ?sv"
    using n \<open>0 < num\<close> assms r by (simp add: create_workers.simps [of 0] create_workers.simps [of 1] emplace_worker_def)
  ultimately show "update_events pf sock sd (hd (sv_workers (create_workers 0 num tls sv))) = Inl DanglingPointer"
    by (simp add: update_events_dangling)
qed

theorem reservation_keeps_workers_usable_witness:
  "\<exists>sv :: (unit, nat, unit, unit) server. sv_workers sv = [] \<and> sv_reserved sv = 0
    \<and> (\<exists>sv'. spawn_workers 2 True sv = Inr sv' \<and> length (sv_workers sv') = 2
         \<and> (\<forall>w \<in> set (sv_workers sv'). bound_mode w = Inr True))
    \<and> (\<forall>pf sock sd. update_events pf sock sd (hd (sv_workers (create_workers 0 2 True sv))) = Inl DanglingPointer)"
proof -
  let ?sv = "\<lparr>sv_router = empty_node, sv_workers = [], sv_reserved = 0, sv_threads = [],
    sv_load_balancer = \<lparr>indirect_table = [0]\<rparr>, sv_epfd = - 1, sv_sock = - 1, sv_fs = Map.empty, sv_os = ()\<rparr>
      :: (unit, nat, unit, unit) server"
  show ?thesis
    by (rule exI [of _ ?sv]) (use reservation_keeps_workers_usable [of ?sv 2 True] in simp)
qed

end
