(* ===== verification/Whole_Program.thy ===== *)
theory Whole_Program
  imports Worker_Sockets Server_Facts
begin

text \<open>
  The program as a whole: the main thread, which accepts connections, joins the workers and destroys
  the server, and the worker threads, in any interleaving. They share the operating system, the file
  system, and the queue and the flag of each worker. A step of the main thread is one system call or
  one dispatched socket, a step of a worker is one wait or one event; that the parts of \<open>enqueue_sock\<close>
  and of the signal handler may interleave in smaller steps is the subject of \<open>Notify_Protocol\<close>.
\<close>

section \<open>The threads\<close>

text \<open>Where the main thread is in \<open>listen_and_serve\<close>, and the end of \<open>main\<close>.\<close>

datatype acceptor = Waiting | Accepting | Joining nat | Ended

record ('n, 'h, 'l, 'o) program =
  pg_acceptor :: acceptor
  pg_server :: "('n, 'h, 'l, 'o) server"

text \<open>
  A step of the main thread. A thread that has not returned yet is joined later; when all are joined,
  \<open>main\<close> returns and the server is destroyed.
\<close>

definition acceptor_step ::
    "('n, 'h, 'l, 'o) platform \<Rightarrow> 'o net \<Rightarrow> (('n, 'h, 'l, 'o) worker list \<Rightarrow> int list list)
      \<Rightarrow> ('n, 'h, 'l, 'o) program \<Rightarrow> ('n, 'h, 'l, 'o) program run" where
  "acceptor_step pf net orders p =
     (let sv = pg_server p in
      case pg_acceptor p of
        Waiting \<Rightarrow>
          (case sys_epoll_wait (pf_sys pf) (sv_os sv) (sv_epfd sv) of
             (Inl e, os1) \<Rightarrow>
               Some (Inr \<lparr>pg_acceptor = (if e = EINTR then Waiting else Joining 0), pg_server = sv\<lparr>sv_os := os1\<rparr>\<rparr>)
           | (Inr evs, os1) \<Rightarrow>
               Some (Inr \<lparr>pg_acceptor = (if evs = [] then Waiting else Accepting), pg_server = sv\<lparr>sv_os := os1\<rparr>\<rparr>))
      | Accepting \<Rightarrow>
          (case net_accept net (sv_os sv) (sv_sock sv) of
             (AcceptError e, os1) \<Rightarrow>
               Some (Inr \<lparr>pg_acceptor = (if e = EINTR then Accepting else Waiting), pg_server = sv\<lparr>sv_os := os1\<rparr>\<rparr>)
           | (Accepted sock, os1) \<Rightarrow>
               rbind (dispatch_socket pf sock (sv\<lparr>sv_os := os1\<rparr>)) (\<lambda>sv1.
                 Some (Inr \<lparr>pg_acceptor = Accepting, pg_server = sv1\<rparr>)))
      | Joining i \<Rightarrow>
          if i < length (sv_threads sv) then
            (if sv_threads sv ! i = Returned
             then Some (Inr \<lparr>pg_acceptor = Joining (i + 1), pg_server = sv\<lparr>sv_threads := (sv_threads sv)[i := Joined]\<rparr>\<rparr>)
             else Some (Inr p))
          else rbind (Some (server_destroy pf (orders (sv_workers sv)) sv)) (\<lambda>(fs1, os1).
                 Some (Inr \<lparr>pg_acceptor = Ended,
                   pg_server = sv\<lparr>sv_workers := [], sv_threads := [], sv_fs := fs1, sv_os := os1\<rparr>\<rparr>))
      | Ended \<Rightarrow> Some (Inr p))"

text \<open>A worker thread sees the shared state when it runs, and leaves it to the others.\<close>

definition enter_worker :: "nat \<Rightarrow> ('n, 'h, 'l, 'o) server \<Rightarrow> ('n, 'h, 'l, 'o) worker" where
  "enter_worker k sv = (sv_workers sv ! k)\<lparr>wk_fs := sv_fs sv, wk_os := sv_os sv\<rparr>"

definition leave_worker ::
    "nat \<Rightarrow> thread \<Rightarrow> ('n, 'h, 'l, 'o) worker \<Rightarrow> ('n, 'h, 'l, 'o) server \<Rightarrow> ('n, 'h, 'l, 'o) server" where
  "leave_worker k t w sv =
     sv\<lparr>sv_workers := (sv_workers sv)[k := w], sv_threads := (sv_threads sv)[k := t],
        sv_fs := wk_fs w, sv_os := wk_os w\<rparr>"

text \<open>The next step of the \<open>k\<close>-th thread in \<open>Worker::run\<close>, from its state and its worker.\<close>

definition worker_step ::
    "('n, 'h, 'l, 'o) platform \<Rightarrow> string \<Rightarrow> string \<Rightarrow> thread \<Rightarrow> ('n, 'h, 'l, 'o) worker
      \<Rightarrow> (thread \<times> ('n, 'h, 'l, 'o) worker) run" where
  "worker_step pf key cert t w =
     (case t of
        Created \<Rightarrow>
          (let (ok, w1) = startup pf w in
           Some (Inr (if \<not> ok then (Returned, w1)
             else (Polling,
               if wk_use_tls w1 then w1\<lparr>wk_ssl_ctx := fst (create_ssl_ctx (pf_ssl pf) key cert)\<rparr> else w1))))
      | Polling \<Rightarrow>
          (case sys_epoll_wait (pf_sys pf) (wk_os w) (wk_epfd w) of
             (Inl e, os1) \<Rightarrow> Some (Inr (if e = EINTR then Polling else Returned, w\<lparr>wk_os := os1\<rparr>))
           | (Inr evs, os1) \<Rightarrow> Some (Inr (Handling evs, w\<lparr>wk_os := os1\<rparr>)))
      | Handling evs \<Rightarrow>
          (case evs of
             [] \<Rightarrow> Some (Inr (Polling, w))
           | ev # rest \<Rightarrow> rbind (handle_event_list pf [ev] w) (\<lambda>w1. Some (Inr (Handling rest, w1))))
      | Returned \<Rightarrow> Some (Inr (t, w))
      | Joined \<Rightarrow> Some (Inr (t, w)))"

definition thread_step ::
    "('n, 'h, 'l, 'o) platform \<Rightarrow> string \<Rightarrow> string \<Rightarrow> nat \<Rightarrow> ('n, 'h, 'l, 'o) program \<Rightarrow> ('n, 'h, 'l, 'o) program run" where
  "thread_step pf key cert k p =
     (let sv = pg_server p in
      rbind (worker_step pf key cert (sv_threads sv ! k) (enter_worker k sv)) (\<lambda>(t, w).
        Some (Inr (p\<lparr>pg_server := leave_worker k t w sv\<rparr>))))"

inductive program_reach ::
    "('n, 'h, 'l, 'o) platform \<Rightarrow> 'o net \<Rightarrow> (('n, 'h, 'l, 'o) worker list \<Rightarrow> int list list) \<Rightarrow> string \<Rightarrow> string
      \<Rightarrow> ('n, 'h, 'l, 'o) program \<Rightarrow> ('n, 'h, 'l, 'o) program \<Rightarrow> bool"
  for pf net orders key cert p0 where
  start: "program_reach pf net orders key cert p0 p0"
| main: "program_reach pf net orders key cert p0 p \<Longrightarrow> acceptor_step pf net orders p = Some (Inr p')
    \<Longrightarrow> program_reach pf net orders key cert p0 p'"
| worker: "program_reach pf net orders key cert p0 p \<Longrightarrow> k < length (sv_threads (pg_server p))
    \<Longrightarrow> thread_step pf key cert k p = Some (Inr p')
    \<Longrightarrow> program_reach pf net orders key cert p0 p'"

section \<open>Safety of the program\<close>

text \<open>
  The worker of a thread: before the thread has started there are no sessions, while it runs the
  sessions are well-formed. \<open>ctx\<close> says whether the TLS context can be created.
\<close>

definition thread_ok :: "('n \<Rightarrow> stream_view) \<Rightarrow> bool \<Rightarrow> ('n, 'h, 'l, 'o) worker \<Rightarrow> thread \<Rightarrow> bool" where
  "thread_ok V ctx w t \<longleftrightarrow>
     (case t of
        Created \<Rightarrow> idle_ok V w \<and> (wk_use_tls w \<longrightarrow> ctx)
      | Polling \<Rightarrow> worker_ok V w
      | Handling evs \<Rightarrow> worker_ok V w
      | Returned \<Rightarrow> True
      | Joined \<Rightarrow> True)"

definition program_ok :: "('n \<Rightarrow> stream_view) \<Rightarrow> bool \<Rightarrow> ('n, 'h, 'l, 'o) program \<Rightarrow> bool" where
  "program_ok V ctx p \<longleftrightarrow>
     (let sv = pg_server p in
      if pg_acceptor p = Ended then sv_threads sv = []
      else server_inv sv \<and> list_all2 (thread_ok V ctx) (sv_workers sv) (sv_threads sv)
        \<and> (\<forall>i. pg_acceptor p = Joining i \<longrightarrow>
             i \<le> length (sv_threads sv) \<and> (\<forall>j < i. sv_threads sv ! j = Joined)))"

definition accepts_descriptors :: "'o net \<Rightarrow> bool" where
  "accepts_descriptors net \<longleftrightarrow> (\<forall>os s fd os'. net_accept net os s = (Accepted fd, os') \<longrightarrow> 0 \<le> fd)"

lemma idle_ok_fields [simp]:
  "idle_ok V (w\<lparr>wk_os := os\<rparr>) = idle_ok V w" "idle_ok V (w\<lparr>wk_fs := fs\<rparr>) = idle_ok V w"
  by (simp_all add: idle_ok_def worker_ok_def good_session_def connected_def)

lemma thread_ok_fields [simp]:
  "thread_ok V ctx (w\<lparr>wk_os := os\<rparr>) t = thread_ok V ctx w t" "thread_ok V ctx (w\<lparr>wk_fs := fs\<rparr>) t = thread_ok V ctx w t"
  by (simp_all add: thread_ok_def split: thread.split)

lemma worker_step_ends:
  assumes "platform_ok pf prov patience work" "cq_inv (wk_socket_queue w)"
    and "thread_ok (pf_view pf prov) (fst (create_ssl_ctx (pf_ssl pf) key cert) \<noteq> None) w t"
  shows "ends (\<lambda>(t', w'). cq_inv (wk_socket_queue w') \<and> (t = Joined \<longrightarrow> t' = Joined)
      \<and> thread_ok (pf_view pf prov) (fst (create_ssl_ctx (pf_ssl pf) key cert) \<noteq> None) w' t')
    (worker_step pf key cert t w)"
proof (cases t)
  case Created
  obtain ok w1 where s: "startup pf w = (ok, w1)" by fastforce
  from startup_form [OF s] have f: "wk_use_tls w1 = wk_use_tls w" "wk_callbacks w1 = wk_callbacks w"
    "wk_session_map w1 = wk_session_map w" "wk_socket_queue w1 = wk_socket_queue w" by (simp_all add: worker_rest_def)
  with s assms(2,3) Created show ?thesis
    by (auto simp: worker_step_def thread_ok_def idle_ok_def worker_ok_def)
next
  case Polling
  obtain r os1 where "sys_epoll_wait (pf_sys pf) (wk_os w) (wk_epfd w) = (r, os1)" by fastforce
  with assms(2,3) Polling show ?thesis by (cases r) (auto simp: worker_step_def thread_ok_def)
next
  case (Handling evs)
  show ?thesis
  proof (cases evs)
    case (Cons ev rest)
    from assms(3) Handling have "worker_ok (pf_view pf prov) w" by (simp add: thread_ok_def)
    from handle_event_list_ends [OF assms(1) this] show ?thesis
      unfolding worker_step_def Handling Cons thread.case list.case
      by (rule ends_rbind) (simp add: thread_ok_def worker_ok_def)
  qed (use assms(2,3) Handling in \<open>simp add: worker_step_def thread_ok_def\<close>)
qed (use assms(2,3) in \<open>simp_all add: worker_step_def\<close>)

lemma server_inv_leave:
  assumes "server_inv sv" "cq_inv (wk_socket_queue w)"
  shows "server_inv (leave_worker k t w sv)"
proof -
  have "worker_queues (leave_worker k t w sv) = (worker_queues sv)[k := wk_socket_queue w]"
    by (simp add: worker_queues_def leave_worker_def map_update)
  then show ?thesis using assms unfolding server_inv_def
    by (auto simp: leave_worker_def dest!: set_update_subset_insert [THEN subsetD])
qed

lemma thread_step_ok:
  fixes p :: "('n, app_handler, 'l, 'o) program"
  assumes "platform_ok pf prov patience work" "k < length (sv_threads (pg_server p))"
    and "program_ok (pf_view pf prov) (fst (create_ssl_ctx (pf_ssl pf) key cert) \<noteq> None) p"
  shows "ends (program_ok (pf_view pf prov) (fst (create_ssl_ctx (pf_ssl pf) key cert) \<noteq> None))
    (thread_step pf key cert k p)"
proof -
  let ?sv = "pg_server p" and ?V = "pf_view pf prov" and ?ctx = "fst (create_ssl_ctx (pf_ssl pf) key cert) \<noteq> None"
  let ?w = "enter_worker k ?sv"
  from assms(2,3) have ne: "pg_acceptor p \<noteq> Ended" by (auto simp: program_ok_def Let_def)
  with assms(3) have ok: "server_inv ?sv" "list_all2 (thread_ok ?V ?ctx) (sv_workers ?sv) (sv_threads ?sv)"
    "\<And>i. pg_acceptor p = Joining i \<Longrightarrow> i \<le> length (sv_threads ?sv) \<and> (\<forall>j < i. sv_threads ?sv ! j = Joined)"
    by (simp_all add: program_ok_def Let_def)
  have k: "k < length (sv_workers ?sv)" using ok(2) assms(2) by (simp add: list_all2_lengthD)
  have w: "cq_inv (wk_socket_queue ?w)" "thread_ok ?V ?ctx ?w (sv_threads ?sv ! k)"
    using ok(1,2) k by (auto simp: enter_worker_def server_inv_def worker_queues_def list_all2_conv_all_nth)
  show ?thesis unfolding thread_step_def Let_def
  proof (rule ends_rbind [OF worker_step_ends [OF assms(1) w]], clarify)
    fix t and w' :: "('n, app_handler, 'l, 'o) worker"
    assume r: "cq_inv (wk_socket_queue w')" "sv_threads ?sv ! k = Joined \<longrightarrow> t = Joined" "thread_ok ?V ?ctx w' t"
    have "list_all2 (thread_ok ?V ?ctx) ((sv_workers ?sv)[k := w']) ((sv_threads ?sv)[k := t])"
      using ok(2) r(3) by (rule list_all2_update_cong)
    moreover have "(sv_threads ?sv)[k := t] ! j = Joined" if "sv_threads ?sv ! j = Joined" for j
      using that r(2) assms(2) by (cases "j = k") simp_all
    ultimately show "ends (program_ok ?V ?ctx) (Some (Inr (p\<lparr>pg_server := leave_worker k t w' ?sv\<rparr>)))"
      using ne ok(3) server_inv_leave [OF ok(1) r(1), of k t]
      by (auto simp: program_ok_def leave_worker_def Let_def)
  qed
qed

lemma write_signal_ends:
  assumes "progress sy patience"
  shows "write_signal sy fd os \<noteq> None"
proof (induction "patience os" arbitrary: os rule: less_induct)
  case less
  let ?buf = "CHR 0x01 # replicate 7 (CHR 0x00)"
  obtain r os1 where w: "sys_write sy os fd ?buf = (r, os1)" by fastforce
  have "write_progress (\<lambda>os buf. sys_write sy os fd buf) patience" using assms by (simp add: progress_def)
  then have "patience os1 < patience os" if "r = WriteError EINTR"
    using w that by (auto dest: write_progressD)
  with less [of os1] w show ?case by (subst write_signal.simps) (auto split: io_write.split)
qed

lemma dispatch_program_ok:
  assumes "platform_ok pf prov patience work" "0 \<le> sock" "server_inv sv"
    and "list_all2 (thread_ok V ctx) (sv_workers sv) (sv_threads sv)"
  obtains sv' where "dispatch_socket pf sock sv = Some (Inr sv')" "server_inv sv'"
    "list_all2 (thread_ok V ctx) (sv_workers sv') (sv_threads sv')"
proof -
  have "\<forall>fd os. write_signal (pf_sys pf) fd os \<noteq> None" using write_signal_ends [OF platform_okD(8) [OF assms(1)]] by blast
  from assms(3) this show ?thesis
  proof (cases rule: dispatch_cases [where sock = sock])
    case (refused lb)
    then show ?thesis using assms(3,4) by (intro that [OF refused(1)]) (simp_all add: server_inv_def worker_queues_def)
  next
    case (handed lb i w)
    let ?sv = "sv\<lparr>sv_load_balancer := lb, sv_workers := (sv_workers sv)[i := w], sv_os := wk_os w\<rparr>"
    let ?w = "(sv_workers sv ! i)\<lparr>wk_os := sv_os sv\<rparr>"
    have t: "thread_ok V ctx ?w (sv_threads sv ! i)" using assms(4) handed(3) by (simp add: list_all2_conv_all_nth)
    then have "thread_ok V ctx w (sv_threads sv ! i)"
      using enqueue_worker_ok [OF assms(2) handed(4), of V] by (auto simp: thread_ok_def split: thread.splits)
    from list_all2_update_cong [OF assms(4) this, of i] have
      "list_all2 (thread_ok V ctx) (sv_workers ?sv) (sv_threads ?sv)" by simp
    moreover have "worker_queues ?sv = (worker_queues sv)[i := wk_socket_queue w]"
      by (simp add: worker_queues_def map_update)
    then have "server_inv ?sv" using assms(3) handed(2,5) unfolding server_inv_def
      by (auto dest!: set_update_subset_insert [THEN subsetD])
    ultimately show ?thesis using that handed(1) by blast
  qed
qed

lemma program_okD:
  assumes "program_ok V ctx p" "pg_acceptor p \<noteq> Ended"
  shows "server_inv (pg_server p)"
    "list_all2 (thread_ok V ctx) (sv_workers (pg_server p)) (sv_threads (pg_server p))"
    "pg_acceptor p = Joining i \<Longrightarrow>
       i \<le> length (sv_threads (pg_server p)) \<and> (\<forall>j < i. sv_threads (pg_server p) ! j = Joined)"
  using assms by (simp_all add: program_ok_def Let_def)

lemma server_inv_fields [simp]:
  "server_inv (sv\<lparr>sv_os := os\<rparr>) = server_inv sv" "server_inv (sv\<lparr>sv_threads := ts\<rparr>) = server_inv sv"
  by (simp_all add: server_inv_def worker_queues_def)

lemma accepting_ok:
  assumes "platform_ok pf prov patience work" "accepts_descriptors net" "program_ok V ctx p"
    and "pg_acceptor p = Accepting"
  shows "\<exists>p'. acceptor_step pf net orders p = Some (Inr p') \<and> program_ok V ctx p'"
proof -
  let ?sv = "pg_server p"
  have "pg_acceptor p \<noteq> Ended" using assms(4) by simp
  note ok = program_okD [OF assms(3) this]
  obtain r os1 where a: "net_accept net (sv_os ?sv) (sv_sock ?sv) = (r, os1)" by fastforce
  show ?thesis
  proof (cases r)
    case (AcceptError e)
    with a assms(4) ok(1,2) show ?thesis by (simp add: acceptor_step_def program_ok_def Let_def)
  next
    case (Accepted sock)
    have "0 \<le> sock" using assms(2) a Accepted by (auto simp: accepts_descriptors_def)
    moreover have "server_inv (?sv\<lparr>sv_os := os1\<rparr>)"
      "list_all2 (thread_ok V ctx) (sv_workers (?sv\<lparr>sv_os := os1\<rparr>)) (sv_threads (?sv\<lparr>sv_os := os1\<rparr>))"
      using ok(1,2) by simp_all
    ultimately obtain sv' where "dispatch_socket pf sock (?sv\<lparr>sv_os := os1\<rparr>) = Some (Inr sv')" "server_inv sv'"
      "list_all2 (thread_ok V ctx) (sv_workers sv') (sv_threads sv')" by (metis dispatch_program_ok [OF assms(1)])
    with a Accepted assms(4) show ?thesis by (simp add: acceptor_step_def program_ok_def Let_def)
  qed
qed

lemma joining_ok:
  assumes "program_ok V ctx p" "pg_acceptor p = Joining i"
  shows "\<exists>p'. acceptor_step pf net orders p = Some (Inr p') \<and> program_ok V ctx p'"
proof -
  let ?sv = "pg_server p" and ?ts = "(sv_threads (pg_server p))[i := Joined]"
  have "pg_acceptor p \<noteq> Ended" using assms(2) by simp
  note ok = program_okD [OF assms(1) this]
  note j = ok(3) [OF assms(2)]
  show ?thesis
  proof (cases "i < length (sv_threads ?sv)")
    case True
    have "list_all2 (thread_ok V ctx) ((sv_workers ?sv)[i := sv_workers ?sv ! i]) ?ts"
      by (rule list_all2_update_cong [OF ok(2)]) (simp add: thread_ok_def)
    then have "list_all2 (thread_ok V ctx) (sv_workers ?sv) ?ts" by simp
    moreover have "?ts ! m = Joined" if "m < i + 1" for m using that j True by (cases "m = i") simp_all
    ultimately show ?thesis using assms ok(1) True by (auto simp: acceptor_step_def program_ok_def Let_def)
  next
    case False
    with j have "\<forall>t \<in> set (sv_threads ?sv). t = Joined" by (auto simp: in_set_conv_nth)
    then have "\<exists>r. server_destroy pf (orders (sv_workers ?sv)) ?sv = Inr r" by (auto simp: server_destroy_def Let_def)
    with assms(2) False show ?thesis by (auto simp: acceptor_step_def program_ok_def Let_def split: prod.split)
  qed
qed

lemma acceptor_step_ok:
  assumes "platform_ok pf prov patience work" "accepts_descriptors net" "program_ok V ctx p"
  shows "\<exists>p'. acceptor_step pf net orders p = Some (Inr p') \<and> program_ok V ctx p'"
proof (cases "pg_acceptor p")
  case Waiting
  let ?sv = "pg_server p"
  obtain r os1 where "sys_epoll_wait (pf_sys pf) (sv_os ?sv) (sv_epfd ?sv) = (r, os1)" by fastforce
  with Waiting assms(3) show ?thesis by (cases r) (simp_all add: acceptor_step_def program_ok_def Let_def)
next
  case Accepting
  from accepting_ok [OF assms this] show ?thesis .
next
  case (Joining i)
  from joining_ok [OF assms(3) this] show ?thesis .
next
  case Ended
  with assms(3) show ?thesis by (simp add: acceptor_step_def)
qed

lemma program_reach_ok:
  assumes "program_reach pf net orders key cert p0 p"
    and "platform_ok pf prov patience work" "accepts_descriptors net"
    and "program_ok (pf_view pf prov) (fst (create_ssl_ctx (pf_ssl pf) key cert) \<noteq> None) p0"
  shows "program_ok (pf_view pf prov) (fst (create_ssl_ctx (pf_ssl pf) key cert) \<noteq> None) p"
  using assms(1)
proof induction
  case (main p p')
  then show ?case using acceptor_step_ok [OF assms(2,3), of _ _ p orders] by auto
next
  case (worker p k p')
  then show ?case using thread_step_ok [OF assms(2) worker.hyps(2), of key cert] by simp
qed (fact assms(4))

section \<open>The sockets of the program\<close>

text \<open>The documented effect of \<open>accept4\<close>: a new connection gets a descriptor that is not in use.\<close>

definition accept_laws :: "'o net \<Rightarrow> ('o \<Rightarrow> books) \<Rightarrow> bool" where
  "accept_laws net B \<longleftrightarrow>
     (\<forall>os s r os'. net_accept net os s = (r, os') \<longrightarrow>
        (case r of
           Accepted fd \<Rightarrow> 0 \<le> fd \<and> fd \<notin># fst (B os) - snd (B os) \<and> B os' = (add_mset fd (fst (B os)), snd (B os))
         | AcceptError e \<Rightarrow> B os' = B os))"

text \<open>All sockets that the workers hold, and the books of the program.\<close>

definition all_held :: "('n, 'h, 'l, 'o) worker list \<Rightarrow> int multiset" where
  "all_held ws = sum_list (map held ws)"

definition queue_ok :: "('n, 'h, 'l, 'o) worker \<Rightarrow> bool" where
  "queue_ok w \<longleftrightarrow> cq_inv (wk_socket_queue w) \<and> (\<forall>s \<in> set (cq_list (wk_socket_queue w)). 0 \<le> s)
     \<and> finite (dom (wk_session_map w))"

definition books_ok :: "('o \<Rightarrow> books) \<Rightarrow> ('n, 'h, 'l, 'o) server \<Rightarrow> bool" where
  "books_ok B sv \<longleftrightarrow>
     (\<forall>w \<in> set (sv_workers sv). queue_ok w)
     \<and> fst (B (sv_os sv)) = snd (B (sv_os sv)) + all_held (sv_workers sv) \<and> single (all_held (sv_workers sv))"

lemma all_held_nth:
  "k < length ws \<Longrightarrow> all_held ws = held (ws ! k) + (all_held (take k ws) + all_held (drop (Suc k) ws))"
  unfolding all_held_def by (subst id_take_nth_drop [of k ws]) (simp_all add: ac_simps)

lemma all_held_update:
  "k < length ws \<Longrightarrow> all_held (ws[k := w]) = held w + (all_held (take k ws) + all_held (drop (Suc k) ws))"
  unfolding all_held_def by (simp add: upd_conv_take_nth_drop ac_simps)

text \<open>The books of the program, seen from one worker.\<close>

lemma books_ok_owns:
  assumes "k < length (sv_workers sv)"
  defines "R \<equiv> all_held (take k (sv_workers sv)) + all_held (drop (Suc k) (sv_workers sv))"
  shows "books_ok B sv \<Longrightarrow> owns B R (enter_worker k sv)"
    "books_ok B sv \<Longrightarrow> owns B R w \<Longrightarrow> books_ok B (leave_worker k t w sv)"
proof -
  assume b: "books_ok B sv"
  have h: "held (enter_worker k sv) = held (sv_workers sv ! k)" by (simp add: held_def enter_worker_def)
  have "queue_ok (sv_workers sv ! k)" using b assms(1) by (simp add: books_ok_def)
  then show "owns B R (enter_worker k sv)"
    using b all_held_nth [OF assms(1)] unfolding owns_def h books_ok_def R_def
    by (simp add: queue_ok_def enter_worker_def ac_simps)
  assume o: "owns B R w"
  then have "queue_ok w" by (simp add: owns_def queue_ok_def)
  then have "\<forall>w \<in> set ((sv_workers sv)[k := w]). queue_ok w"
    using b by (auto simp: books_ok_def dest!: set_update_subset_insert [THEN subsetD])
  then show "books_ok B (leave_worker k t w sv)"
    using o all_held_update [OF assms(1), of w] by (simp add: books_ok_def leave_worker_def owns_def R_def ac_simps)
qed

lemma worker_step_owns:
  assumes "socket_laws (pf_sys pf) B" "ssl_reads_bytes (pf_sys pf)" "owns B R w"
  shows "gives (\<lambda>(t', w'). owns B R w') (worker_step pf key cert t w)"
proof (cases t)
  case Created
  obtain ok w1 where s: "startup pf w = (ok, w1)" by fastforce
  from startup_owns [OF assms(1) s assms(3)] have "owns B R w1" .
  then show ?thesis using s Created by (simp add: worker_step_def owns_def held_def)
next
  case Polling
  obtain r os1 where e: "sys_epoll_wait (pf_sys pf) (wk_os w) (wk_epfd w) = (r, os1)" by fastforce
  have "quiet B w (w\<lparr>wk_os := os1\<rparr>)" using call_lawsD(5) [OF socket_lawsD(1) [OF assms(1)] e] by simp
  from owns_quiet [OF this] assms(3) e Polling show ?thesis by (cases r) (simp_all add: worker_step_def)
next
  case (Handling evs)
  show ?thesis
  proof (cases evs)
    case (Cons ev rest)
    show ?thesis unfolding worker_step_def Handling Cons thread.case list.case
      by (rule gives_rbind [OF handle_event_list_owns [OF assms]]) simp
  qed (use assms(3) Handling in \<open>simp add: worker_step_def\<close>)
qed (use assms(3) in \<open>simp_all add: worker_step_def\<close>)

lemma dispatch_books:
  fixes sv :: "('n, 'h, 'l, 'o) server"
  assumes "socket_laws (pf_sys pf) B" "\<forall>fd os. write_signal (pf_sys pf) fd os \<noteq> None" "0 \<le> sock"
    and "server_inv sv" "dispatch_socket pf sock sv = Some (Inr sv')" "\<forall>w \<in> set (sv_workers sv). queue_ok w"
    and "fst (B (sv_os sv)) = add_mset sock (snd (B (sv_os sv)) + all_held (sv_workers sv))"
    and "single (add_mset sock (all_held (sv_workers sv)))"
  shows "books_ok B sv'"
  using assms(4,2)
proof (cases rule: dispatch_cases [where sock = sock])
  case (refused lb)
  with assms(5-8) show ?thesis by (auto simp: books_ok_def call_lawsD(1) [OF socket_lawsD(1) [OF assms(1)]] closes_def single_add)
next
  case (handed lb i w)
  let ?R = "all_held (take i (sv_workers sv)) + all_held (drop (Suc i) (sv_workers sv))"
  let ?w = "(sv_workers sv ! i)\<lparr>wk_os := sv_os sv\<rparr>"
  have "held ?w = held (sv_workers sv ! i)" "queue_ok (sv_workers sv ! i)"
    using assms(6) handed(3) by (simp_all add: held_def)
  then have "owns B (add_mset sock ?R) ?w"
    using assms(7,8) all_held_nth [OF handed(3)] by (simp add: owns_def queue_ok_def ac_simps)
  from enqueue_owns [OF assms(1) this assms(3) handed(4)] have o: "owns B ?R w" .
  then have "queue_ok w" by (simp add: owns_def queue_ok_def)
  then have "\<forall>w \<in> set ((sv_workers sv)[i := w]). queue_ok w"
    using assms(6) by (auto dest!: set_update_subset_insert [THEN subsetD])
  moreover have "sv' = sv\<lparr>sv_load_balancer := lb, sv_workers := (sv_workers sv)[i := w], sv_os := wk_os w\<rparr>"
    using assms(5) handed(1) by simp
  ultimately show ?thesis using o all_held_update [OF handed(3), of w] by (simp add: books_ok_def owns_def ac_simps)
qed

lemma accepting_books:
  assumes "platform_ok pf prov patience work" "socket_laws (pf_sys pf) B" "accept_laws net B"
    and "server_inv (pg_server p)" "books_ok B (pg_server p)" "pg_acceptor p = Accepting"
    and "acceptor_step pf net orders p = Some (Inr p')"
  shows "books_ok B (pg_server p')"
proof -
  let ?sv = "pg_server p"
  obtain r os1 where a: "net_accept net (sv_os ?sv) (sv_sock ?sv) = (r, os1)" by fastforce
  then have l: "case r of
       Accepted fd \<Rightarrow> 0 \<le> fd \<and> fd \<notin># fst (B (sv_os ?sv)) - snd (B (sv_os ?sv))
         \<and> B os1 = (add_mset fd (fst (B (sv_os ?sv))), snd (B (sv_os ?sv)))
     | AcceptError e \<Rightarrow> B os1 = B (sv_os ?sv)"
    using assms(3) unfolding accept_laws_def by blast
  show ?thesis
  proof (cases r)
    case (AcceptError e)
    with l assms(5-7) a show ?thesis by (auto simp: acceptor_step_def books_ok_def)
  next
    case (Accepted sock)
    from assms(6,7) a Accepted obtain sv' where
      d: "dispatch_socket pf sock (?sv\<lparr>sv_os := os1\<rparr>) = Some (Inr sv')" and p': "pg_server p' = sv'"
      by (auto simp: acceptor_step_def rbind_def split: option.splits sum.splits)
    have wr: "\<forall>fd os. write_signal (pf_sys pf) fd os \<noteq> None"
      using write_signal_ends [OF platform_okD(8) [OF assms(1)]] by blast
    have "books_ok B sv'"
      by (rule dispatch_books [OF assms(2) wr _ _ d])
        (use l Accepted assms(4,5) in \<open>simp_all add: books_ok_def single_add\<close>)
    with p' show ?thesis by simp
  qed
qed

lemma acceptor_step_books:
  assumes "platform_ok pf prov patience work" "socket_laws (pf_sys pf) B" "accept_laws net B" "program_ok V ctx p"
    and "pg_acceptor p \<noteq> Ended \<Longrightarrow> books_ok B (pg_server p)"
    and "acceptor_step pf net orders p = Some (Inr p')" "pg_acceptor p' \<noteq> Ended"
  shows "books_ok B (pg_server p')"
proof -
  let ?sv = "pg_server p"
  have ne: "pg_acceptor p \<noteq> Ended" using assms(6,7) by (auto simp: acceptor_step_def)
  note b = assms(5) [OF ne]
  show ?thesis
  proof (cases "pg_acceptor p")
    case Waiting
    obtain r os1 where e: "sys_epoll_wait (pf_sys pf) (sv_os ?sv) (sv_epfd ?sv) = (r, os1)" by fastforce
    from b call_lawsD(5) [OF socket_lawsD(1) [OF assms(2)] e] e Waiting assms(6) show ?thesis
      by (cases r) (auto simp: acceptor_step_def books_ok_def)
  next
    case Accepting
    from accepting_books [OF assms(1-3) program_okD(1) [OF assms(4) ne] b this assms(6)] show ?thesis .
  next
    case (Joining i)
    with assms(6,7) b show ?thesis
      by (auto simp: acceptor_step_def books_ok_def rbind_def Let_def split: if_splits option.splits sum.splits)
  qed (use ne in simp)
qed

lemma program_reach_books:
  fixes p :: "('n, app_handler, 'l, 'o) program"
  assumes "program_reach pf net orders key cert p0 p"
    and "platform_ok pf prov patience work" "socket_laws (pf_sys pf) B" "accept_laws net B"
    and "program_ok (pf_view pf prov) (fst (create_ssl_ctx (pf_ssl pf) key cert) \<noteq> None) p0"
    and "pg_acceptor p0 \<noteq> Ended \<longrightarrow> books_ok B (pg_server p0)"
  shows "pg_acceptor p \<noteq> Ended \<longrightarrow> books_ok B (pg_server p)"
  using assms(1)
proof induction
  case (main p p')
  have "accepts_descriptors net" using assms(4) by (fastforce simp: accepts_descriptors_def accept_laws_def)
  note ok = program_reach_ok [OF main.hyps(1) assms(2) this assms(5)]
  from acceptor_step_books [OF assms(2,3,4) ok _ main.hyps(2)] main.IH show ?case by blast
next
  case (worker p k p')
  have "accepts_descriptors net" using assms(4) by (fastforce simp: accepts_descriptors_def accept_laws_def)
  note ok = program_reach_ok [OF worker.hyps(1) assms(2) this assms(5)]
  let ?sv = "pg_server p"
  have "pg_acceptor p \<noteq> Ended" using ok worker.hyps(2) by (auto simp: program_ok_def Let_def)
  moreover from this ok have k: "k < length (sv_workers ?sv)"
    using worker.hyps(2) by (auto simp: program_ok_def Let_def dest: list_all2_lengthD)
  ultimately have b: "books_ok B ?sv" using worker.IH by blast
  let ?R = "all_held (take k (sv_workers ?sv)) + all_held (drop (Suc k) (sv_workers ?sv))"
  have "gives (\<lambda>(t', w'). owns B ?R w') (worker_step pf key cert (sv_threads ?sv ! k) (enter_worker k ?sv))"
    by (rule worker_step_owns [OF assms(3) platform_okD(10) [OF assms(2)] books_ok_owns(1) [OF k b]])
  then have "gives (\<lambda>p'. books_ok B (pg_server p')) (thread_step pf key cert k p)"
    unfolding thread_step_def Let_def
    by (rule gives_rbind) (use books_ok_owns(2) [OF k b] in auto)
  with worker.hyps(3) show ?case by simp
qed (fact assms(6))

section \<open>The start of the program\<close>

lemma opened_server:
  fixes sv0 :: "('n, app_handler, 'l, 'o) server"
  assumes "configured_server fs os = Inr sv0"
    and "open_server pf net num tls prt key cert sv0 = Inr (Finished (True, sv))"
  shows "server_inv sv" "sv_threads sv = replicate (unat num) Created"
    "\<forall>w \<in> set (sv_workers sv). \<exists>os. w = worker_new (Some app_routes) tls fs os" "length (sv_workers sv) = unat num"
proof -
  obtain lb where c: "lb_new 1 1024 = Inr lb"
    "(configured_server fs os :: ('n, app_handler, 'l, 'o) server outcome) = Inr (fresh_server lb fs os)"
    by (rule configured_server_eq)
  then have sv0: "sv0 = fresh_server lb fs os" using assms(1) by simp
  from assms(2) obtain sv1 where s: "server_startup pf net prt sv0 = Finished sv1" "is_runnable net tls key cert = Inr True"
    by (auto simp: open_server_def obind_eq_Inr split: if_splits ended.splits)
  have "num \<noteq> 0"
  proof
    assume "num = 0"
    moreover have "sv_load_balancer sv1 = lb" using startup_keeps(4) [OF s(1)] by (simp add: sv0 fresh_server_def)
    ultimately show False using assms(2) s reset_zero_workers [OF c(1)] by (simp add: open_server_def)
  qed
  from open_server_serving [OF this c(1) s(2) s(1) [unfolded sv0]] assms(2)
  show "server_inv sv" "sv_threads sv = replicate (unat num) Created"
    "\<forall>w \<in> set (sv_workers sv). \<exists>os. w = worker_new (Some app_routes) tls fs os" "length (sv_workers sv) = unat num"
    unfolding sv0 by auto
qed

lemma opened_program_ok:
  assumes "configured_server fs os = Inr sv0"
    and "open_server pf net num tls prt key cert sv0 = Inr (Finished (True, sv))" "tls \<longrightarrow> ctx"
  shows "program_ok V ctx \<lparr>pg_acceptor = Waiting, pg_server = sv\<rparr>"
proof -
  note o = opened_server [OF assms(1,2)]
  have "thread_ok V ctx w Created" if w: "w \<in> set (sv_workers sv)" for w
  proof -
    from o(3) w obtain os where w': "w = worker_new (Some app_routes) tls fs os" by blast
    have "idle_ok V w" unfolding w' by (rule worker_new_idle)
    moreover have "wk_use_tls w = tls" unfolding w' by (simp add: worker_new_eq)
    ultimately show ?thesis using assms(3) by (simp add: thread_ok_def)
  qed
  with o(1,2,4) show ?thesis by (simp add: program_ok_def list_all2_conv_all_nth)
qed

lemma opened_books_ok:
  assumes "configured_server fs os = Inr sv0"
    and "open_server pf net num tls prt key cert sv0 = Inr (Finished (True, sv))"
    and "fst (B (sv_os sv)) = snd (B (sv_os sv))"
  shows "books_ok B sv"
proof -
  note o = opened_server [OF assms(1,2)]
  have w: "queue_ok w \<and> held w = {#}" if "w \<in> set (sv_workers sv)" for w
  proof -
    from o(3) that obtain os where "w = worker_new (Some app_routes) tls fs os" by blast
    then show ?thesis using worker_new_queue [of "Some app_routes" tls fs os]
      by (simp add: queue_ok_def held_def) (simp add: worker_new_eq)
  qed
  then have "map held (sv_workers sv) = map (\<lambda>_. {#}) (sv_workers sv)" by simp
  then have "all_held (sv_workers sv) = {#}" unfolding all_held_def by (simp only: sum_list_0)
  with w assms(3) show ?thesis by (simp add: books_ok_def single_def)
qed

section \<open>The steps are those of the loops\<close>

lemma rbind_assoc [simp]: "rbind (rbind m f) g = rbind m (\<lambda>x. rbind (f x) g)"
  by (auto simp: rbind_def split: option.split sum.split)

lemma rbind_return [simp]: "rbind m (\<lambda>x. Some (Inr x)) = m"
  by (auto simp: rbind_def split: option.split sum.split)

lemma rbind_Inr: "rbind m f = Some (Inr y) \<longleftrightarrow> (\<exists>x. m = Some (Inr x) \<and> f x = Some (Inr y))"
  by (auto simp: rbind_def split: option.split sum.split)

lemma event_loop_eq:
  "event_loop pf w =
     (case sys_epoll_wait (pf_sys pf) (wk_os w) (wk_epfd w) of
        (Inl e, os1) \<Rightarrow>
          if e = EINTR then event_loop pf (w\<lparr>wk_os := os1\<rparr>) else Some (Inr (w\<lparr>wk_os := os1\<rparr>))
      | (Inr evs, os1) \<Rightarrow> rbind (handle_event_list pf evs (w\<lparr>wk_os := os1\<rparr>)) (event_loop pf))"
  by (subst event_loop.simps) (auto simp: rbind_def split: option.split sum.split prod.split)

lemma accept_loop_eq:
  "accept_loop pf net sv =
     (case sys_epoll_wait (pf_sys pf) (sv_os sv) (sv_epfd sv) of
        (Inl e, os1) \<Rightarrow>
          if e = EINTR then accept_loop pf net (sv\<lparr>sv_os := os1\<rparr>) else Some (Inr (sv\<lparr>sv_os := os1\<rparr>))
      | (Inr evs, os1) \<Rightarrow>
          if evs = [] then accept_loop pf net (sv\<lparr>sv_os := os1\<rparr>)
          else rbind (handle_accept pf net (sv\<lparr>sv_os := os1\<rparr>)) (accept_loop pf net))"
  by (subst accept_loop.simps) (auto simp: rbind_def split: option.split sum.split prod.split)

lemma handle_accept_eq:
  "handle_accept pf net sv =
     (case net_accept net (sv_os sv) (sv_sock sv) of
        (AcceptError e, os1) \<Rightarrow>
          if e = EINTR then handle_accept pf net (sv\<lparr>sv_os := os1\<rparr>) else Some (Inr (sv\<lparr>sv_os := os1\<rparr>))
      | (Accepted sock, os1) \<Rightarrow> rbind (dispatch_socket pf sock (sv\<lparr>sv_os := os1\<rparr>)) (handle_accept pf net))"
  by (subst handle_accept.simps) (auto simp: rbind_def split: option.split sum.split prod.split accept_result.split)

text \<open>What is left to compute for a thread.\<close>

definition thread_rest ::
    "('n, 'h, 'l, 'o) platform \<Rightarrow> string \<Rightarrow> string \<Rightarrow> thread \<Rightarrow> ('n, 'h, 'l, 'o) worker \<Rightarrow> ('n, 'h, 'l, 'o) worker run" where
  "thread_rest pf key cert t w =
     (case t of
        Created \<Rightarrow> worker_run pf key cert w
      | Polling \<Rightarrow> event_loop pf w
      | Handling evs \<Rightarrow> rbind (handle_event_list pf evs w) (event_loop pf)
      | Returned \<Rightarrow> Some (Inr w)
      | Joined \<Rightarrow> Some (Inr w))"

definition acceptor_rest ::
    "('n, 'h, 'l, 'o) platform \<Rightarrow> 'o net \<Rightarrow> acceptor \<Rightarrow> ('n, 'h, 'l, 'o) server \<Rightarrow> ('n, 'h, 'l, 'o) server run" where
  "acceptor_rest pf net a sv =
     (case a of
        Waiting \<Rightarrow> accept_loop pf net sv
      | Accepting \<Rightarrow> rbind (handle_accept pf net sv) (accept_loop pf net)
      | _ \<Rightarrow> Some (Inr sv))"

lemma handle_event_list_Cons:
  "handle_event_list pf (ev # evs) w = rbind (handle_event_list pf [ev] w) (handle_event_list pf evs)"
  by (cases ev) simp

lemma worker_step_rest:
  "rbind (worker_step pf key cert t w) (\<lambda>(t', w'). thread_rest pf key cert t' w') = thread_rest pf key cert t w"
proof (cases t)
  case (Handling evs)
  show ?thesis
  proof (cases evs)
    case (Cons ev rest)
    then show ?thesis
      by (simp add: Handling worker_step_def thread_rest_def handle_event_list_Cons [of pf ev rest]
          del: handle_event_list.simps)
  qed (simp add: Handling worker_step_def thread_rest_def)
qed (auto simp: worker_step_def thread_rest_def worker_run_def event_loop_eq [of pf w] Let_def
    split: prod.split sum.split)

lemma acceptor_step_rest:
  assumes "a = Waiting \<or> a = Accepting"
  shows "rbind (acceptor_step pf net orders \<lparr>pg_acceptor = a, pg_server = sv\<rparr>)
      (\<lambda>p. acceptor_rest pf net (pg_acceptor p) (pg_server p)) = acceptor_rest pf net a sv"
  using assms
proof
  assume "a = Waiting"
  then show ?thesis
    by (auto simp: acceptor_step_def acceptor_rest_def accept_loop_eq [of pf net sv] Let_def split: prod.split sum.split)
next
  assume "a = Accepting"
  then show ?thesis
    by (auto simp: acceptor_step_def acceptor_rest_def handle_accept_eq [of pf net sv] Let_def
        split: prod.split accept_result.split)
qed

text \<open>Running one thread alone.\<close>

abbreviation worker_alone ::
    "('n, 'h, 'l, 'o) platform \<Rightarrow> string \<Rightarrow> string \<Rightarrow> thread \<times> ('n, 'h, 'l, 'o) worker
      \<Rightarrow> thread \<times> ('n, 'h, 'l, 'o) worker \<Rightarrow> bool" where
  "worker_alone pf key cert \<equiv> (\<lambda>(t, w) x. worker_step pf key cert t w = Some (Inr x))\<^sup>*\<^sup>*"

abbreviation acceptor_alone ::
    "('n, 'h, 'l, 'o) platform \<Rightarrow> 'o net \<Rightarrow> (('n, 'h, 'l, 'o) worker list \<Rightarrow> int list list)
      \<Rightarrow> ('n, 'h, 'l, 'o) program \<Rightarrow> ('n, 'h, 'l, 'o) program \<Rightarrow> bool" where
  "acceptor_alone pf net orders \<equiv> (\<lambda>p p'. acceptor_step pf net orders p = Some (Inr p'))\<^sup>*\<^sup>*"

lemma worker_alone_rest:
  "worker_alone pf key cert x y \<Longrightarrow> thread_rest pf key cert (fst x) (snd x) = thread_rest pf key cert (fst y) (snd y)"
proof (induction rule: rtranclp_induct)
  case (step y z)
  then show ?case using worker_step_rest [of pf key cert "fst y" "snd y"] by (simp add: case_prod_beta)
qed simp

lemma worker_alone_step:
  "worker_step pf key cert t w = Some (Inr x) \<Longrightarrow> worker_alone pf key cert x y \<Longrightarrow> worker_alone pf key cert (t, w) y"
  by (rule converse_rtranclp_into_rtranclp) simp_all

lemma events_alone:
  "handle_event_list pf evs w = Some (Inr w') \<Longrightarrow> worker_alone pf key cert (Polling, w') y \<Longrightarrow>
   worker_alone pf key cert (Handling evs, w) y"
proof (induction evs arbitrary: w)
  case Nil
  then show ?case by (intro worker_alone_step [OF _ Nil.prems(2)]) (simp add: worker_step_def)
next
  case (Cons ev evs)
  from Cons.prems(1) obtain w1 where w1: "handle_event_list pf [ev] w = Some (Inr w1)"
    "handle_event_list pf evs w1 = Some (Inr w')" unfolding handle_event_list_Cons [of pf ev evs] by (auto simp only: rbind_Inr)
  show ?case
    by (rule worker_alone_step [OF _ Cons.IH [OF w1(2) Cons.prems(2)]]) (use w1(1) in \<open>simp add: worker_step_def\<close>)
qed

lemmas event_loop_induct = event_loop.raw_induct [rotated, consumes 1, case_names step]
lemmas accept_loop_induct = accept_loop.raw_induct [rotated, consumes 1, case_names step]
lemmas handle_accept_induct = handle_accept.raw_induct [rotated, consumes 1, case_names step]

lemma event_loop_alone:
  "event_loop pf w = Some res \<Longrightarrow> (\<forall>w'. res = Inr w' \<longrightarrow> worker_alone pf key cert (Polling, w) (Returned, w'))"
proof (induction rule: event_loop_induct)
  case (step f pf w res)
  obtain r os1 where e: "sys_epoll_wait (pf_sys pf) (wk_os w) (wk_epfd w) = (r, os1)" by fastforce
  show ?case
  proof (intro allI impI)
    fix w' assume res: "res = Inr w'"
    show "worker_alone pf key cert (Polling, w) (Returned, w')"
    proof (cases r)
      case (Inl err)
      have "worker_alone pf key cert (if err = EINTR then Polling else Returned, w\<lparr>wk_os := os1\<rparr>) (Returned, w')"
        using step.hyps step.IH [of pf "w\<lparr>wk_os := os1\<rparr>" res] e Inl res by (auto split: if_splits)
      then show ?thesis by (rule worker_alone_step [rotated]) (simp add: worker_step_def e Inl)
    next
      case (Inr evs)
      with step.hyps e res obtain w1 where
        w1: "handle_event_list pf evs (w\<lparr>wk_os := os1\<rparr>) = Some (Inr w1)" "f pf w1 = Some res"
        by (auto split: option.splits sum.splits)
      have "worker_alone pf key cert (Handling evs, w\<lparr>wk_os := os1\<rparr>) (Returned, w')"
        by (rule events_alone [OF w1(1)]) (use step.IH [OF w1(2)] res in blast)
      then show ?thesis by (rule worker_alone_step [rotated]) (simp add: worker_step_def e Inr)
    qed
  qed
qed

lemma worker_run_alone:
  "worker_run pf key cert w = Some (Inr w') \<longleftrightarrow> worker_alone pf key cert (Created, w) (Returned, w')"
proof
  assume r: "worker_run pf key cert w = Some (Inr w')"
  obtain ok w1 where s: "startup pf w = (ok, w1)" by fastforce
  let ?w = "if wk_use_tls w1 then w1\<lparr>wk_ssl_ctx := fst (create_ssl_ctx (pf_ssl pf) key cert)\<rparr> else w1"
  have "worker_alone pf key cert (if ok then (Polling, ?w) else (Returned, w1)) (Returned, w')"
    using r s event_loop_alone [of pf ?w _ key cert] by (auto simp: worker_run_def split: if_splits)
  then show "worker_alone pf key cert (Created, w) (Returned, w')"
    by (rule worker_alone_step [rotated]) (simp add: worker_step_def s)
next
  assume "worker_alone pf key cert (Created, w) (Returned, w')"
  from worker_alone_rest [OF this] show "worker_run pf key cert w = Some (Inr w')" by (simp add: thread_rest_def)
qed

lemma acceptor_alone_step:
  "acceptor_step pf net orders p = Some (Inr p1) \<Longrightarrow> acceptor_alone pf net orders p1 p2 \<Longrightarrow>
   acceptor_alone pf net orders p p2"
  by (rule converse_rtranclp_into_rtranclp)

lemma handle_accept_alone:
  "handle_accept pf net sv = Some res \<Longrightarrow>
   (\<forall>sv' p. res = Inr sv' \<longrightarrow> acceptor_alone pf net orders \<lparr>pg_acceptor = Waiting, pg_server = sv'\<rparr> p \<longrightarrow>
      acceptor_alone pf net orders \<lparr>pg_acceptor = Accepting, pg_server = sv\<rparr> p)"
proof (induction rule: handle_accept_induct)
  case (step f pf net sv res)
  obtain r os1 where a: "net_accept net (sv_os sv) (sv_sock sv) = (r, os1)" by fastforce
  show ?case
  proof (intro allI impI)
    fix sv' p assume h: "res = Inr sv'" "acceptor_alone pf net orders \<lparr>pg_acceptor = Waiting, pg_server = sv'\<rparr> p"
    have IH: "acceptor_alone pf net orders \<lparr>pg_acceptor = Accepting, pg_server = sv1\<rparr> p" if "f pf net sv1 = Some res" for sv1
      using step.IH [OF that] h by blast
    show "acceptor_alone pf net orders \<lparr>pg_acceptor = Accepting, pg_server = sv\<rparr> p"
    proof (cases r)
      case (AcceptError e)
      have "acceptor_alone pf net orders
          \<lparr>pg_acceptor = (if e = EINTR then Accepting else Waiting), pg_server = sv\<lparr>sv_os := os1\<rparr>\<rparr> p"
        using step.hyps IH a AcceptError h by (auto split: if_splits)
      then show ?thesis by (rule acceptor_alone_step [rotated]) (simp add: acceptor_step_def a AcceptError)
    next
      case (Accepted sock)
      with step.hyps a h obtain sv1 where d: "dispatch_socket pf sock (sv\<lparr>sv_os := os1\<rparr>) = Some (Inr sv1)"
        "f pf net sv1 = Some res" by (auto split: option.splits sum.splits)
      show ?thesis by (rule acceptor_alone_step [OF _ IH [OF d(2)]]) (simp add: acceptor_step_def a Accepted d(1))
    qed
  qed
qed

lemma accept_loop_alone:
  "accept_loop pf net sv = Some res \<Longrightarrow>
   (\<forall>sv'. res = Inr sv' \<longrightarrow>
      acceptor_alone pf net orders \<lparr>pg_acceptor = Waiting, pg_server = sv\<rparr> \<lparr>pg_acceptor = Joining 0, pg_server = sv'\<rparr>)"
proof (induction rule: accept_loop_induct)
  case (step f pf net sv res)
  obtain r os1 where e: "sys_epoll_wait (pf_sys pf) (sv_os sv) (sv_epfd sv) = (r, os1)" by fastforce
  let ?sv1 = "sv\<lparr>sv_os := os1\<rparr>"
  show ?case
  proof (intro allI impI)
    fix sv' assume res: "res = Inr sv'"
    let ?joined = "\<lparr>pg_acceptor = Joining 0, pg_server = sv'\<rparr>"
    have IH: "acceptor_alone pf net orders \<lparr>pg_acceptor = Waiting, pg_server = sv1\<rparr> ?joined" if "f pf net sv1 = Some res" for sv1
      using step.IH [OF that] res by blast
    show "acceptor_alone pf net orders \<lparr>pg_acceptor = Waiting, pg_server = sv\<rparr> ?joined"
    proof (cases r)
      case (Inl err)
      have "acceptor_alone pf net orders \<lparr>pg_acceptor = (if err = EINTR then Waiting else Joining 0), pg_server = ?sv1\<rparr> ?joined"
        using step.hyps IH e Inl res by (auto split: if_splits)
      then show ?thesis by (rule acceptor_alone_step [rotated]) (simp add: acceptor_step_def e Inl)
    next
      case (Inr evs)
      have "acceptor_alone pf net orders \<lparr>pg_acceptor = (if evs = [] then Waiting else Accepting), pg_server = ?sv1\<rparr> ?joined"
      proof (cases "evs = []")
        case True
        then show ?thesis using step.hyps IH e Inr by simp
      next
        case False
        with step.hyps e Inr res obtain sv1 where d: "handle_accept pf net ?sv1 = Some (Inr sv1)" "f pf net sv1 = Some res"
          by (auto split: option.splits sum.splits)
        from handle_accept_alone [OF d(1)] IH [OF d(2)] False show ?thesis by simp
      qed
      then show ?thesis by (rule acceptor_alone_step [rotated]) (simp add: acceptor_step_def e Inr)
    qed
  qed
qed

text \<open>Before the main thread joins, its steps do not change what its loop computes.\<close>

lemma acceptor_alone_rest:
  "acceptor_alone pf net orders p p' \<Longrightarrow> pg_acceptor p' = Joining 0 \<Longrightarrow>
   pg_acceptor p \<in> {Waiting, Accepting, Joining 0}
   \<and> acceptor_rest pf net (pg_acceptor p) (pg_server p) = acceptor_rest pf net (pg_acceptor p') (pg_server p')"
proof (induction rule: converse_rtranclp_induct)
  case (step p p1)
  obtain a sv where p: "p = \<lparr>pg_acceptor = a, pg_server = sv\<rparr>" by (cases p) auto
  show ?case
  proof (cases "a = Waiting \<or> a = Accepting")
    case True
    from acceptor_step_rest [OF this, of pf net orders sv] step True show ?thesis by (auto simp: p)
  next
    case False
    then have "p1 = p \<or> pg_acceptor p1 \<notin> {Waiting, Accepting, Joining 0}"
      using step.hyps(1) by (cases a) (auto simp: p acceptor_step_def rbind_Inr split: if_splits)
    with step show ?thesis by auto
  qed
qed simp

lemma accept_loop_iff:
  "accept_loop pf net sv = Some (Inr sv') \<longleftrightarrow>
   acceptor_alone pf net orders \<lparr>pg_acceptor = Waiting, pg_server = sv\<rparr> \<lparr>pg_acceptor = Joining 0, pg_server = sv'\<rparr>"
proof
  assume "accept_loop pf net sv = Some (Inr sv')"
  from accept_loop_alone [OF this, of orders] show
    "acceptor_alone pf net orders \<lparr>pg_acceptor = Waiting, pg_server = sv\<rparr> \<lparr>pg_acceptor = Joining 0, pg_server = sv'\<rparr>" by blast
next
  assume "acceptor_alone pf net orders \<lparr>pg_acceptor = Waiting, pg_server = sv\<rparr> \<lparr>pg_acceptor = Joining 0, pg_server = sv'\<rparr>"
  from acceptor_alone_rest [OF this] show "accept_loop pf net sv = Some (Inr sv')" by (simp add: acceptor_rest_def)
qed

section \<open>Shutting down\<close>

lemma worker_destroy_books:
  assumes "socket_laws (pf_sys pf) B"
  shows "B (wk_os (worker_destroy pf order w)) =
    (fst (B (wk_os w)), snd (B (wk_os w)) + mset (filter (\<lambda>fd. 0 < fd) [wk_epfd w, wk_signal_fd w]))"
  by (simp add: worker_destroy_def Let_def call_lawsD(1) [OF socket_lawsD(1) [OF assms]] closes_def)

lemma destroy_workers_books:
  assumes "socket_laws (pf_sys pf) B"
  shows "B (snd (destroy_workers pf orders ws fs os)) =
    (fst (B os), snd (B os) + mset (filter (\<lambda>fd. 0 < fd) (concat (map (\<lambda>w. [wk_epfd w, wk_signal_fd w]) ws))))"
proof (induction ws arbitrary: orders fs os)
  case (Cons w ws)
  then show ?case
    using worker_destroy_books [OF assms, of _ "w\<lparr>wk_fs := fs, wk_os := os\<rparr>"]
    by (simp add: Let_def ac_simps)
qed simp

text \<open>The descriptors that the destructors of the server and of its workers close.\<close>

definition own_descriptors :: "('n, 'h, 'l, 'o) server \<Rightarrow> int list" where
  "own_descriptors sv =
     filter (\<lambda>fd. 0 < fd) (sv_sock sv # sv_epfd sv # concat (map (\<lambda>w. [wk_epfd w, wk_signal_fd w]) (sv_workers sv)))"

lemma server_destroy_books:
  assumes "socket_laws (pf_sys pf) B" "server_destroy pf orders sv = Inr (fs', os')"
  shows "B os' = (fst (B (sv_os sv)), snd (B (sv_os sv)) + mset (own_descriptors sv))"
proof -
  let ?os1 = "if 0 < sv_sock sv then sys_close (pf_sys pf) (sv_os sv) (sv_sock sv) else sv_os sv"
  let ?os2 = "if 0 < sv_epfd sv then sys_close (pf_sys pf) ?os1 (sv_epfd sv) else ?os1"
  have "(fs', os') = destroy_workers pf orders (sv_workers sv) (sv_fs sv) ?os2"
    using assms(2) by (simp add: server_destroy_def Let_def split: if_splits)
  then have "os' = snd (destroy_workers pf orders (sv_workers sv) (sv_fs sv) ?os2)" by (metis snd_conv)
  with destroy_workers_books [OF assms(1), of orders "sv_workers sv" "sv_fs sv" ?os2] show ?thesis
    by (simp add: own_descriptors_def call_lawsD(1) [OF socket_lawsD(1) [OF assms(1)]] closes_def ac_simps)
qed

lemma join_alone:
  assumes "i \<le> length (sv_threads sv)" "\<forall>j < i. sv_threads sv ! j = Joined"
    and "\<forall>j < length (sv_threads sv). i \<le> j \<longrightarrow> sv_threads sv ! j = Returned"
  shows "acceptor_alone pf net orders \<lparr>pg_acceptor = Joining i, pg_server = sv\<rparr>
    \<lparr>pg_acceptor = Joining (length (sv_threads sv)),
     pg_server = sv\<lparr>sv_threads := replicate (length (sv_threads sv)) Joined\<rparr>\<rparr>"
  using assms
proof (induction "length (sv_threads sv) - i" arbitrary: i sv)
  case 0
  then have "sv_threads sv = replicate (length (sv_threads sv)) Joined" by (auto intro: nth_equalityI)
  then have "sv\<lparr>sv_threads := replicate (length (sv_threads sv)) Joined\<rparr> = sv" by (metis server.surjective server.update_convs(4))
  with 0 show ?case by simp
next
  case (Suc n)
  let ?sv = "sv\<lparr>sv_threads := (sv_threads sv)[i := Joined]\<rparr>"
  have i: "i < length (sv_threads sv)" using Suc.hyps(2) by linarith
  have "n = length (sv_threads ?sv) - (i + 1)" "i + 1 \<le> length (sv_threads ?sv)" using Suc.hyps(2) by simp_all
  moreover have "\<forall>j < i + 1. sv_threads ?sv ! j = Joined"
    using Suc.prems Suc.hyps(2) by (auto simp: less_Suc_eq)
  moreover have "\<forall>j < length (sv_threads ?sv). i + 1 \<le> j \<longrightarrow> sv_threads ?sv ! j = Returned" using Suc.prems(3) by auto
  ultimately have "acceptor_alone pf net orders \<lparr>pg_acceptor = Joining (i + 1), pg_server = ?sv\<rparr>
    \<lparr>pg_acceptor = Joining (length (sv_threads ?sv)),
     pg_server = ?sv\<lparr>sv_threads := replicate (length (sv_threads ?sv)) Joined\<rparr>\<rparr>"
    by (rule Suc.hyps(1))
  moreover have "acceptor_step pf net orders \<lparr>pg_acceptor = Joining i, pg_server = sv\<rparr> =
      Some (Inr \<lparr>pg_acceptor = Joining (i + 1), pg_server = ?sv\<rparr>)"
    using i Suc.prems(3) by (simp add: acceptor_step_def)
  ultimately show ?case by (simp add: acceptor_alone_step)
qed

lemma destroy_alone:
  assumes "\<forall>t \<in> set (sv_threads sv). t = Joined"
  obtains fs os where "server_destroy pf (orders (sv_workers sv)) sv = Inr (fs, os)"
    "acceptor_step pf net orders \<lparr>pg_acceptor = Joining (length (sv_threads sv)), pg_server = sv\<rparr> =
       Some (Inr \<lparr>pg_acceptor = Ended,
         pg_server = sv\<lparr>sv_workers := [], sv_threads := [], sv_fs := fs, sv_os := os\<rparr>\<rparr>)"
  using assms that by (fastforce simp: acceptor_step_def server_destroy_def Let_def split: prod.splits)

section \<open>Properties\<close>

text \<open>
  A program that has started as \<open>main\<close> starts it: the options are read, the routes installed, the
  listening socket is open and the workers are created.
\<close>

definition program_run ::
    "('n, app_handler, 'l, 'o) platform \<Rightarrow> 'o net \<Rightarrow> (('n, app_handler, 'l, 'o) worker list \<Rightarrow> int list list)
      \<Rightarrow> config_option \<Rightarrow> file_system \<Rightarrow> 'o \<Rightarrow> ('n, app_handler, 'l, 'o) server
      \<Rightarrow> ('n, app_handler, 'l, 'o) program \<Rightarrow> bool" where
  "program_run pf net orders cfg fs os sv p \<longleftrightarrow>
     obind (configured_server fs os)
       (open_server pf net (num_threads cfg) (use_tls cfg \<noteq> 0) (port cfg) (key_path cfg) (cert_path cfg)) =
       Inr (Finished (True, sv))
     \<and> program_reach pf net orders (key_path cfg) (cert_path cfg) \<lparr>pg_acceptor = Waiting, pg_server = sv\<rparr> p"

lemma program_run_ok:
  assumes "program_run pf net orders cfg fs os sv p" "platform_ok pf prov patience work" "accepts_descriptors net"
    and "use_tls cfg \<noteq> 0 \<longrightarrow> fst (create_ssl_ctx (pf_ssl pf) (key_path cfg) (cert_path cfg)) \<noteq> None"
  shows "program_ok (pf_view pf prov) (fst (create_ssl_ctx (pf_ssl pf) (key_path cfg) (cert_path cfg)) \<noteq> None) p"
  using assms(1) unfolding program_run_def obind_eq_Inr
  by (elim conjE exE) (rule program_reach_ok [OF _ assms(2,3) opened_program_ok [OF _ _ assms(4)]])

text \<open>
  A platform for the witnesses. Its state is the number of connections accepted so far, which get
  the descriptors 10, 11, ..., and the descriptors closed; waiting fails after the first connection.
\<close>

definition prog_books :: "nat \<times> int list \<Rightarrow> books" where
  "prog_books = (\<lambda>(n, c). (mset (map (\<lambda>i. 10 + int i) [0..<n]), mset c))"

definition prog_sys :: "(unit, nat \<times> int list) sys" where
  "prog_sys = \<lparr>
     sys_read = (\<lambda>os fd n. (ReadError EAGAIN, os)), sys_write = (\<lambda>os fd buf. (Wrote (length buf), os)),
     sys_close = (\<lambda>os fd. (fst os, snd os @ [fd])), sys_epoll_ctl = (\<lambda>os ep op fd ev. (None, os)),
     sys_epoll_create = (\<lambda>os. (3, os)), sys_eventfd = (\<lambda>os. (4, os)),
     sys_epoll_wait = (\<lambda>os ep. (if fst os = 0 then Inr [(EPOLLIN, 4)] else Inl EOTHER, os)),
     ssl_new = (\<lambda>os ctx. (map_option (\<lambda>_. ()) ctx, os)), ssl_set_fd = (\<lambda>os s fd. os), ssl_accept = (\<lambda>os s. (None, os)),
     ssl_read = (\<lambda>os s n. (SslReadError SSL_ERROR_WANT_READ, os)), ssl_write = (\<lambda>os s buf. (SslWrote (length buf), os)),
     ssl_want_read = (\<lambda>os s. False), ssl_want_write = (\<lambda>os s. False), ssl_alpn = (\<lambda>os s. None),
     ssl_shutdown = (\<lambda>os s. os)\<rparr>"

definition prog_net :: "(nat \<times> int list) net" where
  "prog_net = \<lparr>
     net_accept = (\<lambda>os fd. if fst os = 0 then (Accepted 10, (1, snd os)) else (AcceptError EAGAIN, os)),
     net_socket = (\<lambda>os. (5, os)), net_reuseaddr = (\<lambda>os fd. (True, os)), net_getfl = (\<lambda>os fd. 2),
     net_setfl = (\<lambda>os fd flags. os), net_bind = (\<lambda>os fd p. (True, os)), net_listen = (\<lambda>os fd. (True, os)),
     net_is_regular_file = (\<lambda>_. Some True)\<rparr>"

definition prog_pf :: "(demo_session, app_handler, unit, nat \<times> int list) platform" where
  "prog_pf = \<lparr>pf_host = demo_host, pf_ng = scripted_ng, pf_call = app_call demo_host scripted_ng,
     pf_sys = prog_sys, pf_ssl = demo_ssl_lib\<rparr>"

definition prog_cfg :: config_option where
  "prog_cfg = default_config\<lparr>use_tls := 0, num_threads := 1\<rparr>"

lemma prog_pf_ok: "platform_ok prog_pf demo_prov (\<lambda>_. 0) demo_work"
proof -
  have "progress prog_sys (\<lambda>_. 0)" "progress (tunnel prog_sys s) (\<lambda>_. 0)" for s
    by (auto simp: progress_def write_progress_def prog_sys_def tunnel_def)
  then show ?thesis
    using scripted_laws scripted_recv scripted_send scripted_contracts demo_mmap_nonnull
    by (simp add: platform_ok_def platform_laws_def prog_pf_def) (simp add: ssl_reads_bytes_def ssl_new_succeeds_def prog_sys_def)
qed

lemma prog_laws: "socket_laws (pf_sys prog_pf) prog_books" "accept_laws prog_net prog_books" "accepts_descriptors prog_net"
  by (auto simp: socket_laws_def call_laws_def accept_laws_def accepts_descriptors_def closes_def prog_pf_def prog_sys_def prog_net_def
      prog_books_def split: if_splits prod.splits)

lemma prog_started:
  obtains sv w where "program_run prog_pf prog_net orders prog_cfg fs os sv \<lparr>pg_acceptor = Waiting, pg_server = sv\<rparr>"
    "sv_os sv = os" "sv_threads sv = [Created]" "sv_workers sv = [w]"
    "\<exists>os'. w = worker_new (Some app_routes) False fs os'"
proof -
  obtain lb where c: "lb_new 1 1024 = Inr lb"
    "(configured_server fs os :: (demo_session, app_handler, unit, nat \<times> int list) server outcome) =
       Inr (fresh_server lb fs os)"
    by (rule configured_server_eq)
  obtain sv1 where s: "server_startup prog_pf prog_net (port prog_cfg) (fresh_server lb fs os) = Finished sv1"
    "sv_os sv1 = os"
    by (simp add: server_startup_def create_listening_socket_def server_create_epoll_def server_set_event_def
        set_reuse_socket_def set_nonblocking_socket_def prog_pf_def prog_sys_def prog_net_def fresh_server_def Let_def)
  have n: "num_threads prog_cfg \<noteq> 0" "unat (num_threads prog_cfg) = 1" by (simp_all add: prog_cfg_def)
  have "is_runnable prog_net False (key_path prog_cfg) (cert_path prog_cfg) = Inr True" by (simp add: is_runnable_def)
  from n(1) c(1) this s(1) obtain sv where
    o: "open_server prog_pf prog_net (num_threads prog_cfg) False (port prog_cfg) (key_path prog_cfg) (cert_path prog_cfg)
      (fresh_server lb fs os) = Inr (Finished (True, sv))"
    "sv_os sv = sv_os sv1" "length (sv_workers sv) = unat (num_threads prog_cfg)"
    "sv_threads sv = replicate (unat (num_threads prog_cfg)) Created"
    "\<forall>w \<in> set (sv_workers sv). \<exists>os. w = worker_new (Some app_routes) False fs os"
    by (rule open_server_serving)
  from o(3) obtain w where w: "sv_workers sv = [w]" by (auto simp: n(2) length_Suc_conv)
  show ?thesis
    by (rule that [of sv w]) (use o w c s n in \<open>auto simp: program_run_def prog_cfg_def intro: program_reach.start\<close>)
qed

text \<open>
  C3: from every state that the program can reach after it has started, however its threads
  interleave, the main thread can do its next step without any fault, and the next step of every
  worker thread ends and uses no null pointer and no object that was deleted. In TLS mode the key and
  the certificate must be ones that OpenSSL loads, and \<open>SSL_new\<close> must succeed: the program checks neither.
  Faults of other kinds, such as reads outside of a mapping, are not excluded here.
\<close>

theorem program_safe:
  assumes "program_run pf net orders cfg fs os sv p"
    and "platform_laws pf prov patience work" "ssl_new_succeeds (pf_sys pf)" "accepts_descriptors net"
    and "use_tls cfg \<noteq> 0 \<longrightarrow> fst (create_ssl_ctx (pf_ssl pf) (key_path cfg) (cert_path cfg)) \<noteq> None"
  shows "(\<exists>p'. acceptor_step pf net orders p = Some (Inr p'))
    \<and> (\<forall>k < length (sv_threads (pg_server p)). \<exists>r. thread_step pf (key_path cfg) (cert_path cfg) k p = Some r
         \<and> r \<noteq> Inl NullDeref \<and> r \<noteq> Inl DanglingPointer)"
proof (intro conjI allI impI)
  have pf: "platform_ok pf prov patience work" using assms(2,3) by (simp add: platform_ok_def)
  note ok = program_run_ok [OF assms(1) pf assms(4,5)]
  from acceptor_step_ok [OF pf assms(4) ok, of orders] show "\<exists>p'. acceptor_step pf net orders p = Some (Inr p')"
    by blast
  fix k assume "k < length (sv_threads (pg_server p))"
  from thread_step_ok [OF pf this ok] show
    "\<exists>r. thread_step pf (key_path cfg) (cert_path cfg) k p = Some r \<and> r \<noteq> Inl NullDeref \<and> r \<noteq> Inl DanglingPointer"
    by (rule ends_cases) auto
qed

theorem program_safe_witness:
  "\<exists>sv p. program_run prog_pf prog_net (\<lambda>_. []) prog_cfg Map.empty (0, []) sv p \<and> pg_acceptor p = Accepting
    \<and> (\<exists>p'. acceptor_step prog_pf prog_net (\<lambda>_. []) p = Some (Inr p'))
    \<and> (\<forall>k < length (sv_threads (pg_server p)). \<exists>r.
         thread_step prog_pf (key_path prog_cfg) (cert_path prog_cfg) k p = Some r
         \<and> r \<noteq> Inl NullDeref \<and> r \<noteq> Inl DanglingPointer)"
proof -
  obtain sv w where s: "program_run prog_pf prog_net (\<lambda>_. []) prog_cfg Map.empty (0, []) sv
      \<lparr>pg_acceptor = Waiting, pg_server = sv\<rparr>" "sv_os sv = (0, [])" by (rule prog_started)
  let ?p = "\<lparr>pg_acceptor = Accepting, pg_server = sv\<rparr>"
  have "acceptor_step prog_pf prog_net (\<lambda>_. []) \<lparr>pg_acceptor = Waiting, pg_server = sv\<rparr> = Some (Inr ?p)"
    using s(2) by (simp add: acceptor_step_def prog_pf_def prog_sys_def)
  with s(1) have r: "program_run prog_pf prog_net (\<lambda>_. []) prog_cfg Map.empty (0, []) sv ?p"
    by (auto simp: program_run_def intro: program_reach.main)
  have pf: "platform_laws prog_pf demo_prov (\<lambda>_. 0) demo_work" "ssl_new_succeeds (pf_sys prog_pf)"
    using prog_pf_ok by (simp_all add: platform_ok_def)
  show ?thesis
    by (rule exI [of _ sv], rule exI [of _ ?p]) (use r program_safe [OF r pf prog_laws(3)] in \<open>simp add: prog_cfg_def\<close>)
qed

text \<open>
  C4: as long as the program runs, every connection that was accepted and not closed is held by
  exactly one worker, in its queue or with a session in its map: no descriptor leaks, none is closed
  twice, and none is given to two workers.
\<close>

theorem no_socket_leaks:
  assumes "program_run pf net orders cfg fs os sv p"
    and "platform_ok pf prov patience work"
    and "use_tls cfg \<noteq> 0 \<longrightarrow> fst (create_ssl_ctx (pf_ssl pf) (key_path cfg) (cert_path cfg)) \<noteq> None"
    and "socket_laws (pf_sys pf) B" "accept_laws net B" "fst (B (sv_os sv)) = snd (B (sv_os sv))"
    and "pg_acceptor p \<noteq> Ended"
  shows "fst (B (sv_os (pg_server p))) = snd (B (sv_os (pg_server p))) + all_held (sv_workers (pg_server p))
    \<and> single (all_held (sv_workers (pg_server p)))"
proof -
  from assms(1) obtain sv0 where s: "configured_server fs os = Inr sv0"
    "open_server pf net (num_threads cfg) (use_tls cfg \<noteq> 0) (port cfg) (key_path cfg) (cert_path cfg) sv0 =
       Inr (Finished (True, sv))"
    and r: "program_reach pf net orders (key_path cfg) (cert_path cfg) \<lparr>pg_acceptor = Waiting, pg_server = sv\<rparr> p"
    by (auto simp: program_run_def obind_eq_Inr)
  from program_reach_books [OF r assms(2,4,5) opened_program_ok [OF s assms(3)]] opened_books_ok [where B = B, OF s assms(6)] assms(7)
  show ?thesis by (simp add: books_ok_def)
qed
theorem no_socket_leaks_witness:
  "\<exists>sv p. program_run prog_pf prog_net (\<lambda>_. []) prog_cfg Map.empty (0, []) sv p
    \<and> fst (prog_books (sv_os (pg_server p))) = {#10#}
    \<and> fst (prog_books (sv_os (pg_server p))) =
        snd (prog_books (sv_os (pg_server p))) + all_held (sv_workers (pg_server p))
    \<and> single (all_held (sv_workers (pg_server p)))"
proof -
  obtain sv w where s: "program_run prog_pf prog_net (\<lambda>_. []) prog_cfg Map.empty (0, []) sv
      \<lparr>pg_acceptor = Waiting, pg_server = sv\<rparr>" "sv_os sv = (0, [])" by (rule prog_started)
  have "acceptor_step prog_pf prog_net (\<lambda>_. []) \<lparr>pg_acceptor = Waiting, pg_server = sv\<rparr> =
      Some (Inr \<lparr>pg_acceptor = Accepting, pg_server = sv\<rparr>)"
    using s(2) by (simp add: acceptor_step_def prog_pf_def prog_sys_def)
  with s(1) have r1: "program_run prog_pf prog_net (\<lambda>_. []) prog_cfg Map.empty (0, []) sv
      \<lparr>pg_acceptor = Accepting, pg_server = sv\<rparr>" by (auto simp: program_run_def intro: program_reach.main)
  have "program_ok (pf_view prog_pf demo_prov)
      (fst (create_ssl_ctx (pf_ssl prog_pf) (key_path prog_cfg) (cert_path prog_cfg)) \<noteq> None)
      \<lparr>pg_acceptor = Accepting, pg_server = sv\<rparr>"
    by (rule program_run_ok [OF r1 prog_pf_ok prog_laws(3)]) (simp add: prog_cfg_def)
  then have inv: "server_inv (sv\<lparr>sv_os := (1, [])\<rparr>)"
    by (simp add: program_ok_def server_inv_def worker_queues_def)
  have wr: "\<forall>fd os. write_signal (pf_sys prog_pf) fd os = Some os"
    by (simp add: write_signal.simps prog_pf_def prog_sys_def)
  then have "\<forall>fd os. write_signal (pf_sys prog_pf) fd os \<noteq> None" by simp
  with inv have "\<exists>sv'. dispatch_socket prog_pf 10 (sv\<lparr>sv_os := (1, [])\<rparr>) = Some (Inr sv') \<and> fst (sv_os sv') = 1"
  proof (cases rule: dispatch_cases [where sock = 10])
    case (handed lb i w)
    then have "wk_os w = (1, [])" using wr by auto
    with handed(1) show ?thesis by simp
  qed (simp add: prog_pf_def prog_sys_def)
  then obtain sv' where d: "dispatch_socket prog_pf 10 (sv\<lparr>sv_os := (1, [])\<rparr>) = Some (Inr sv')" "fst (sv_os sv') = 1"
    by blast
  let ?p = "\<lparr>pg_acceptor = Accepting, pg_server = sv'\<rparr>"
  have "acceptor_step prog_pf prog_net (\<lambda>_. []) \<lparr>pg_acceptor = Accepting, pg_server = sv\<rparr> = Some (Inr ?p)"
    using s(2) d(1) by (simp add: acceptor_step_def prog_net_def)
  with r1 have r: "program_run prog_pf prog_net (\<lambda>_. []) prog_cfg Map.empty (0, []) sv ?p"
    by (auto simp: program_run_def intro: program_reach.main)
  have "fst (prog_books (sv_os sv')) = {#10#}" using d(2) by (simp add: prog_books_def case_prod_beta)
  with r no_socket_leaks [OF r prog_pf_ok _ prog_laws(1,2)] s(2) show ?thesis
    by (intro exI [of _ sv] exI [of _ ?p]) (simp add: prog_cfg_def prog_books_def)
qed

text \<open>
  C11: once the main thread has stopped accepting and every worker thread has returned, the main
  thread joins all of them and destroys the server without being terminated, and the destructors
  close exactly the descriptors of the server and its workers: the listening socket, the epoll
  descriptors and the eventfds. The sockets of clients that a worker still holds are not among them; they
  stay open until the process exits.
\<close>

theorem shutdown_completes:
  assumes "program_run pf net orders cfg fs os sv p"
    and "platform_ok pf prov patience work" "accepts_descriptors net"
    and "use_tls cfg \<noteq> 0 \<longrightarrow> fst (create_ssl_ctx (pf_ssl pf) (key_path cfg) (cert_path cfg)) \<noteq> None"
    and "socket_laws (pf_sys pf) B" "pg_acceptor p = Joining i"
    and "\<forall>j < length (sv_threads (pg_server p)). i \<le> j \<longrightarrow> sv_threads (pg_server p) ! j = Returned"
  shows "\<exists>p'. acceptor_alone pf net orders p p' \<and> pg_acceptor p' = Ended
    \<and> snd (B (sv_os (pg_server p'))) = snd (B (sv_os (pg_server p))) + mset (own_descriptors (pg_server p))"
proof -
  let ?sv = "pg_server p"
  let ?sv1 = "?sv\<lparr>sv_threads := replicate (length (sv_threads ?sv)) Joined\<rparr>"
  have i: "i \<le> length (sv_threads ?sv)" "\<forall>j < i. sv_threads ?sv ! j = Joined"
    using program_run_ok [OF assms(1-4)] assms(6) by (simp_all add: program_ok_def Let_def)
  have p: "p = \<lparr>pg_acceptor = Joining i, pg_server = ?sv\<rparr>" using assms(6) by simp
  have "\<forall>t \<in> set (sv_threads ?sv1). t = Joined" by simp
  then obtain fs1 os1 where d: "server_destroy pf (orders (sv_workers ?sv1)) ?sv1 = Inr (fs1, os1)"
    "acceptor_step pf net orders \<lparr>pg_acceptor = Joining (length (sv_threads ?sv1)), pg_server = ?sv1\<rparr> =
       Some (Inr \<lparr>pg_acceptor = Ended,
         pg_server = ?sv1\<lparr>sv_workers := [], sv_threads := [], sv_fs := fs1, sv_os := os1\<rparr>\<rparr>)"
    by (rule destroy_alone)
  have "acceptor_alone pf net orders p \<lparr>pg_acceptor = Joining (length (sv_threads ?sv1)), pg_server = ?sv1\<rparr>"
    using join_alone [OF i assms(7)] by (subst p) simp
  from rtranclp.rtrancl_into_rtrancl [OF this d(2)] show ?thesis
    using server_destroy_books [OF assms(5) d(1)] by (fastforce simp: own_descriptors_def)
qed
theorem shutdown_completes_witness:
  "\<exists>sv p p'. program_run prog_pf prog_net (\<lambda>_. []) prog_cfg Map.empty (1, []) sv p
    \<and> acceptor_alone prog_pf prog_net (\<lambda>_. []) p p' \<and> pg_acceptor p' = Ended
    \<and> snd (prog_books (sv_os (pg_server p'))) =
        snd (prog_books (sv_os (pg_server p))) + mset (own_descriptors (pg_server p))"
proof -
  obtain sv w where s: "program_run prog_pf prog_net (\<lambda>_. []) prog_cfg Map.empty (1, []) sv
      \<lparr>pg_acceptor = Waiting, pg_server = sv\<rparr>" "sv_os sv = (1, [])" "sv_threads sv = [Created]" "sv_workers sv = [w]"
    and w: "\<exists>os'. w = worker_new (Some app_routes) False Map.empty os'" by (rule prog_started)
  let ?run = "program_run prog_pf prog_net (\<lambda>_. []) prog_cfg Map.empty (1, []) sv"
  have main: "?run p'" if "?run p" "acceptor_step prog_pf prog_net (\<lambda>_. []) p = Some (Inr p')" for p p'
    using that by (auto simp: program_run_def intro: program_reach.main)
  have thread: "?run p'" if "?run p" "0 < length (sv_threads (pg_server p))"
    "thread_step prog_pf (key_path prog_cfg) (cert_path prog_cfg) 0 p = Some (Inr p')" for p p'
    using that by (auto simp: program_run_def intro: program_reach.worker)
  have r1: "?run \<lparr>pg_acceptor = Joining 0, pg_server = sv\<rparr>"
    by (rule main [OF s(1)]) (simp add: acceptor_step_def prog_pf_def prog_sys_def s(2))
  obtain w1 where u: "startup prog_pf (enter_worker 0 sv) = (True, w1)" "\<not> wk_use_tls w1" "wk_os w1 = (1, [])"
    using w by (auto simp: startup_def enter_worker_def prog_pf_def prog_sys_def worker_new_eq s Let_def)
  let ?sv2 = "leave_worker 0 Polling w1 sv"
  have r2: "?run \<lparr>pg_acceptor = Joining 0, pg_server = ?sv2\<rparr>"
    by (rule thread [OF r1]) (simp_all add: thread_step_def worker_step_def s u)
  have e: "enter_worker 0 ?sv2 = w1" by (simp add: enter_worker_def leave_worker_def s)
  let ?sv3 = "leave_worker 0 Returned w1 ?sv2"
  have "wk_os (w1\<lparr>wk_os := (Suc 0, [])\<rparr>) = wk_os w1" "w1\<lparr>wk_os := wk_os w1\<rparr> = w1" using u(3) by simp_all
  then have r3: "?run \<lparr>pg_acceptor = Joining 0, pg_server = ?sv3\<rparr>"
    by (intro thread [OF r2])
      (simp_all add: thread_step_def worker_step_def e u(3) prog_pf_def prog_sys_def,
        simp_all add: leave_worker_def enter_worker_def s u(3) Let_def)
  have "sv_threads ?sv3 = [Returned]" by (simp add: leave_worker_def s)
  with r3 shutdown_completes [OF r3 prog_pf_ok prog_laws(3) _ prog_laws(1)] show ?thesis
    by (fastforce simp: prog_cfg_def)
qed

text \<open>
  The interleaved steps are those of the loops: run alone, the steps of a worker thread lead
  from its creation to its return exactly when \<open>Worker::run\<close> returns, with the same worker, and those
  of the main thread lead to the joining of the threads exactly when its accept loop ends, with the
  same server.
\<close>

theorem steps_are_loops:
  "(worker_run pf key cert w = Some (Inr w') \<longleftrightarrow> worker_alone pf key cert (Created, w) (Returned, w'))
   \<and> (accept_loop pf net sv = Some (Inr sv') \<longleftrightarrow>
        acceptor_alone pf net orders \<lparr>pg_acceptor = Waiting, pg_server = sv\<rparr>
          \<lparr>pg_acceptor = Joining 0, pg_server = sv'\<rparr>)"
  using worker_run_alone accept_loop_iff by blast

text \<open>
  C22: The data of a running program stays well-formed, however its threads interleave: one thread
  per worker, every entry of the balance table the index of a worker, every socket queue a ring with
  a power-of-two capacity and its ends inside the buffer, and every session of a running worker
  has its nghttp2 session, its router, its SSL object in TLS mode, and a state from between two events.
\<close>

theorem program_well_formed:
  assumes "program_run pf net orders cfg fs os sv p"
    and "platform_ok pf prov patience work" "accepts_descriptors net"
    and "use_tls cfg \<noteq> 0 \<longrightarrow> fst (create_ssl_ctx (pf_ssl pf) (key_path cfg) (cert_path cfg)) \<noteq> None"
    and "pg_acceptor p \<noteq> Ended"
  shows "length (sv_threads (pg_server p)) = length (sv_workers (pg_server p))
    \<and> (\<forall>e \<in> set (indirect_table (sv_load_balancer (pg_server p))). unat e < length (sv_workers (pg_server p)))
    \<and> (\<forall>w \<in> set (sv_workers (pg_server p)). cq_inv (wk_socket_queue w))
    \<and> (\<forall>k < length (sv_workers (pg_server p)). \<forall>sock sd.
         (sv_threads (pg_server p) ! k = Polling \<or> (\<exists>evs. sv_threads (pg_server p) ! k = Handling evs)) \<longrightarrow>
         wk_session_map (sv_workers (pg_server p) ! k) sock = Some sd \<longrightarrow>
         sd_session sd \<noteq> None \<and> sd_router sd = wk_router (sv_workers (pg_server p) ! k)
         \<and> (wk_use_tls (sv_workers (pg_server p) ! k) \<longrightarrow> sd_ssl sd \<noteq> None)
         \<and> (sd_state sd = ESTABLISHED \<or> sd_state sd = DISCONNECTING
            \<or> wk_use_tls (sv_workers (pg_server p) ! k) \<and> sd_state sd = TLS_HANDSHAKING))"
proof -
  from program_run_ok [OF assms(1-4)] assms(5) have inv: "server_inv (pg_server p)"
    and l: "list_all2 (thread_ok (pf_view pf prov) (fst (create_ssl_ctx (pf_ssl pf) (key_path cfg) (cert_path cfg)) \<noteq> None))
      (sv_workers (pg_server p)) (sv_threads (pg_server p))" by (simp_all add: program_ok_def Let_def)
  have "worker_ok (pf_view pf prov) (sv_workers (pg_server p) ! k)"
    if "k < length (sv_workers (pg_server p))"
      "sv_threads (pg_server p) ! k = Polling \<or> (\<exists>evs. sv_threads (pg_server p) ! k = Handling evs)" for k
    using list_all2_nthD [OF l that(1)] that(2) by (auto simp: thread_ok_def)
  then have "good_session (pf_view pf prov) (sv_workers (pg_server p) ! k) sd"
    if "k < length (sv_workers (pg_server p))" "wk_session_map (sv_workers (pg_server p) ! k) sock = Some sd"
      "sv_threads (pg_server p) ! k = Polling \<or> (\<exists>evs. sv_threads (pg_server p) ! k = Handling evs)" for k sock sd
    using that by (auto simp: worker_ok_def)
  then have good: "sd_session sd \<noteq> None \<and> sd_router sd = wk_router (sv_workers (pg_server p) ! k)
      \<and> (wk_use_tls (sv_workers (pg_server p) ! k) \<longrightarrow> sd_ssl sd \<noteq> None)
      \<and> (sd_state sd = ESTABLISHED \<or> sd_state sd = DISCONNECTING
         \<or> wk_use_tls (sv_workers (pg_server p) ! k) \<and> sd_state sd = TLS_HANDSHAKING)"
    if "k < length (sv_workers (pg_server p))"
      "sv_threads (pg_server p) ! k = Polling \<or> (\<exists>evs. sv_threads (pg_server p) ! k = Handling evs)"
      "wk_session_map (sv_workers (pg_server p) ! k) sock = Some sd" for k sock sd
    using that by (fastforce simp: good_session_def connected_def session_ok_def split: option.splits)
  have tab: "\<forall>e \<in> set (indirect_table (sv_load_balancer (pg_server p))). unat e < length (sv_workers (pg_server p))"
    and q: "\<forall>w \<in> set (sv_workers (pg_server p)). cq_inv (wk_socket_queue w)"
    using inv by (simp_all add: server_inv_def lb_inv_def worker_queues_def)
  show ?thesis
    by (rule conjI [OF list_all2_lengthD [OF l, symmetric] conjI [OF tab conjI [OF q]]]) (intro allI impI, rule good)
qed

theorem program_well_formed_witness:
  "\<exists>sv p. program_run prog_pf prog_net (\<lambda>_. []) prog_cfg Map.empty (0, []) sv p
    \<and> length (sv_threads (pg_server p)) = length (sv_workers (pg_server p))
    \<and> (\<forall>e \<in> set (indirect_table (sv_load_balancer (pg_server p))). unat e < length (sv_workers (pg_server p)))
    \<and> (\<forall>w \<in> set (sv_workers (pg_server p)). cq_inv (wk_socket_queue w))"
proof -
  obtain sv w where s: "program_run prog_pf prog_net (\<lambda>_. []) prog_cfg Map.empty (0, []) sv
      \<lparr>pg_acceptor = Waiting, pg_server = sv\<rparr>" by (rule prog_started)
  have "use_tls prog_cfg \<noteq> 0 \<longrightarrow>
      fst (create_ssl_ctx (pf_ssl prog_pf) (key_path prog_cfg) (cert_path prog_cfg)) \<noteq> None" by (simp add: prog_cfg_def)
  note wf = program_well_formed [OF s prog_pf_ok prog_laws(3) this, simplified]
  show ?thesis
    by (rule exI [of _ sv], rule exI [of _ "\<lparr>pg_acceptor = Waiting, pg_server = sv\<rparr>"]) (use s wf in simp)
qed

end
