(* ===== verification/Spec2Isabelle.thy ===== *)
theory Spec2Isabelle
  imports Notify_Refinement Whole_Program
begin

text \<open>
  A verification library for h2server, a multi-threaded HTTP/2 file server in C++ on top of
  nghttp2, OpenSSL and epoll. File names below are relative to \<open>src/src\<close>.

  \<^bold>\<open>The program.\<close> \<open>main\<close> reads the command line, registers two routes (\<open>GET /files/{file_name}\<close> and
  \<open>POST /files\<close>) and starts the server. The server thread accepts connections from an
  edge-triggered listening socket and hands each one to a worker that the load balancer chooses:
  it pushes the descriptor into the ring buffer of the worker and wakes it through an eventfd. A
  worker thread takes the descriptors out, runs the TLS handshake when TLS is on, keeps one
  session per connection, feeds what it reads to nghttp2 and writes what nghttp2 produces. nghttp2
  calls back into the session layer, which collects the header fields and the body of every
  stream, resolves the route and calls the request handler: the downloader maps a file through a
  cache of the worker and streams it, the uploader parses a multipart form and stores its file.

  \<^bold>\<open>The theories.\<close>

  \<^item> \<open>H2_Prelude\<close>: machine integers as words; \<open>fault\<close> and \<open>outcome\<close> (a fault or a value) for
    undefined behaviour, failed assertions, exceptions and traps; \<open>obind\<close>, which sequences outcomes, and
    the rule collections \<open>outcome_simps\<close> and \<open>word_nat\<close>.
  \<^item> \<open>Cpp_String\<close>: what the sources use of \<open>std::string_view\<close> and of C strings.
  \<^item> \<open>Circular_Queue\<close> (\<open>circular_queue.h\<close>): the record \<open>circular_queue\<close> has the fields of the class at
    their widths. Its contract is the locale \<open>bounded_queue\<close>, interpreted as \<open>cq\<close>: push appends,
    pop takes the head, both keep the invariant and neither faults.
  \<^item> \<open>Notify_Protocol\<close> (\<open>worker.cc\<close>: \<open>enqueue_sock\<close>, the signal branch of \<open>run\<close>; \<open>circular_queue.h\<close>):
    acceptor and worker as two programs over ring, flag and eventfd counter, a step relation and
    its reachable states, with the store buffer of x86-TSO for the store that clears the flag. Shown
    are first-in first-out delivery, the absence of a data race on a slot, that a worker that is awake
    or signalled drains the ring, that no wake-up is lost unless the test of the ring overtakes the
    clear of the flag, that then one can be lost, and what goes wrong when a socket is enqueued before
    the worker has its eventfd.
  \<^item> \<open>Load_Balancer\<close> (\<open>server.h\<close>): the indirection table and the search for a worker with room;
    locale \<open>dispatcher\<close>, interpretation \<open>lb\<close>.
  \<^item> \<open>Router\<close> (\<open>router.h\<close>, \<open>router.cc\<close>): the trie. The abstract view is \<open>route_of\<close>, a partial map from
    patterns and methods to handlers; \<open>router_add\<close> updates it at one place and \<open>router_resolve\<close> returns
    its most specific match; locale \<open>route_table\<close>, interpretation \<open>rt\<close>.
  \<^item> \<open>Multipart_Parser\<close> (\<open>multipart_parser.h\<close>, \<open>multipart_parser.cc\<close>): the form parser and its effect on
    a file system, a map from paths to contents.
  \<^item> \<open>File_Cache\<close> (\<open>file_cache.h\<close>, \<open>file_cache.cc\<close>, \<open>load_file_from_filecache\<close> of \<open>handler.cc\<close>): mapped
    files and the cache of a worker; locale \<open>file_loader\<close>, interpretation \<open>fc\<close>.
  \<^item> \<open>Session\<close>, \<open>Stream_Life\<close> and \<open>Session_Facts\<close> (\<open>session.h\<close>, \<open>session.cc\<close>): streams, sessions, the callbacks
    that nghttp2 runs, the replies. \<open>Stream_Life\<close> shows that every pointer that nghttp2 holds, as user
    data or as the source of a response, is a live stream of the session, and that every stream that
    the session keeps is one that nghttp2 knows, whatever callbacks run while receiving or sending;
    its locale \<open>request_handler\<close> states what the session layer needs of
    a handler. \<open>Session_Facts\<close> shows the streaming of a file through the read callback, the reception
    of a request, and the integer limits of the file offset.
  \<^item> \<open>Handler\<close> (\<open>handler.h\<close>, \<open>handler.cc\<close>, the routes of \<open>main.cc\<close>): both handlers, interpreted as
    \<open>rh: request_handler\<close>, and what a GET and a POST lead to from the callbacks of nghttp2 on, the
    answers with status 404 included.
  \<^item> \<open>Ssl_Ctx\<close> (\<open>ssl_ctx.cc\<close>, \<open>validate_alpn\<close> of \<open>worker.cc\<close>): the choice of the protocol on the bytes of
    the client's list, and the set-up of the context.
  \<^item> \<open>Config_Opt\<close> (\<open>config_opt.h\<close>, \<open>config_opt.cc\<close>): the option loop on the answers of \<open>getopt_long\<close>.
  \<^item> \<open>Worker\<close> and \<open>Worker_IO\<close> (\<open>worker.h\<close>, \<open>worker.cc\<close>): construction, move and destruction of a worker,
    the functions it binds for its mode, connection set-up and tear-down, the read, feed, fill and
    flush loops, the event loop. \<open>rbind\<close> sequences runs, which may fault or not end.
  \<^item> \<open>Worker_Facts\<close>, \<open>Worker_Tls\<close>, \<open>Worker_Safety\<close> and \<open>Worker_Sockets\<close> (\<open>worker.cc\<close>): that flushing sends every
    byte once and in order, that reading collects exactly what the socket delivers, that feeding
    ends, and that a TLS connection is served only after h2 has been negotiated; that the TLS data
    path is the cleartext data path on the socket that OpenSSL offers; that every batch of events
    is handled in finitely many steps without use of a null or dangling pointer and keeps the
    invariant \<open>worker_ok\<close> of the session map; and that a worker closes every socket it was given once,
    and holds it until then.
  \<^item> \<open>Server\<close> and \<open>Server_Facts\<close> (\<open>server.h\<close>, \<open>server.cc\<close>, \<open>main.cc\<close>): start-up, creation of workers and
    threads, accept loop, dispatch, destruction and \<open>main\<close>.
  \<^item> \<open>Notify_Refinement\<close> (\<open>worker.cc\<close>): \<open>enqueue_sock\<close> as a function, and the two parts of \<open>handle_signal\<close> (a
    round, and the decision whether to go round again, from whatever state the acceptor has made of
    it), do what sequences of steps of \<open>Notify_Protocol\<close> do, so that what is shown for all
    interleavings covers the functions.
  \<^item> \<open>Whole_Program\<close> (\<open>main.cc\<close>, \<open>listen_and_serve\<close> of \<open>server.cc\<close>, \<open>run\<close> of \<open>worker.cc\<close>): the main thread and the
    worker threads as steps on one shared state, in any interleaving. The invariant \<open>program_ok\<close> of
    the reachable states gives that no step uses a null or dangling pointer, that no descriptor
    leaks or is closed twice, and that the program shuts down; the steps of a thread that runs alone
    are shown to compute what the loops of the source compute.

  The properties of the whole start-up and accept path stand in this theory.

  \<^bold>\<open>State.\<close> A class or struct is a record with the members of the source (prefixed where several
  classes share a name), an enumeration is a datatype. The functions take the state and return
  it updated. A \<open>StreamData\<close> pointer is an address into the list of the streams a session owns; an
  address outside of it is the fault \<open>DanglingPointer\<close>. Sessions are passed as values and written
  back to the map of the worker when the map still has the connection.

  \<^bold>\<open>Code outside of the sources.\<close> It is a parameter of the definitions that use it: nghttp2 is a
  record of functions on an opaque state, and a call that runs callbacks is a tree of type
  \<open>lib_call\<close> that asks for callbacks and goes on with their results; system calls and OpenSSL are
  the records \<open>sys\<close>, \<open>net\<close>, \<open>os_maps\<close>, \<open>os_files\<close> and \<open>ssl_lib\<close> on an opaque state. What a theorem uses of
  their documented behaviour is a named hypothesis, and each such theorem has a witness with
  concrete functions:

  \<^item> \<open>ng_laws\<close>: stream user data is what was set last, or absent, and other calls keep it;
  \<^item> \<open>lib_streams_ok\<close>: a call that runs callbacks passes only what was registered, forgets a stream
    after its close callback and invents none;
  \<^item> \<open>lib_streams_kept\<close>: it does not lose the user data of a stream that was not closed, and a request
    begins on a stream that exists and has no user data;
  \<^item> \<open>recv_contract\<close>: a receiving call consumes between one and all bytes of its input, or fails;
  \<^item> \<open>send_contract\<close>: a sending call that produces bytes has less left to send afterwards, when its
    callbacks leave its state alone and read some bytes or report the end, as those of the program
    are shown to do;
  \<^item> \<open>write_contract\<close>: a write takes a prefix of its buffer, and is not interrupted for ever;
  \<^item> \<open>progress\<close>: repeated calls on a descriptor are not interrupted, and do not deliver, for ever;
  \<^item> \<open>ssl_reads_bytes\<close>: a successful read of OpenSSL delivers at least one byte;
  \<^item> \<open>platform_laws\<close>: the laws above together (but for \<open>lib_streams_kept\<close>), as the event loop needs them;
  \<^item> \<open>ssl_new_succeeds\<close>: \<open>SSL_new\<close> does not fail for a context that was created. This is not a law of
    OpenSSL but what the worker, which does not look at the result, relies on; what happens otherwise is
    \<open>null_ssl_crashes_worker\<close>. \<open>platform_ok\<close> is \<open>platform_laws\<close> and this;
  \<^item> \<open>accept_contract\<close>: accept takes the results of a finite backlog one by one and then would block;
  \<^item> \<open>accepts_descriptors\<close>, \<open>accept_laws\<close>: an accepted descriptor is not negative and was not in use;
  \<^item> \<open>call_laws\<close>, \<open>socket_laws\<close>: only \<open>close\<close> closes a descriptor;
  \<^item> \<open>eventfd_laws\<close>: a write of eight bytes to an eventfd adds the number they stand for to its counter,
    a write that is interrupted, too short or would overflow the counter fails and changes nothing, and
    a read empties it, or fails when it is zero;
  \<^item> \<open>maps_regular\<close>: a readable non-empty regular file opens and maps with its length and bytes;
  \<^item> \<open>mmap_nonnull\<close>: \<open>mmap\<close> does not return a null pointer;
  \<^item> \<open>upload_env_ok\<close>: the temporary file is new and the system lets it be written and renamed.

  \<^bold>\<open>Termination.\<close> A loop that the sources bound is a total function with its measure (rounding
  the capacity, splitting a path, the trie). A loop whose end depends on the system or on input
  (searching a worker, choosing a protocol, reading, feeding, filling, flushing, accepting, the
  event loops) is a partial function into an option, where \<open>None\<close> means that it does not end; the
  theorems on such a loop state that it returns. There is no fuel. The accept loop and the event
  loop are meant to run for ever, and no theorem says that they end; each of their rounds is shown
  to end, and so is the shutdown once they have.

  \<^bold>\<open>Defects.\<close> Some theorems show behaviour that the code should not have: content cut at its first
  line break, an aborted upload that replaces a file, a directory served from an invalid mapping,
  files beyond two gigabytes, methods other than GET and POST, input lost at the end of the stream,
  a worker that sleeps for ever after an early enqueue, a wake-up that is lost because the test of the
  ring overtakes the clear of the flag, zero threads, an \<open>SSL_new\<close> that fails.

  \<^bold>\<open>Granularity.\<close> In \<open>Whole_Program\<close> a step of the main thread is one wait, one accepted and dispatched
  socket, one join or the final destruction; a step of a worker is its start-up, one wait or one
  event. The smaller steps that two threads share, those on the ring, the flag and the eventfd, are
  the subject of \<open>Notify_Protocol\<close>, and \<open>Notify_Refinement\<close> connects the two. Between threads nothing else
  is written by one and read by the other, but for the file system, where renaming is atomic.

  \<^bold>\<open>Not modelled.\<close> Files that other programs change in place while they are mapped (a mapping shows the
  bytes that the file had when it was mapped), exhaustion of memory, messages on the standard output and error, \<open>operator<<\<close> of
  \<open>CircularQueue\<close> (it names a member that does not exist, so it cannot be instantiated), memory models
  weaker than x86-TSO, the session resumption code under \<open>#if 0\<close>, the order in which
  a hash map destroys its sessions beyond being a parameter, the internals of nghttp2 and OpenSSL,
  and the build files. The uncovered lines of the headers declare the methods whose definitions
  are modelled.
\<close>

section \<open>Properties that span the components\<close>

text \<open>
  C10: the accept loop ends when the backlog is empty and loses no connection: together, the
  sockets waiting in the worker queues and the sockets closed have grown by exactly the sockets
  that were accepted, each once, and all queues and the table keep their invariants.
\<close>

theorem accept_loses_no_socket:
  assumes "server_inv sv" "accept_contract (pf_sys pf) net backlog closed patience"
  shows "\<exists>sv'. handle_accept pf net sv = Some (Inr sv') \<and> server_inv sv'
    \<and> queued sv' + mset (closed (sv_os sv')) =
        queued sv + mset (closed (sv_os sv)) + mset (accepted_of (backlog (sv_os sv)))"
  by (rule handle_accept_ok [OF assms])

definition demo_net_sys :: "(unit, accept_result list \<times> int list) sys" where
  "demo_net_sys = \<lparr>
     sys_read = (\<lambda>os fd n. (ReadError EAGAIN, os)), sys_write = (\<lambda>os fd buf. (Wrote (length buf), os)),
     sys_close = (\<lambda>os fd. (fst os, snd os @ [fd])), sys_epoll_ctl = (\<lambda>os ep op fd ev. (None, os)),
     sys_epoll_create = (\<lambda>os. (3, os)), sys_eventfd = (\<lambda>os. (4, os)), sys_epoll_wait = (\<lambda>os ep. (Inl EOTHER, os)),
     ssl_new = (\<lambda>os ctx. (None, os)), ssl_set_fd = (\<lambda>os s fd. os), ssl_accept = (\<lambda>os s. (None, os)),
     ssl_read = (\<lambda>os s n. (SslReadError SSL_ERROR_WANT_READ, os)), ssl_write = (\<lambda>os s buf. (SslWrote (length buf), os)),
     ssl_want_read = (\<lambda>os s. False), ssl_want_write = (\<lambda>os s. False), ssl_alpn = (\<lambda>os s. None),
     ssl_shutdown = (\<lambda>os s. os)\<rparr>"

definition demo_net :: "(accept_result list \<times> int list) net" where
  "demo_net = \<lparr>
     net_accept = (\<lambda>os fd. (case fst os of [] \<Rightarrow> AcceptError EAGAIN | r # rs \<Rightarrow> r, (tl (fst os), snd os))),
     net_socket = (\<lambda>os. (5, os)), net_reuseaddr = (\<lambda>os fd. (True, os)),
     net_getfl = (\<lambda>os fd. 2), net_setfl = (\<lambda>os fd flags. os),
     net_bind = (\<lambda>os fd p. (True, os)), net_listen = (\<lambda>os fd. (True, os)),
     net_is_regular_file = (\<lambda>_. Some True)\<rparr>"

definition demo_net_pf :: "(demo_session, app_handler, unit, accept_result list \<times> int list) platform" where
  "demo_net_pf = \<lparr>pf_host = demo_host, pf_ng = demo_ng, pf_call = app_call demo_host demo_ng,
     pf_sys = demo_net_sys, pf_ssl = demo_ssl_lib\<rparr>"

lemma demo_net_contract: "accept_contract (pf_sys demo_net_pf) demo_net fst snd (\<lambda>_. 0)"
  by (simp add: accept_contract_def demo_net_pf_def demo_net_sys_def demo_net_def)

theorem accept_loses_no_socket_witness:
  "\<exists>sv sv' :: (demo_session, app_handler, unit, accept_result list \<times> int list) server.
     fst (sv_os sv) = [Accepted 10, AcceptError EINTR, Accepted 11] \<and> queued sv = {#}
     \<and> handle_accept demo_net_pf demo_net sv = Some (Inr sv')
     \<and> queued sv' + mset (snd (sv_os sv')) = {#10, 11#}"
proof -
  obtain lb where lb: "lb_new 1 1024 = Inr lb" using lb_new_ok by blast
  let ?sv = "\<lparr>sv_router = app_routes, sv_workers = [], sv_reserved = 0, sv_threads = [], sv_load_balancer = lb, sv_epfd = 3, sv_sock = 5,
      sv_fs = Map.empty, sv_os = ([Accepted 10, AcceptError EINTR, Accepted 11], [])\<rparr>
      :: (demo_session, app_handler, unit, accept_result list \<times> int list) server"
  from spawned_inv [of 2 lb ?sv False] lb obtain lb' where
    inv: "server_inv (spawned 2 False (?sv\<lparr>sv_load_balancer := lb'\<rparr>))" by auto
  have q: "queued (spawned 2 False (?sv\<lparr>sv_load_balancer := lb'\<rparr>)) = {#}"
    by (simp add: queued_def worker_queues_def spawned_def worker_new_queue numeral_2_eq_2)
  have os: "sv_os (spawned 2 False (?sv\<lparr>sv_load_balancer := lb'\<rparr>)) =
      ([Accepted 10, AcceptError EINTR, Accepted 11], [])" by (simp add: spawned_def)
  from inv q os obtain sv :: "(demo_session, app_handler, unit, accept_result list \<times> int list) server"
    where sv: "server_inv sv" "queued sv = {#}" "sv_os sv = ([Accepted 10, AcceptError EINTR, Accepted 11], [])"
    by blast
  from accept_loses_no_socket [OF sv(1) demo_net_contract] obtain sv' where
    "handle_accept demo_net_pf demo_net sv = Some (Inr sv')" "queued sv' + mset (snd (sv_os sv')) = {#10, 11#}"
    by (auto simp: sv(2,3))
  with sv show ?thesis by (intro exI [of _ sv] exI [of _ sv']) simp
qed

text \<open>
  C30: when the command line asks for no help and for a number of threads that is not zero modulo
  2^8, the key and the certificate are there if TLS is on, and the system calls of the start-up
  succeed for the server that \<open>main\<close> has built, then \<open>main\<close> enters the accept loop with the routes for
  downloads and uploads installed in the router of the server and of every worker, as many workers
  as the command line says, empty queues, and the load balancer in a state that satisfies its
  invariant.
\<close>

theorem main_starts_serving:
  fixes pf :: "('n, app_handler, 'l, 'o) platform"
  assumes "config_option_new opts = Inr (usage, cfg)" "\<not> is_help_mode cfg" "num_threads cfg \<noteq> 0"
    and "is_runnable net (use_tls cfg \<noteq> 0) (key_path cfg) (cert_path cfg) = Inr True"
    and "configured_server fs os = Inr sv0" "server_startup pf net (port cfg) sv0 = Finished sv1"
  shows "\<exists>sv. main_program pf net opts fs os = rbind (accept_loop pf net sv) (\<lambda>sv'. Some (Inr (Finished sv')))
    \<and> server_inv sv \<and> queued sv = {#} \<and> length (sv_workers sv) = unat (num_threads cfg)
    \<and> sv_router sv = app_routes
    \<and> (\<forall>w \<in> set (sv_workers sv). wk_router w = Some app_routes \<and> wk_use_tls w = (use_tls cfg \<noteq> 0))"
proof -
  obtain lb where c: "lb_new 1 1024 = Inr lb"
    "(configured_server fs os :: ('n, app_handler, 'l, 'o) server outcome) = Inr (fresh_server lb fs os)"
    by (rule configured_server_eq)
  from c(2) assms(5,6) have s: "server_startup pf net (port cfg) (fresh_server lb fs os) = Finished sv1" by simp
  from open_server_serving [OF assms(3) c(1) assms(4) s] obtain sv where
    o: "open_server pf net (num_threads cfg) (use_tls cfg \<noteq> 0) (port cfg) (key_path cfg) (cert_path cfg)
          (fresh_server lb fs os) = Inr (Finished (True, sv))"
    and sv: "server_inv sv" "queued sv = {#}" "sv_router sv = app_routes"
      "length (sv_workers sv) = unat (num_threads cfg)"
      "\<forall>w \<in> set (sv_workers sv). \<exists>os. w = worker_new (Some app_routes) (use_tls cfg \<noteq> 0) fs os" by blast
  have "main_program pf net opts fs os = rbind (accept_loop pf net sv) (\<lambda>sv'. Some (Inr (Finished sv')))"
    using o assms(1,2) by (simp add: main_program_def c(2) listen_and_serve_def)
  moreover have "wk_router w = Some app_routes \<and> wk_use_tls w = (use_tls cfg \<noteq> 0)" if "w \<in> set (sv_workers sv)" for w
    using bspec [OF sv(5) that] by (elim exE) (simp add: worker_new_eq)
  ultimately show ?thesis using sv(1-4) by blast
qed

lemma demo_startup:
  obtains sv0 sv1 where "configured_server Map.empty ([], []) = Inr sv0"
    "server_startup demo_net_pf demo_net 8443 sv0 = Finished sv1"
proof -
  obtain lb where "(configured_server Map.empty ([], []) ::
      (demo_session, app_handler, unit, accept_result list \<times> int list) server outcome) =
      Inr (fresh_server lb Map.empty ([], []))" by (rule configured_server_eq)
  moreover obtain sv1 where "server_startup demo_net_pf demo_net 8443 (fresh_server lb Map.empty ([], [])) = Finished sv1"
    by (simp add: server_startup_def server_create_epoll_def create_listening_socket_def demo_net_def demo_net_pf_def
        demo_net_sys_def Let_def)
  ultimately show ?thesis by (rule that)
qed

lemma demo_options:
  assumes "n < 2 ^ 31"
  obtains usage cfg where
    "config_option_new [OptFlagH2c, OptArg (CHR ''p'') (dec_nat 8443), OptArg (CHR ''n'') (dec_nat n)] = Inr (usage, cfg)"
    "\<not> is_help_mode cfg" "num_threads cfg = of_nat n" "port cfg = 8443" "use_tls cfg = 0"
  using assms by (auto simp: config_option_new_def default_config_def handle_opt_def atoi_dec_nat)

theorem main_starts_serving_witness:
  "\<exists>sv. main_program demo_net_pf demo_net
       [OptFlagH2c, OptArg (CHR ''p'') (dec_nat 8443), OptArg (CHR ''n'') (dec_nat 4)] Map.empty ([], []) =
      rbind (accept_loop demo_net_pf demo_net sv) (\<lambda>sv'. Some (Inr (Finished sv')))
    \<and> length (sv_workers sv) = 4"
proof -
  obtain usage cfg where c: "config_option_new
      [OptFlagH2c, OptArg (CHR ''p'') (dec_nat 8443), OptArg (CHR ''n'') (dec_nat 4)] = Inr (usage, cfg)"
    and cfg: "\<not> is_help_mode cfg" "num_threads cfg = of_nat 4" "port cfg = 8443" "use_tls cfg = 0"
    by (rule demo_options [of 4]) simp_all
  obtain sv0 sv1 where s: "configured_server Map.empty ([], []) = Inr sv0"
    "server_startup demo_net_pf demo_net 8443 sv0 = Finished sv1" by (rule demo_startup)
  have "is_runnable demo_net (use_tls cfg \<noteq> 0) (key_path cfg) (cert_path cfg) = Inr True" "num_threads cfg \<noteq> 0"
    using cfg by (simp_all add: is_runnable_def)
  from main_starts_serving [OF c cfg(1) this(2,1) s(1) s(2) [folded cfg(3)]] cfg(2) show ?thesis by auto
qed

text \<open>
  A thread count of zero, which the command line accepts (\<open>-n 0\<close>, \<open>-n 256\<close>, \<open>-n x\<close>), ends a server
  that could start otherwise with a division by zero.
\<close>

theorem zero_threads_crash_server:
  fixes pf :: "('n, app_handler, 'l, 'o) platform"
  assumes "config_option_new opts = Inr (usage, cfg)" "\<not> is_help_mode cfg" "num_threads cfg = 0"
    and "is_runnable net (use_tls cfg \<noteq> 0) (key_path cfg) (cert_path cfg) = Inr True"
    and "configured_server fs os = Inr sv0" "server_startup pf net (port cfg) sv0 = Finished sv1"
  shows "main_program pf net opts fs os = Some (Inl DivByZero)"
proof -
  obtain lb where c: "lb_new 1 1024 = Inr lb"
    "(configured_server fs os :: ('n, app_handler, 'l, 'o) server outcome) = Inr (fresh_server lb fs os)"
    by (rule configured_server_eq)
  then have sv0: "sv0 = fresh_server lb fs os" using assms(5) by simp
  have "sv_load_balancer sv1 = lb" using startup_keeps(4) [OF assms(6)] by (simp add: fresh_server_def sv0)
  with assms reset_zero_workers [OF c(1)] show ?thesis
    by (simp add: main_program_def listen_and_serve_def open_server_def)
qed

theorem zero_threads_crash_server_witness:
  "main_program demo_net_pf demo_net
     [OptFlagH2c, OptArg (CHR ''p'') (dec_nat 8443), OptArg (CHR ''n'') (dec_nat 256)] Map.empty ([], []) =
   Some (Inl DivByZero)"
proof -
  obtain usage cfg where c: "config_option_new
      [OptFlagH2c, OptArg (CHR ''p'') (dec_nat 8443), OptArg (CHR ''n'') (dec_nat 256)] = Inr (usage, cfg)"
    and cfg: "\<not> is_help_mode cfg" "num_threads cfg = of_nat 256" "port cfg = 8443" "use_tls cfg = 0"
    by (rule demo_options [of 256]) simp_all
  obtain sv0 sv1 where s: "configured_server Map.empty ([], []) = Inr sv0"
    "server_startup demo_net_pf demo_net 8443 sv0 = Finished sv1" by (rule demo_startup)
  have "is_runnable demo_net (use_tls cfg \<noteq> 0) (key_path cfg) (cert_path cfg) = Inr True" "num_threads cfg = 0"
    using cfg by (simp_all add: is_runnable_def)
  from zero_threads_crash_server [OF c cfg(1) this(2,1) s(1) s(2) [folded cfg(3)]] show ?thesis .
qed

end
